(* ===== verification/Aesd_Prelude.thy ===== *)
theory Aesd_Prelude
  imports Main "HOL-Library.Word" "HOL-Library.Signed_Division"
begin

text \<open>
  Shared vocabulary of the development: the machine types of the C code, the outcomes of an
  operation that may leave the defined behaviour of C, the sequencing of such operations, and
  the generic facts on words, lists and maps that several components use.

  A C function that can only return is a plain HOL function. A function that dereferences
  pointers, indexes arrays, checks an \<open>assert\<close> or frees memory returns a value of
  a sum type, \<open>stop + 'a\<close>: \<open>Inl\<close> with the reason why the execution has no defined continuation
  (or was aborted), \<open>Inr\<close> with the result. \<open>No_return\<close> stands for a call that has not
  come back.
\<close>

section \<open>Machine types\<close>

type_synonym byte = "8 word"
type_synonym u8 = "8 word"
type_synonym u32 = "32 word"
type_synonym u64 = "64 word"
type_synonym ptr = "64 word"

abbreviation NULL :: ptr where
  "NULL \<equiv> 0"

section \<open>Outcomes\<close>

datatype stop = Null_deref | Dangling | Out_of_bounds | Int_overflow | Assert_failed | Bad_free | No_return

type_synonym 'a res = "stop + 'a"

fun andThen :: "stop + 'a \<Rightarrow> ('a \<Rightarrow> stop + 'b) \<Rightarrow> stop + 'b" where
  "andThen (Inl e) f = Inl e"
| "andThen (Inr x) f = f x"

lemma andThen_eq_Inr [simp]: "andThen m f = Inr y \<longleftrightarrow> (\<exists>x. m = Inr x \<and> f x = Inr y)"
  by (cases m) auto

lemma andThen_eq_Inl: "andThen m f = Inl e \<longleftrightarrow> m = Inl e \<or> (\<exists>x. m = Inr x \<and> f x = Inl e)"
  by (cases m) auto

lemma andThen_assoc: "andThen (andThen m f) g = andThen m (\<lambda>x. andThen (f x) g)"
  by (cases m) auto

definition or_stop :: "stop \<Rightarrow> 'a option \<Rightarrow> stop + 'a" where
  "or_stop e x = (case x of None \<Rightarrow> Inl e | Some y \<Rightarrow> Inr y)"

lemma or_stop_simps [simp]:
  "or_stop e None = Inl e"
  "or_stop e (Some y) = Inr y"
  by (simp_all add: or_stop_def)

text \<open>\<open>assert (b)\<close> of \<open>assert.h\<close>: the server is built without \<open>NDEBUG\<close>.\<close>

definition c_assert :: "bool \<Rightarrow> stop + unit" where
  "c_assert b = (if b then Inr () else Inl Assert_failed)"

lemma c_assert_simps [simp]:
  "c_assert True = Inr ()"
  "c_assert False = Inl Assert_failed"
  "c_assert b = Inr u \<longleftrightarrow> b"
  by (simp_all add: c_assert_def)

section \<open>Collections\<close>

named_theorems cb_unfold \<open>definitions of the circular buffer's index arithmetic\<close>
named_theorems node_unfold \<open>definitions of the node accessors\<close>
named_theorems monitor_unfold \<open>definitions of the monitor's critical sections\<close>

section \<open>Words\<close>

lemma unat_of_nat_small: "n < 2 ^ LENGTH('a) \<Longrightarrow> unat (of_nat n :: 'a :: len word) = n"
  by (simp add: unsigned_of_nat take_bit_nat_eq_self)

lemma word_of_unat: "unat w = n \<Longrightarrow> w = of_nat n" for w :: "'a :: len word"
  by auto

lemma unat_of_nat_u8: "n < 256 \<Longrightarrow> unat (of_nat n :: u8) = n"
  by (rule unat_of_nat_small) simp

lemma unat_of_nat_u32: "n < 2 ^ 32 \<Longrightarrow> unat (of_nat n :: u32) = n"
  by (rule unat_of_nat_small) simp

lemma unat_of_nat_u64: "n < 2 ^ 64 \<Longrightarrow> unat (of_nat n :: u64) = n"
  by (rule unat_of_nat_small) simp

lemma unat_u64_less: "unat (w :: u64) < 2 ^ 64"
  using unsigned_less [of w, where ?'a = nat] by simp

lemma unat_minus_ge: "(b :: 'a :: len word) \<le> a \<Longrightarrow> unat (a - b) = unat a - unat b"
  by (rule unat_sub)

lemma sint_small:
  assumes "unat (w :: u64) < 2 ^ 63"
  shows "sint w = int (unat w)"
proof -
  from assms have "int (unat w) < int (2 ^ 63)" by (simp only: of_nat_less_iff)
  then have less: "uint w < 2 ^ 63" by simp
  have "- (2 ^ 63) \<le> uint w" by (rule order_trans [OF _ uint_ge_0]) simp
  with less have "signed_take_bit 63 (uint w) = uint w"
    by (intro signed_take_bit_int_eq_self)
  then show ?thesis by (simp add: sint_uint)
qed

lemma sint_large:
  assumes "2 ^ 63 \<le> unat (w :: u64)"
  shows "sint w < 0"
proof (rule ccontr)
  assume "\<not> sint w < 0"
  then have pos: "0 \<le> sint w" by simp
  have less: "sint w < 2 ^ 63" using sint_lt [of w] by simp
  have "sint w < 2 ^ 64" by (rule less_trans [OF less]) simp
  with pos have "take_bit 64 (sint w) = sint w" by (rule take_bit_int_eq_self)
  moreover have "uint w = take_bit 64 (sint w)" using uint_sint [of w] by simp
  ultimately have "uint w < 2 ^ 63" using less by linarith
  moreover from assms have "int (2 ^ 63) \<le> int (unat w)" by (simp only: of_nat_le_iff)
  ultimately show False by simp
qed

lemma sint_neg_iff: "sint (w :: u64) < 0 \<longleftrightarrow> 2 ^ 63 \<le> unat w"
  using sint_small [of w] sint_large [of w] by (cases "unat w < 2 ^ 63") auto

lemma smod_small: "0 \<le> a \<Longrightarrow> a < b \<Longrightarrow> a smod b = a" for a b :: int
  by (cases "a = 0") (simp_all add: smod_int_alt_def)

lemma distinct_ptrs_bounded:
  assumes "distinct (ps :: ptr list)" and "NULL \<notin> set ps"
  shows "length ps < 2 ^ 64"
proof -
  have "card (set ps) < card (UNIV :: ptr set)"
    using assms(2) by (intro psubset_card_mono) auto
  then show ?thesis using distinct_card [OF assms(1)] by (simp add: card_word)
qed

section \<open>Lists\<close>

lemma sum_list_take_Suc:
  "k < length xs \<Longrightarrow> sum_list (take (Suc k) xs) = sum_list (take k xs) + xs ! k"
  for xs :: "nat list"
  by (simp add: take_Suc_conv_app_nth)

lemma sum_list_take_le: "sum_list (take k xs) \<le> sum_list xs" for xs :: "nat list"
  by (metis append_take_drop_id le_add1 sum_list_append)

lemma sum_list_take_mono:
  "i \<le> j \<Longrightarrow> sum_list (take i xs) \<le> sum_list (take j xs)" for xs :: "nat list"
  by (metis sum_list_take_le min.absorb1 take_take)

lemma sum_list_bounded: "(\<And>x. x \<in> set xs \<Longrightarrow> x \<le> b) \<Longrightarrow> sum_list xs \<le> length xs * b"
  for xs :: "nat list"
  by (induction xs) (auto intro: add_mono)

end
