(* ===== verification/Aesd_Log.thy ===== *)
theory Aesd_Log
  imports Aesd_Prelude
begin

text \<open>
  What the driver relies on when it keeps its write commands in the circular buffer, stated
  without any ring: a log of at most \<open>cap\<close> entries that forgets its oldest entry when it is
  full, and the two translations between a byte position in the concatenation of the entries
  and a pair of an entry number and a byte offset in that entry.

  The interfaces are two locales. \<open>bounded_log\<close> is the contract of adding,
  \<open>seekable_log\<close> extends it with the contract of the two position translations; the
  lemmas that need nothing but these contracts are proved inside them. The circular buffer
  interprets both.
\<close>

section \<open>Bounded logs\<close>

definition push_bounded :: "nat \<Rightarrow> 'e list \<Rightarrow> 'e \<Rightarrow> 'e list" where
  "push_bounded cap xs e = (if length xs < cap then xs else tl xs) @ [e]"

lemma length_push_bounded:
  "0 < cap \<Longrightarrow> length xs \<le> cap \<Longrightarrow> length (push_bounded cap xs e) \<le> cap"
  by (auto simp: push_bounded_def)

lemma push_bounded_last_drop:
  assumes "xs = drop (length ys - cap) ys" and "0 < cap"
  shows "push_bounded cap xs e = drop (length (ys @ [e]) - cap) (ys @ [e])"
  using assms by (auto simp: push_bounded_def drop_Suc tl_drop Suc_diff_le not_less)

fun add_all :: "('b \<Rightarrow> 'e \<Rightarrow> ('o \<times> 'b) option) \<Rightarrow> 'b \<Rightarrow> 'e list \<Rightarrow> 'b option" where
  "add_all add b [] = Some b"
| "add_all add b (e # es) = (case add b e of None \<Rightarrow> None | Some (_, b') \<Rightarrow> add_all add b' es)"

locale bounded_log =
  fixes cap :: nat
    and ok :: "'b \<Rightarrow> bool"
    and view :: "'b \<Rightarrow> 'e list"
    and add :: "'b \<Rightarrow> 'e \<Rightarrow> ('o \<times> 'b) option"
    and evicted :: "'e list \<Rightarrow> 'o"
  assumes cap_pos: "0 < cap"
    and view_bounded: "ok b \<Longrightarrow> length (view b) \<le> cap"
    and add_returns: "ok b \<Longrightarrow>
      \<exists>b'. add b e = Some (evicted (view b), b') \<and> ok b' \<and> view b' = push_bounded cap (view b) e"
begin

lemma add_total: "ok b \<Longrightarrow> \<exists>b'. add b e = Some (evicted (view b), b') \<and> ok b'"
  using add_returns by blast

lemma add_keeps: "ok b \<Longrightarrow> add b e = Some (old, b') \<Longrightarrow> ok b'"
  using add_returns [of b e] by auto

lemma add_view: "ok b \<Longrightarrow> add b e = Some (old, b') \<Longrightarrow> view b' = push_bounded cap (view b) e"
  using add_returns [of b e] by auto

lemma add_last: "ok b \<Longrightarrow> add b e = Some (old, b') \<Longrightarrow> last (view b') = e"
  by (simp add: add_view push_bounded_def)

lemma add_all_keeps_recent:
  assumes "ok b" and "view b = drop (length ys - cap) ys"
  shows "\<exists>b'. add_all add b es = Some b' \<and> ok b'
    \<and> view b' = drop (length (ys @ es) - cap) (ys @ es)"
  using assms
proof (induction es arbitrary: b ys)
  case Nil
  then show ?case by simp
next
  case (Cons e es)
  obtain b' where b': "add b e = Some (evicted (view b), b')" "ok b'"
      "view b' = push_bounded cap (view b) e"
    using add_returns [OF Cons.prems(1)] by blast
  have "view b' = drop (length (ys @ [e]) - cap) (ys @ [e])"
    using b'(3) push_bounded_last_drop [OF Cons.prems(2) cap_pos] by simp
  from Cons.IH [OF b'(2) this] show ?case using b'(1) by simp
qed

end

section \<open>Positions\<close>

text \<open>
  \<open>locate ss p\<close> finds the entry that holds byte \<open>p\<close> of the concatenation of entries of the
  sizes \<open>ss\<close>, and the byte in it; \<open>position_of ss k r\<close> goes the other way.
\<close>

fun locate :: "nat list \<Rightarrow> nat \<Rightarrow> (nat \<times> nat) option" where
  "locate [] p = None"
| "locate (s # ss) p =
     (if p < s then Some (0, p) else map_option (\<lambda>(k, r). (Suc k, r)) (locate ss (p - s)))"

definition position_of :: "nat list \<Rightarrow> nat \<Rightarrow> nat \<Rightarrow> nat option" where
  "position_of ss k r = (if k < length ss \<and> r < ss ! k then Some (sum_list (take k ss) + r) else None)"

lemma locate_Some:
  "locate ss p = Some (k, r) \<Longrightarrow> k < length ss \<and> r < ss ! k \<and> p = sum_list (take k ss) + r"
  by (induction ss p arbitrary: k r rule: locate.induct) (auto split: if_splits)

lemma locate_position:
  "k < length ss \<Longrightarrow> r < ss ! k \<Longrightarrow> locate ss (sum_list (take k ss) + r) = Some (k, r)"
proof (induction ss arbitrary: k)
  case Nil
  then show ?case by simp
next
  case (Cons s ss)
  then show ?case by (cases k) auto
qed

lemma locate_eq_None: "locate ss p = None \<longleftrightarrow> sum_list ss \<le> p"
  by (induction ss p rule: locate.induct) auto

lemma locate_drop:
  "k < length ss \<Longrightarrow> locate (drop k ss) p =
     (if p < ss ! k then Some (0, p)
      else map_option (\<lambda>(j, r). (Suc j, r)) (locate (drop (Suc k) ss) (p - ss ! k)))"
  by (simp flip: Cons_nth_drop_Suc)

lemma position_less:
  assumes "k < k'" and "k' < length ss" and "r < ss ! k"
  shows "sum_list (take k ss) + r < sum_list (take k' ss) + (r' :: nat)"
proof -
  have "k < length ss" using assms(1,2) by simp
  then have "sum_list (take k ss) + r < sum_list (take (Suc k) ss)"
    using assms by (simp add: sum_list_take_Suc)
  also have "\<dots> \<le> sum_list (take k' ss)"
    using assms(1) by (intro sum_list_take_mono) simp
  finally show ?thesis by simp
qed

locale seekable_log = bounded_log cap ok view add evicted
  for cap :: nat
    and ok :: "'b \<Rightarrow> bool"
    and view :: "'b \<Rightarrow> 'e list"
    and add :: "'b \<Rightarrow> 'e \<Rightarrow> ('o \<times> 'b) option"
    and evicted :: "'e list \<Rightarrow> 'o" +
  fixes esz :: "'e \<Rightarrow> nat"
    and find :: "'b \<Rightarrow> nat \<Rightarrow> (nat \<times> nat) option option"
    and fpos :: "'b \<Rightarrow> nat \<Rightarrow> nat \<Rightarrow> nat option option"
    and lim :: nat
  assumes find_locates: "ok b \<Longrightarrow> p < lim \<Longrightarrow> find b p = Some (locate (map esz (view b)) p)"
    and fpos_position: "ok b \<Longrightarrow> sum_list (map esz (view b)) < lim \<Longrightarrow> k < 256 \<Longrightarrow> r < 2 * lim \<Longrightarrow>
      fpos b k r = Some (position_of (map esz (view b)) k r)"
begin

lemma fpos_find:
  assumes "ok b" and "sum_list (map esz (view b)) < lim" and "k < 256" and "r < 2 * lim"
    and "fpos b k r = Some (Some p)"
  shows "find b p = Some (Some (k, r))"
proof -
  have k: "k < length (view b)" and r: "r < map esz (view b) ! k"
    and p: "p = sum_list (take k (map esz (view b))) + r"
    using assms(5) fpos_position [OF assms(1-4)]
    by (auto simp: position_of_def split: if_splits)
  have "p < sum_list (take (Suc k) (map esz (view b)))"
    using k r p by (simp add: sum_list_take_Suc)
  also have "\<dots> \<le> sum_list (map esz (view b))" by (rule sum_list_take_le)
  finally have "p < lim" using assms(2) by simp
  with find_locates [OF assms(1)] locate_position [of k "map esz (view b)" r] k r p
  show ?thesis by simp
qed

lemma find_fpos:
  assumes "ok b" and "sum_list (map esz (view b)) < lim" and "p < lim" and "cap \<le> 256"
    and "find b p = Some (Some (k, r))"
  shows "fpos b k r = Some (Some p)"
proof -
  have loc: "locate (map esz (view b)) p = Some (k, r)"
    using assms(5) find_locates [OF assms(1,3)] by simp
  from locate_Some [OF loc] have loc': "k < length (view b)" "r < esz (view b ! k)"
      "p = sum_list (take k (map esz (view b))) + r"
    by auto
  have "k < 256" using loc' view_bounded [OF assms(1)] assms(4) by simp
  moreover have "r < 2 * lim" using loc' assms(3) by simp
  ultimately show ?thesis
    using fpos_position [OF assms(1,2)] loc' by (simp add: position_of_def)
qed

lemma find_end: "ok b \<Longrightarrow> p < lim \<Longrightarrow> find b p = Some None \<longleftrightarrow> sum_list (map esz (view b)) \<le> p"
  by (simp add: find_locates locate_eq_None)

end

end
