(* ===== verification/Aesd_Circular_Buffer.thy ===== *)
theory Aesd_Circular_Buffer
  imports Aesd_Log
begin

text \<open>
  The circular buffer of \<open>aesd-char-driver/aesd-circular-buffer.c\<close>, function by function:
  the eight-bit index arithmetic (computed in \<open>int\<close> after C's promotion and cut back to
  eight bits), the two search loops, adding, the total size and the initialisation.

  A search loop is a \<open>partial_function\<close> into \<open>option\<close>: \<open>None\<close> stands for an access
  outside the entry array or a loop that does not end, so that a theorem with \<open>Some\<close> on its
  right says that neither happens. The second half gives the invariant \<open>cb_wf\<close>, the
  abstraction \<open>live\<close> (the stored entries, oldest first) and the refinement of the two log
  interfaces of \<open>Aesd_Log\<close>.
\<close>

section \<open>Data\<close>

definition AESDCHAR_MAX_WRITE_OPERATIONS_SUPPORTED :: nat where
  "AESDCHAR_MAX_WRITE_OPERATIONS_SUPPORTED = 10"

record aesd_buffer_entry =
  buffptr :: ptr
  esize :: u64

record aesd_circular_buffer =
  entry :: "aesd_buffer_entry list"
  in_offs :: u8
  out_offs :: u8
  full :: bool

section \<open>Index arithmetic\<close>

definition aesd_circular_buffer_entry_array_capacity :: "aesd_circular_buffer \<Rightarrow> u8" where
  "aesd_circular_buffer_entry_array_capacity buffer =
     of_nat AESDCHAR_MAX_WRITE_OPERATIONS_SUPPORTED"

definition aesd_circular_buffer_relative_entry_offset :: "aesd_circular_buffer \<Rightarrow> u8 \<Rightarrow> u8" where
  "aesd_circular_buffer_relative_entry_offset buffer entry_offset =
     (let capacity = aesd_circular_buffer_entry_array_capacity buffer;
          adjusted_entry_offset = entry_offset mod capacity
      in if full buffer \<and> adjusted_entry_offset = in_offs buffer then capacity
         else if adjusted_entry_offset \<ge> out_offs buffer
         then adjusted_entry_offset - out_offs buffer
         else adjusted_entry_offset + capacity - out_offs buffer)"

definition aesd_circular_buffer_absolute_entry_offset :: "aesd_circular_buffer \<Rightarrow> u8 \<Rightarrow> u8" where
  "aesd_circular_buffer_absolute_entry_offset buffer entry_offset =
     word_of_int ((uint (out_offs buffer) + uint entry_offset)
       mod uint (aesd_circular_buffer_entry_array_capacity buffer))"

text \<open>
  The subtraction is an \<open>int\<close> subtraction and C's remainder truncates towards zero
  (\<open>smod\<close>): with \<open>in_offs < out_offs\<close> and the buffer not full it would be negative.
\<close>

definition aesd_circular_buffer_entry_array_size :: "aesd_circular_buffer \<Rightarrow> u8" where
  "aesd_circular_buffer_entry_array_size buffer =
     (if full buffer then aesd_circular_buffer_entry_array_capacity buffer
      else word_of_int ((uint (in_offs buffer) - uint (out_offs buffer))
        smod uint (aesd_circular_buffer_entry_array_capacity buffer)))"

definition aesd_circular_buffer_next_entry_offset :: "aesd_circular_buffer \<Rightarrow> u8 \<Rightarrow> u8" where
  "aesd_circular_buffer_next_entry_offset buffer entry_offset =
     word_of_int ((uint entry_offset + 1)
       mod uint (aesd_circular_buffer_entry_array_capacity buffer))"

text \<open>The result is an \<open>ssize_t\<close>: the callers read its sign with \<open>sint\<close>.\<close>

definition aesd_circular_buffer_substract_entry_from_fpos :: "aesd_buffer_entry \<Rightarrow> u64 \<Rightarrow> u64" where
  "aesd_circular_buffer_substract_entry_from_fpos entryptr char_offset =
     (if char_offset \<ge> esize entryptr then char_offset - esize entryptr else - 1)"

text \<open>\<open>buffer->entry + i\<close>, dereferenced: no value outside the array.\<close>

definition entry_at :: "aesd_circular_buffer \<Rightarrow> u8 \<Rightarrow> aesd_buffer_entry option" where
  "entry_at buffer i =
     (if unat i < length (entry buffer) then Some (entry buffer ! unat i) else None)"

section \<open>Searching\<close>

text \<open>The result, \<open>*entry_offset\<close> and \<open>*char_offset\<close> after one step. A pointer into the
  entry array is its index.\<close>

definition aesd_circular_buffer_iterate_find_entry_offset_for_fpos ::
  "aesd_circular_buffer \<Rightarrow> u8 \<Rightarrow> u64 \<Rightarrow> (u8 option \<times> u8 \<times> u64) option" where
  "aesd_circular_buffer_iterate_find_entry_offset_for_fpos buffer entry_offset char_offset =
     (case entry_at buffer entry_offset of
        None \<Rightarrow> None
      | Some e \<Rightarrow>
          let substraction = aesd_circular_buffer_substract_entry_from_fpos e char_offset
          in if sint substraction < 0 then Some (Some entry_offset, entry_offset, char_offset)
             else Some (None, aesd_circular_buffer_next_entry_offset buffer entry_offset,
                        substraction))"

partial_function (option) find_entry_loop ::
  "aesd_circular_buffer \<Rightarrow> u8 option \<Rightarrow> u8 \<Rightarrow> u64 \<Rightarrow> (u8 option \<times> u64) option" where
  "find_entry_loop buffer result entry_offset remaining =
     (if result = None \<and>
         aesd_circular_buffer_relative_entry_offset buffer entry_offset
           < aesd_circular_buffer_entry_array_size buffer
      then Option.bind
             (aesd_circular_buffer_iterate_find_entry_offset_for_fpos buffer entry_offset remaining)
             (\<lambda>(result', entry_offset', remaining').
                find_entry_loop buffer result' entry_offset' remaining')
      else Some (result, remaining))"

text \<open>\<open>Some (Some (i, r))\<close>: entry \<open>i\<close> is returned and \<open>*entry_offset_byte_rtn\<close> set to
  \<open>r\<close>; \<open>Some None\<close>: \<open>NULL\<close> is returned and nothing stored.\<close>

definition aesd_circular_buffer_find_entry_offset_for_fpos ::
  "aesd_circular_buffer \<Rightarrow> u64 \<Rightarrow> (u8 \<times> u64) option option" where
  "aesd_circular_buffer_find_entry_offset_for_fpos buffer char_offset =
     Option.bind
       (if 0 < aesd_circular_buffer_entry_array_size buffer
        then aesd_circular_buffer_iterate_find_entry_offset_for_fpos buffer
               (out_offs buffer) char_offset
        else Some (None, out_offs buffer, char_offset))
       (\<lambda>(result, entry_offset, remaining).
          Option.bind (find_entry_loop buffer result entry_offset remaining)
            (\<lambda>(result', remaining'). Some (map_option (\<lambda>i. (i, remaining')) result')))"

partial_function (option) find_fpos_loop ::
  "aesd_circular_buffer \<Rightarrow> u8 \<Rightarrow> u8 \<Rightarrow> u64 \<Rightarrow> u64 option" where
  "find_fpos_loop buffer entry_offset iter result =
     (if aesd_circular_buffer_relative_entry_offset buffer iter < entry_offset
      then Option.bind (entry_at buffer iter)
             (\<lambda>e. find_fpos_loop buffer entry_offset
                    (aesd_circular_buffer_next_entry_offset buffer iter) (result + esize e))
      else Some result)"

definition aesd_circular_buffer_find_fpos_for_entry_offset ::
  "aesd_circular_buffer \<Rightarrow> u8 \<Rightarrow> u64 \<Rightarrow> u64 option" where
  "aesd_circular_buffer_find_fpos_for_entry_offset buffer entry_offset entry_offset_byte =
     (if entry_offset < aesd_circular_buffer_entry_array_size buffer
      then Option.bind
             (entry_at buffer (aesd_circular_buffer_absolute_entry_offset buffer entry_offset))
             (\<lambda>target.
                if entry_offset_byte < esize target
                then Option.bind
                       (if 0 < entry_offset
                        then Option.bind (entry_at buffer (out_offs buffer))
                               (\<lambda>e. Some (aesd_circular_buffer_next_entry_offset buffer
                                            (out_offs buffer), esize e))
                        else Some (out_offs buffer, 0))
                       (\<lambda>(iter, result).
                          Option.bind (find_fpos_loop buffer entry_offset iter result)
                            (\<lambda>result'. Some (result' + entry_offset_byte)))
                else Some (- 1))
      else Some (- 1))"

section \<open>Adding, size, initialisation\<close>

text \<open>The pointer returned (\<open>NULL\<close> or the payload of the entry overwritten) and the
  buffer afterwards.\<close>

definition aesd_circular_buffer_add_entry ::
  "aesd_circular_buffer \<Rightarrow> aesd_buffer_entry \<Rightarrow> (ptr \<times> aesd_circular_buffer) option" where
  "aesd_circular_buffer_add_entry buffer add_entry =
     Option.bind (entry_at buffer (in_offs buffer))
       (\<lambda>slot.
          let old = (if full buffer then buffptr slot else NULL);
              buffer1 = buffer\<lparr>entry := (entry buffer)[unat (in_offs buffer) := add_entry]\<rparr>;
              buffer2 = buffer1\<lparr>in_offs :=
                aesd_circular_buffer_next_entry_offset buffer1 (in_offs buffer1)\<rparr>;
              buffer3 = (if full buffer2 then buffer2\<lparr>out_offs := in_offs buffer2\<rparr>
                         else if in_offs buffer2 = out_offs buffer2 then buffer2\<lparr>full := True\<rparr>
                         else buffer2)
          in Some (old, buffer3))"

text \<open>\<open>AESD_CIRCULAR_BUFFER_FOREACH\<close> visits every slot of the array, used or not.\<close>

fun size_loop :: "aesd_buffer_entry list \<Rightarrow> u64 \<Rightarrow> u64" where
  "size_loop [] acc = acc"
| "size_loop (entryptr # rest) acc =
     size_loop rest (if buffptr entryptr \<noteq> NULL then acc + esize entryptr else acc)"

definition aesd_circular_buffer_size :: "aesd_circular_buffer \<Rightarrow> u64" where
  "aesd_circular_buffer_size buffer = size_loop (entry buffer) 0"

definition empty_entry :: aesd_buffer_entry where
  "empty_entry = \<lparr>buffptr = NULL, esize = 0\<rparr>"

definition aesd_circular_buffer_init :: aesd_circular_buffer where
  "aesd_circular_buffer_init =
     \<lparr>entry = replicate AESDCHAR_MAX_WRITE_OPERATIONS_SUPPORTED empty_entry,
      in_offs = 0, out_offs = 0, full = False\<rparr>"

lemmas [cb_unfold] =
  AESDCHAR_MAX_WRITE_OPERATIONS_SUPPORTED_def
  aesd_circular_buffer_entry_array_capacity_def
  aesd_circular_buffer_relative_entry_offset_def
  aesd_circular_buffer_absolute_entry_offset_def
  aesd_circular_buffer_entry_array_size_def
  aesd_circular_buffer_next_entry_offset_def

section \<open>Invariant and abstraction\<close>

definition unused_cleared :: "aesd_circular_buffer \<Rightarrow> bool" where
  "unused_cleared b \<longleftrightarrow>
     drop (unat (in_offs b)) (entry b) = replicate (10 - unat (in_offs b)) empty_entry"

definition cb_wf :: "aesd_circular_buffer \<Rightarrow> bool" where
  "cb_wf b \<longleftrightarrow> length (entry b) = 10 \<and> unat (in_offs b) < 10
     \<and> (if full b then out_offs b = in_offs b
        else out_offs b = 0 \<and> unused_cleared b)"

definition live :: "aesd_circular_buffer \<Rightarrow> aesd_buffer_entry list" where
  "live b = (if full b
     then drop (unat (in_offs b)) (entry b) @ take (unat (in_offs b)) (entry b)
     else take (unat (in_offs b)) (entry b))"

definition slot :: "aesd_circular_buffer \<Rightarrow> nat \<Rightarrow> u8" where
  "slot b k = of_nat ((unat (out_offs b) + k) mod 10)"


lemma capacity_10: "aesd_circular_buffer_entry_array_capacity b = 10"
  by (simp add: aesd_circular_buffer_entry_array_capacity_def
        AESDCHAR_MAX_WRITE_OPERATIONS_SUPPORTED_def)

lemma cb_wf_length [simp]: "cb_wf b \<Longrightarrow> length (entry b) = 10"
  by (simp add: cb_wf_def)

lemma cb_wf_in: "cb_wf b \<Longrightarrow> unat (in_offs b) < 10"
  by (simp add: cb_wf_def)

lemma cb_wf_full: "cb_wf b \<Longrightarrow> full b \<Longrightarrow> out_offs b = in_offs b"
  by (simp add: cb_wf_def)

lemma cb_wf_not_full: "cb_wf b \<Longrightarrow> \<not> full b \<Longrightarrow> out_offs b = 0"
  by (simp add: cb_wf_def)

lemma cb_wf_unused: "cb_wf b \<Longrightarrow> \<not> full b \<Longrightarrow> unused_cleared b"
  by (simp add: cb_wf_def)

lemma cb_wf_out: "cb_wf b \<Longrightarrow> unat (out_offs b) < 10"
  by (cases "full b") (simp_all add: cb_wf_full cb_wf_not_full cb_wf_in)

lemma length_live: "cb_wf b \<Longrightarrow> length (live b) = (if full b then 10 else unat (in_offs b))"
  using cb_wf_in [of b] by (simp add: live_def)

lemma live_le_10: "cb_wf b \<Longrightarrow> length (live b) \<le> 10"
  using cb_wf_in [of b] by (simp add: length_live)

lemma unat_slot: "unat (slot b k) = (unat (out_offs b) + k) mod 10"
proof -
  have "(unat (out_offs b) + k) mod 10 < 10" by simp
  then have "(unat (out_offs b) + k) mod 10 < 256" by linarith
  then show ?thesis by (simp add: slot_def unat_of_nat_u8)
qed

lemma slot_less_10: "unat (slot b k) < 10"
  by (simp add: unat_slot)

lemma slot_0: "cb_wf b \<Longrightarrow> slot b 0 = out_offs b"
  by (rule word_unat_eq_iff [THEN iffD2]) (simp add: unat_slot cb_wf_out)

lemma next_offset: "unat (aesd_circular_buffer_next_entry_offset b i) = (unat i + 1) mod 10"
proof -
  have "(uint i + 1) mod 10 = int ((unat i + 1) mod 10)"
    by (simp add: zmod_int add.commute)
  then have "aesd_circular_buffer_next_entry_offset b i = of_nat ((unat i + 1) mod 10)"
    by (simp add: aesd_circular_buffer_next_entry_offset_def capacity_10)
  moreover have "(unat i + 1) mod 10 < (256 :: nat)"
    by (rule less_trans [of _ 10]) simp_all
  ultimately show ?thesis by (simp only: unat_of_nat_u8)
qed

lemma next_slot: "aesd_circular_buffer_next_entry_offset b (slot b k) = slot b (Suc k)"
  by (rule word_unat_eq_iff [THEN iffD2]) (simp add: unat_slot next_offset mod_Suc_eq)

lemma absolute_slot:
  "aesd_circular_buffer_absolute_entry_offset b k = slot b (unat k)"
proof -
  have "(uint (out_offs b) + uint k) mod 10 = int ((unat (out_offs b) + unat k) mod 10)"
    by (simp add: zmod_int)
  then show ?thesis
    by (simp add: aesd_circular_buffer_absolute_entry_offset_def capacity_10 slot_def)
qed

lemma array_size_live:
  "cb_wf b \<Longrightarrow> unat (aesd_circular_buffer_entry_array_size b) = length (live b)"
proof (cases "full b")
  case True
  then show "cb_wf b \<Longrightarrow> ?thesis"
    by (simp add: aesd_circular_buffer_entry_array_size_def capacity_10 length_live)
next
  case False
  assume wf: "cb_wf b"
  from cb_wf_in [OF wf] have "int (unat (in_offs b)) < int 10" by (simp only: of_nat_less_iff)
  then have "uint (in_offs b) < 10" by simp
  then have "uint (in_offs b) smod 10 = uint (in_offs b)"
    by (rule smod_small [OF uint_ge_0])
  with False wf show ?thesis
    by (simp add: aesd_circular_buffer_entry_array_size_def capacity_10 length_live cb_wf_not_full)
qed

lemma unat_relative:
  assumes "cb_wf b" and "unat i < 10"
  shows "unat (aesd_circular_buffer_relative_entry_offset b i) =
    (if full b \<and> unat i = unat (in_offs b) then 10
     else if unat (out_offs b) \<le> unat i then unat i - unat (out_offs b)
     else unat i + 10 - unat (out_offs b))"
proof -
  have i: "i mod 10 = i"
    by (rule word_unat_eq_iff [THEN iffD2]) (simp add: unat_mod assms(2))
  have out: "unat (out_offs b) < 10" by (rule cb_wf_out [OF assms(1)])
  have "unat (i + 10 :: u8) = unat i + 10"
    using assms(2) by (subst unat_add_lem [THEN iffD1]) simp_all
  moreover from this have "out_offs b \<le> i + 10"
    using out by (simp add: word_le_nat_alt)
  ultimately show ?thesis
    unfolding aesd_circular_buffer_relative_entry_offset_def capacity_10 Let_def i
    by (simp add: unat_minus_ge word_le_nat_alt word_unat_eq_iff [of i "in_offs b"])
qed

lemma relative_slot:
  assumes "cb_wf b" and "k \<le> length (live b)" and "full b \<Longrightarrow> 0 < k"
  shows "unat (aesd_circular_buffer_relative_entry_offset b (slot b k)) = k"
proof (cases "full b")
  case True
  with assms(1) have out: "out_offs b = in_offs b" by (simp add: cb_wf_full)
  have i: "unat (in_offs b) < 10" by (rule cb_wf_in [OF assms(1)])
  have k: "0 < k" "k \<le> 10" using True assms by (auto simp: length_live)
  have m: "(unat (in_offs b) + k) mod 10 =
      (if unat (in_offs b) + k < 10 then unat (in_offs b) + k else unat (in_offs b) + k - 10)"
    using i k by (simp add: mod_if)
  show ?thesis
    using True i k by (auto simp: unat_relative [OF assms(1) slot_less_10] unat_slot out m)
next
  case False
  with assms have "k \<le> unat (in_offs b)" and "out_offs b = 0"
    by (simp_all add: length_live cb_wf_not_full)
  with False cb_wf_in [OF assms(1)] show ?thesis
    by (simp add: unat_relative [OF assms(1) slot_less_10] unat_slot)
qed

lemma entry_at_slot:
  assumes "cb_wf b" and "k < length (live b)"
  shows "entry_at b (slot b k) = Some (live b ! k)"
proof (cases "full b")
  case True
  with assms(1) have out: "out_offs b = in_offs b" by (simp add: cb_wf_full)
  have i: "unat (in_offs b) < 10" by (rule cb_wf_in [OF assms(1)])
  have k: "k < 10" using True assms by (simp add: length_live)
  have m: "(unat (in_offs b) + k) mod 10 =
      (if unat (in_offs b) + k < 10 then unat (in_offs b) + k else unat (in_offs b) + k - 10)"
    using i k by (simp add: mod_if)
  have "entry b ! ((unat (in_offs b) + k) mod 10) = live b ! k"
    using True assms(1) i k by (auto simp: live_def nth_append m intro: arg_cong)
  then show ?thesis using assms(1) by (simp add: entry_at_def unat_slot out)
next
  case False
  with assms have "k < unat (in_offs b)" and "out_offs b = 0"
    by (simp_all add: length_live cb_wf_not_full)
  with False assms(1) cb_wf_in [OF assms(1)] show ?thesis
    by (simp add: entry_at_def unat_slot live_def)
qed

lemma entry_at_in: "cb_wf b \<Longrightarrow> entry_at b (in_offs b) = Some (entry b ! unat (in_offs b))"
  by (simp add: entry_at_def cb_wf_in)


section \<open>The operations on the abstraction\<close>

lemma init_wf: "cb_wf aesd_circular_buffer_init"
  by (simp add: cb_wf_def unused_cleared_def aesd_circular_buffer_init_def
        AESDCHAR_MAX_WRITE_OPERATIONS_SUPPORTED_def)

lemma live_init: "live aesd_circular_buffer_init = []"
  by (simp add: live_def aesd_circular_buffer_init_def)

definition evicted_ptr :: "aesd_buffer_entry list \<Rightarrow> ptr" where
  "evicted_ptr es = (if length es < 10 then NULL else buffptr (hd es))"

lemma add_entry_unfold:
  "cb_wf b \<Longrightarrow> aesd_circular_buffer_add_entry b e =
     Some (if full b then buffptr (entry b ! unat (in_offs b)) else NULL,
       let i' = aesd_circular_buffer_next_entry_offset b (in_offs b)
       in \<lparr>entry = (entry b)[unat (in_offs b) := e], in_offs = i',
           out_offs = (if full b then i' else out_offs b),
           full = (full b \<or> i' = out_offs b)\<rparr>)"
  by (auto simp: aesd_circular_buffer_add_entry_def entry_at_in Let_def
      aesd_circular_buffer_next_entry_offset_def capacity_10
      intro!: aesd_circular_buffer.equality)

lemma add_entry_full:
  assumes wf: "cb_wf b" and full: "full b"
  shows "\<exists>b'. aesd_circular_buffer_add_entry b e = Some (evicted_ptr (live b), b') \<and> cb_wf b'
    \<and> live b' = push_bounded 10 (live b) e"
proof -
  let ?i = "unat (in_offs b)" and ?es = "entry b"
  let ?i' = "aesd_circular_buffer_next_entry_offset b (in_offs b)"
  let ?b' = "\<lparr>entry = ?es[?i := e], in_offs = ?i', out_offs = ?i', full = True\<rparr>"
  have i: "?i < 10" by (rule cb_wf_in [OF wf])
  have i': "unat ?i' = (if ?i = 9 then 0 else Suc ?i)"
    using i by (simp add: next_offset mod_Suc)
  have len: "length ?es = 10" by (simp add: wf)
  have live: "live b = ?es ! ?i # drop (Suc ?i) ?es @ take ?i ?es"
    using full i len by (simp add: live_def Cons_nth_drop_Suc)
  have "live ?b' = drop (Suc ?i) ?es @ take ?i ?es @ [e]"
  proof (cases "?i = 9")
    case True
    then show ?thesis
      using len i' by (simp add: live_def list_eq_iff_nth_eq nth_append nth_list_update)
  next
    case False
    then have "take (Suc ?i) (?es[?i := e]) = take ?i ?es @ [e]"
      using i len by (simp add: take_Suc_conv_app_nth)
    then show ?thesis using False i' by (simp add: live_def)
  qed
  moreover have "cb_wf ?b'" using i i' len by (auto simp: cb_wf_def)
  moreover have "length (live b) = 10" using full wf by (simp add: length_live)
  ultimately show ?thesis
    using full wf by (simp add: add_entry_unfold Let_def evicted_ptr_def push_bounded_def live)
qed

lemma add_entry_not_full:
  assumes wf: "cb_wf b" and not_full: "\<not> full b"
  shows "\<exists>b'. aesd_circular_buffer_add_entry b e = Some (evicted_ptr (live b), b') \<and> cb_wf b'
    \<and> live b' = push_bounded 10 (live b) e"
proof -
  let ?i = "unat (in_offs b)" and ?es = "entry b"
  let ?i' = "aesd_circular_buffer_next_entry_offset b (in_offs b)"
  let ?b' = "\<lparr>entry = ?es[?i := e], in_offs = ?i', out_offs = 0, full = (?i' = 0)\<rparr>"
  have i: "?i < 10" by (rule cb_wf_in [OF wf])
  have i': "unat ?i' = (if ?i = 9 then 0 else Suc ?i)"
    using i by (simp add: next_offset mod_Suc)
  then have zero: "?i' = 0 \<longleftrightarrow> ?i = 9" by (auto simp: word_unat_eq_iff)
  have len: "length ?es = 10" by (simp add: wf)
  have "take (Suc ?i) (?es[?i := e]) = take ?i ?es @ [e]"
    using i len by (simp add: take_Suc_conv_app_nth)
  then have "live ?b' = live b @ [e]"
    using not_full zero i' len by (cases "?i = 9") (simp_all add: live_def)
  moreover have "cb_wf ?b'"
  proof (cases "?i = 9")
    case True
    then show ?thesis using zero len i' by (simp add: cb_wf_def)
  next
    case False
    have "drop ?i ?es = replicate (10 - ?i) empty_entry"
      using cb_wf_unused [OF wf not_full] by (simp add: unused_cleared_def)
    then have "drop 1 (drop ?i ?es) = drop 1 (replicate (10 - ?i) empty_entry)"
      by (simp only:)
    then have dropS: "drop (Suc ?i) ?es = replicate (10 - Suc ?i) empty_entry"
      by (simp only: drop_drop drop_replicate plus_1_eq_Suc diff_diff_left Suc_eq_plus1)
    have in': "unat ?i' = Suc ?i" using False i' by simp
    have "unused_cleared ?b'"
      unfolding unused_cleared_def aesd_circular_buffer.simps in'
      by (simp only: drop_update_cancel lessI dropS)
    then show ?thesis using False zero len i' i by (simp add: cb_wf_def)
  qed
  moreover have "length (live b) < 10" using not_full wf i by (simp add: length_live)
  ultimately show ?thesis
    using not_full wf
    by (simp add: add_entry_unfold Let_def evicted_ptr_def push_bounded_def cb_wf_not_full)
qed

lemma add_entry_refines:
  "cb_wf b \<Longrightarrow> \<exists>b'. aesd_circular_buffer_add_entry b e = Some (evicted_ptr (live b), b') \<and> cb_wf b'
    \<and> live b' = push_bounded 10 (live b) e"
  by (cases "full b") (rule add_entry_full add_entry_not_full; assumption)+

interpretation cbuf: bounded_log 10 cb_wf live aesd_circular_buffer_add_entry evicted_ptr
  by unfold_locales (simp_all add: live_le_10 add_entry_refines)


section \<open>Searching on the abstraction\<close>

definition sizes :: "aesd_circular_buffer \<Rightarrow> nat list" where
  "sizes b = map (\<lambda>e. unat (esize e)) (live b)"

lemma length_sizes [simp]: "length (sizes b) = length (live b)"
  by (simp add: sizes_def)

lemma nth_sizes: "k < length (live b) \<Longrightarrow> sizes b ! k = unat (esize (live b ! k))"
  by (simp add: sizes_def)

lemma substract_sign:
  assumes "unat off < 2 ^ 63"
  shows "sint (aesd_circular_buffer_substract_entry_from_fpos e off) < 0 \<longleftrightarrow>
    unat off < unat (esize e)"
proof (cases "unat (esize e) \<le> unat off")
  case True
  then have "unat (off - esize e) < 2 ^ 63"
    using assms by (simp add: unat_minus_ge word_le_nat_alt)
  with True show ?thesis
    by (simp add: aesd_circular_buffer_substract_entry_from_fpos_def word_le_nat_alt sint_neg_iff)
next
  case False
  then show ?thesis
    by (simp add: aesd_circular_buffer_substract_entry_from_fpos_def word_le_nat_alt)
qed

lemma substract_value:
  "\<not> unat off < unat (esize e) \<Longrightarrow>
    aesd_circular_buffer_substract_entry_from_fpos e off = off - esize e"
  by (simp add: aesd_circular_buffer_substract_entry_from_fpos_def word_le_nat_alt)

lemma iterate_step:
  assumes "cb_wf b" and "k < length (live b)" and "unat off < 2 ^ 63"
  shows "aesd_circular_buffer_iterate_find_entry_offset_for_fpos b (slot b k) off = Some
    (if unat off < sizes b ! k then (Some (slot b k), slot b k, off)
     else (None, slot b (Suc k), off - esize (live b ! k)))"
  using assms
  by (simp add: aesd_circular_buffer_iterate_find_entry_offset_for_fpos_def entry_at_slot Let_def
      substract_sign next_slot nth_sizes substract_value)

abbreviation found :: "(u8 option \<times> u64) \<Rightarrow> (u8 \<times> u64) option" where
  "found \<equiv> \<lambda>(result, remaining). map_option (\<lambda>i. (i, remaining)) result"

abbreviation located :: "aesd_circular_buffer \<Rightarrow> nat \<Rightarrow> (nat \<times> nat) option \<Rightarrow> (u8 \<times> u64) option" where
  "located b k \<equiv> map_option (\<lambda>(j, r). (slot b (k + j), of_nat r))"

lemma located_Suc:
  "located b k (map_option (\<lambda>(j, r). (Suc j, r)) x) = located b (Suc k) x"
  by (cases x) auto

lemma find_loop_done: "find_entry_loop b (Some i) eo off = Some (Some i, off)"
  by (simp add: find_entry_loop.simps)

lemma find_loop_locates:
  assumes "cb_wf b" and "k \<le> length (live b)" and "full b \<Longrightarrow> 0 < k" and "unat off < 2 ^ 63"
  shows "map_option found (find_entry_loop b None (slot b k) off)
    = Some (located b k (locate (drop k (sizes b)) (unat off)))"
  using assms
proof (induction "length (live b) - k" arbitrary: k off)
  case 0
  then have k: "k = length (live b)" by simp
  have "\<not> aesd_circular_buffer_relative_entry_offset b (slot b k)
      < aesd_circular_buffer_entry_array_size b"
    using 0 k by (simp add: word_less_nat_alt array_size_live relative_slot)
  then have "find_entry_loop b None (slot b k) off = Some (None, off)"
    by (subst find_entry_loop.simps) simp
  then show ?case using k by simp
next
  case (Suc n)
  then have k: "k < length (live b)" by simp
  have guard: "aesd_circular_buffer_relative_entry_offset b (slot b k)
      < aesd_circular_buffer_entry_array_size b"
    using Suc.prems k by (simp add: word_less_nat_alt array_size_live relative_slot)
  have loc: "locate (drop k (sizes b)) (unat off) =
     (if unat off < sizes b ! k then Some (0, unat off)
      else map_option (\<lambda>(j, r). (Suc j, r)) (locate (drop (Suc k) (sizes b)) (unat off - sizes b ! k)))"
    using k by (intro locate_drop) simp
  show ?case
  proof (cases "unat off < sizes b ! k")
    case True
    with guard k Suc.prems have "find_entry_loop b None (slot b k) off = Some (Some (slot b k), off)"
      by (subst find_entry_loop.simps) (simp add: iterate_step find_loop_done)
    with True loc show ?thesis by simp
  next
    case False
    let ?off' = "off - esize (live b ! k)"
    have off': "unat ?off' = unat off - sizes b ! k"
      using False k by (simp add: unat_minus_ge word_le_nat_alt nth_sizes)
    have "map_option found (find_entry_loop b None (slot b (Suc k)) ?off')
        = Some (located b (Suc k) (locate (drop (Suc k) (sizes b)) (unat ?off')))"
      using Suc.hyps(2) k Suc.prems off' by (intro Suc.hyps(1)) simp_all
    moreover have "find_entry_loop b None (slot b k) off
        = find_entry_loop b None (slot b (Suc k)) ?off'"
      using guard k Suc.prems False
      by (subst find_entry_loop.simps) (simp add: iterate_step)
    ultimately show ?thesis using False loc off' by (simp add: located_Suc)
  qed
qed

lemma find_entry_refines:
  assumes "cb_wf b" and "unat off < 2 ^ 63"
  shows "aesd_circular_buffer_find_entry_offset_for_fpos b off
    = Some (located b 0 (locate (sizes b) (unat off)))"
proof -
  have bind_found: "Option.bind x (\<lambda>(r, rem). Some (map_option (\<lambda>i. (i, rem)) r)) = map_option found x"
    for x :: "(u8 option \<times> u64) option"
    by (cases x) auto
  have size: "0 < aesd_circular_buffer_entry_array_size b \<longleftrightarrow> 0 < length (live b)"
    using array_size_live [OF assms(1)] by (simp add: word_less_nat_alt)
  show ?thesis
  proof (cases "length (live b) = 0")
    case True
    then have "\<not> full b" using length_live [OF assms(1)] by auto
    with True find_loop_locates [OF assms(1), of 0 off] assms size show ?thesis
      by (simp add: aesd_circular_buffer_find_entry_offset_for_fpos_def bind_found slot_0)
  next
    case False
    then have len1: "1 \<le> length (live b)" by linarith
    note step = iterate_step [OF assms(1) _ assms(2), of 0, unfolded slot_0 [OF assms(1)]]
    have loc: "locate (sizes b) (unat off) =
       (if unat off < sizes b ! 0 then Some (0, unat off)
        else map_option (\<lambda>(j, r). (Suc j, r)) (locate (drop 1 (sizes b)) (unat off - sizes b ! 0)))"
      using locate_drop [of 0 "sizes b" "unat off"] False by simp
    show ?thesis
    proof (cases "unat off < sizes b ! 0")
      case True
      with False size step loc assms(1) show ?thesis
        by (simp add: aesd_circular_buffer_find_entry_offset_for_fpos_def find_loop_done slot_0)
    next
      case outside: False
      let ?off' = "off - esize (live b ! 0)"
      have off': "unat ?off' = unat off - sizes b ! 0"
        using outside False by (simp add: unat_minus_ge word_le_nat_alt nth_sizes)
      have "map_option found (find_entry_loop b None (slot b 1) ?off')
          = Some (located b 1 (locate (drop 1 (sizes b)) (unat ?off')))"
        using len1 assms off' by (intro find_loop_locates) simp_all
      with outside False size step loc off' show ?thesis
        by (simp add: aesd_circular_buffer_find_entry_offset_for_fpos_def bind_found
            located_Suc [of b 0, simplified])
    qed
  qed
qed


lemma find_fpos_loop_sum:
  assumes "cb_wf b" and "k \<le> unat eo" and "unat eo < length (live b)" and "full b \<Longrightarrow> 0 < k"
  shows "find_fpos_loop b eo (slot b k) res
    = Some (res + of_nat (sum_list (drop k (take (unat eo) (sizes b)))))"
  using assms
proof (induction "unat eo - k" arbitrary: k res)
  case 0
  then have "k = unat eo" by simp
  moreover have "\<not> aesd_circular_buffer_relative_entry_offset b (slot b k) < eo"
    using 0 by (simp add: word_less_nat_alt relative_slot)
  ultimately show ?case by (subst find_fpos_loop.simps) simp
next
  case (Suc n)
  then have k: "k < unat eo" by simp
  have guard: "aesd_circular_buffer_relative_entry_offset b (slot b k) < eo"
    using Suc.prems k by (simp add: word_less_nat_alt relative_slot)
  have "drop k (take (unat eo) (sizes b))
      = sizes b ! k # drop (Suc k) (take (unat eo) (sizes b))"
    using k Suc.prems(3) by (subst Cons_nth_drop_Suc [symmetric]) simp_all
  moreover have "find_fpos_loop b eo (slot b (Suc k)) (res + esize (live b ! k))
      = Some (res + esize (live b ! k)
          + of_nat (sum_list (drop (Suc k) (take (unat eo) (sizes b)))))"
    using Suc.hyps(2) k Suc.prems by (intro Suc.hyps(1)) simp_all
  moreover have "find_fpos_loop b eo (slot b k) res
      = find_fpos_loop b eo (slot b (Suc k)) (res + esize (live b ! k))"
    using guard k Suc.prems
    by (subst find_fpos_loop.simps) (simp add: entry_at_slot next_slot)
  ultimately show ?case using k Suc.prems(3) by (simp add: nth_sizes add.assoc)
qed

lemma find_fpos_word:
  assumes "cb_wf b"
  shows "aesd_circular_buffer_find_fpos_for_entry_offset b eo r = Some
    (if unat eo < length (live b) \<and> unat r < sizes b ! unat eo
     then of_nat (sum_list (take (unat eo) (sizes b))) + r else - 1)"
proof (cases "unat eo < length (live b) \<and> unat r < sizes b ! unat eo")
  case False
  then show ?thesis
    using assms array_size_live [OF assms]
    by (auto simp: aesd_circular_buffer_find_fpos_for_entry_offset_def word_less_nat_alt
        absolute_slot entry_at_slot nth_sizes)
next
  case True
  then have eo: "eo < aesd_circular_buffer_entry_array_size b"
    using array_size_live [OF assms] by (simp add: word_less_nat_alt)
  have target: "entry_at b (slot b (unat eo)) = Some (live b ! unat eo)"
    and r: "r < esize (live b ! unat eo)"
    using True assms by (auto simp: entry_at_slot word_less_nat_alt nth_sizes)
  show ?thesis
  proof (cases "unat eo = 0")
    case zero: True
    then have "\<not> aesd_circular_buffer_relative_entry_offset b i < eo" for i
      by (simp add: word_less_nat_alt)
    then have "find_fpos_loop b eo (out_offs b) 0 = Some 0"
      by (subst find_fpos_loop.simps) simp
    moreover have "\<not> 0 < eo" using zero by (simp add: word_less_nat_alt)
    ultimately show ?thesis
      using True eo target r zero
      by (simp add: aesd_circular_buffer_find_fpos_for_entry_offset_def absolute_slot)
  next
    case False
    then have pos: "0 < eo" by (simp add: word_less_nat_alt)
    have first: "entry_at b (out_offs b) = Some (live b ! 0)"
      using entry_at_slot [of b 0] assms True slot_0 [OF assms]
      by (cases "live b = []") simp_all
    have next_1: "aesd_circular_buffer_next_entry_offset b (out_offs b) = slot b 1"
      using next_slot [of b 0] slot_0 [OF assms] by simp
    have "take (unat eo) (sizes b) = sizes b ! 0 # drop 1 (take (unat eo) (sizes b))"
      using False True Cons_nth_drop_Suc [of 0 "take (unat eo) (sizes b)"]
      by (cases "live b = []") simp_all
    then have "sum_list (take (unat eo) (sizes b))
        = sizes b ! 0 + sum_list (drop 1 (take (unat eo) (sizes b)))"
      by (metis sum_list.Cons)
    moreover have "find_fpos_loop b eo (slot b 1) (esize (live b ! 0))
        = Some (esize (live b ! 0) + of_nat (sum_list (drop 1 (take (unat eo) (sizes b)))))"
      using False True assms by (intro find_fpos_loop_sum) simp_all
    moreover have "sizes b ! 0 = unat (esize (live b ! 0))"
      using True by (intro nth_sizes) linarith
    ultimately show ?thesis
      using True eo target r pos first next_1
      by (simp add: aesd_circular_buffer_find_fpos_for_entry_offset_def absolute_slot)
  qed
qed

text \<open>Read as an \<open>ssize_t\<close>, the result is the position or \<open>-1\<close>.\<close>

lemma find_fpos_refines:
  assumes "cb_wf b" and "sum_list (sizes b) < 2 ^ 63"
  shows "map_option sint (aesd_circular_buffer_find_fpos_for_entry_offset b eo r) = Some
    (case position_of (sizes b) (unat eo) (unat r) of None \<Rightarrow> - 1 | Some p \<Rightarrow> int p)"
proof (cases "unat eo < length (live b) \<and> unat r < sizes b ! unat eo")
  case False
  then show ?thesis using assms(1) by (auto simp: find_fpos_word position_of_def)
next
  case True
  let ?p = "sum_list (take (unat eo) (sizes b)) + unat r"
  have "?p < sum_list (take (Suc (unat eo)) (sizes b))"
    using True by (simp add: sum_list_take_Suc)
  also have "\<dots> \<le> sum_list (sizes b)" by (rule sum_list_take_le)
  finally have p: "?p < 2 ^ 63" using assms(2) by simp
  then have "unat (of_nat ?p :: u64) = ?p" by (intro unat_of_nat_u64) simp
  moreover have "of_nat ?p = (of_nat (sum_list (take (unat eo) (sizes b))) + r :: u64)" by simp
  ultimately show ?thesis
    using True p assms(1) sint_small [of "of_nat ?p"] by (simp add: find_fpos_word position_of_def)
qed


section \<open>Total size\<close>

lemma size_loop_append: "size_loop (es @ fs) acc = size_loop fs (size_loop es acc)"
  by (induction es acc rule: size_loop.induct) simp_all

lemma size_loop_used:
  "\<forall>e \<in> set es. buffptr e \<noteq> NULL \<Longrightarrow>
    size_loop es acc = acc + of_nat (sum_list (map (\<lambda>e. unat (esize e)) es))"
  by (induction es acc rule: size_loop.induct) (simp_all add: add.assoc)

lemma size_loop_unused: "size_loop (replicate n empty_entry) acc = acc"
  by (induction n) (simp_all add: empty_entry_def)

lemma size_refines:
  assumes "cb_wf b" and "\<forall>e \<in> set (live b). buffptr e \<noteq> NULL"
  shows "aesd_circular_buffer_size b = of_nat (sum_list (sizes b))"
proof -
  let ?i = "unat (in_offs b)"
  have split: "entry b = take ?i (entry b) @ drop ?i (entry b)" by simp
  have used: "\<forall>e \<in> set (take ?i (entry b)). buffptr e \<noteq> NULL"
    using assms(2) by (auto simp: live_def split: if_splits)
  have "size_loop (entry b) 0 = size_loop (take ?i (entry b) @ drop ?i (entry b)) 0" by simp
  also have "\<dots> = size_loop (drop ?i (entry b))
      (of_nat (sum_list (map (\<lambda>e. unat (esize e)) (take ?i (entry b)))))"
    by (simp only: size_loop_append size_loop_used [OF used] add_0_left)
  also have "\<dots> = of_nat (sum_list (sizes b))"
  proof (cases "full b")
    case True
    then have "\<forall>e \<in> set (drop ?i (entry b)). buffptr e \<noteq> NULL"
      using assms(2) by (simp add: live_def)
    then show ?thesis using True by (simp add: size_loop_used sizes_def live_def add.commute)
  next
    case False
    then show ?thesis
      using cb_wf_unused [OF assms(1)]
      by (simp add: unused_cleared_def size_loop_unused sizes_def live_def)
  qed
  finally show ?thesis by (simp add: aesd_circular_buffer_size_def)
qed

section \<open>Interpretation of the seekable log\<close>

text \<open>The interface speaks of entry numbers counted from the oldest entry and of unbounded
  positions; these two adaptors translate the results of the searches.\<close>

definition rank_of :: "aesd_circular_buffer \<Rightarrow> u8 \<Rightarrow> nat" where
  "rank_of b i = (unat i + 10 - unat (out_offs b)) mod 10"

definition find_rank :: "aesd_circular_buffer \<Rightarrow> nat \<Rightarrow> (nat \<times> nat) option option" where
  "find_rank b p = map_option (map_option (\<lambda>(i, r). (rank_of b i, unat r)))
     (aesd_circular_buffer_find_entry_offset_for_fpos b (of_nat p))"

definition fpos_rank :: "aesd_circular_buffer \<Rightarrow> nat \<Rightarrow> nat \<Rightarrow> nat option option" where
  "fpos_rank b k r = map_option (\<lambda>w. if sint w < 0 then None else Some (unat w))
     (aesd_circular_buffer_find_fpos_for_entry_offset b (of_nat k) (of_nat r))"

lemma rank_slot: "cb_wf b \<Longrightarrow> k < 10 \<Longrightarrow> rank_of b (slot b k) = k"
  using cb_wf_out [of b] by (cases "unat (out_offs b) + k < 10") (simp_all add: rank_of_def unat_slot mod_if)

lemma find_rank_locates:
  assumes "cb_wf b" and "p < 2 ^ 63"
  shows "find_rank b p = Some (locate (sizes b) p)"
proof -
  have p: "unat (of_nat p :: u64) = p" using assms(2) by (intro unat_of_nat_u64) simp
  have "map_option (\<lambda>(i, r). (rank_of b i, unat r)) (located b 0 (locate (sizes b) p))
      = locate (sizes b) p"
  proof (cases "locate (sizes b) p")
    case None
    then show ?thesis by simp
  next
    case (Some kr)
    then obtain k r where kr: "locate (sizes b) p = Some (k, r)" by (cases kr) auto
    from locate_Some [OF kr] have "k < 10" and "r \<le> p"
      using live_le_10 [OF assms(1)] by auto
    then show ?thesis
      using kr assms by (simp add: rank_slot unat_of_nat_u64)
  qed
  then show ?thesis using assms p by (simp add: find_rank_def find_entry_refines)
qed

lemma fpos_rank_position:
  assumes "cb_wf b" and "sum_list (sizes b) < 2 ^ 63" and "k < 256" and "r < 2 * 2 ^ 63"
  shows "fpos_rank b k r = Some (position_of (sizes b) k r)"
proof -
  have k: "unat (of_nat k :: u8) = k" using assms(3) by (rule unat_of_nat_u8)
  have r: "unat (of_nat r :: u64) = r" using assms(4) by (intro unat_of_nat_u64) simp
  obtain w where w: "aesd_circular_buffer_find_fpos_for_entry_offset b (of_nat k) (of_nat r) = Some w"
    using find_fpos_word [OF assms(1)] by blast
  have "sint w = (case position_of (sizes b) k r of None \<Rightarrow> - 1 | Some p \<Rightarrow> int p)"
    using find_fpos_refines [OF assms(1,2), of "of_nat k" "of_nat r"] w k r by simp
  moreover have "\<not> sint w < 0 \<Longrightarrow> unat w = nat (sint w)"
    using sint_small [of w] sint_large [of w] by (cases "unat w < 2 ^ 63") simp_all
  ultimately show ?thesis
    using w by (auto simp: fpos_rank_def split: option.splits)
qed

interpretation cseek: seekable_log 10 cb_wf live aesd_circular_buffer_add_entry evicted_ptr
    "\<lambda>e. unat (esize e)" find_rank fpos_rank "2 ^ 63"
  by unfold_locales
    (simp_all only: find_rank_locates fpos_rank_position flip: sizes_def)

end
