(* ===== verification/Aesd_Ioctl.thy ===== *)
theory Aesd_Ioctl
  imports Aesd_Prelude
begin

text \<open>
  The seek request of \<open>aesd-char-driver/aesd_ioctl.h\<close>, shared by the driver and the socket
  server, and its passage through the \<open>uint64_t\<close> that \<open>aesd_ioctl\<close> copies from user space.
  Requests are ordered by command and then by offset; the driver's seek is monotone in that
  order.
\<close>

unbundle bit_operations_syntax

datatype aesd_seekto = Seekto (write_cmd: u32) (write_cmd_offset: u32)

definition AESD_IOC_MAGIC :: u8 where
  "AESD_IOC_MAGIC = 0x16"

text \<open>\<open>_IOWR\<close> is the kernel's; its three arguments are the ones of the header, the size of
  the structure being eight bytes.\<close>

definition AESDCHAR_IOCSEEKTO :: "(u8 \<Rightarrow> u8 \<Rightarrow> nat \<Rightarrow> u32) \<Rightarrow> u32" where
  "AESDCHAR_IOCSEEKTO iowr = iowr AESD_IOC_MAGIC 1 8"

text \<open>The eight bytes of the structure read as one little-endian \<open>uint64_t\<close>, and the two
  fields read back through the cast pointer.\<close>

definition seekto_as_u64 :: "aesd_seekto \<Rightarrow> u64" where
  "seekto_as_u64 s = ucast (write_cmd s) OR push_bit 32 (ucast (write_cmd_offset s))"

definition u64_as_seekto :: "u64 \<Rightarrow> aesd_seekto" where
  "u64_as_seekto w = Seekto (ucast w) (ucast (drop_bit 32 w))"

lemma seekto_overlay: "u64_as_seekto (seekto_as_u64 s) = s"
proof -
  have "ucast (seekto_as_u64 s) = write_cmd s"
    by (rule bit_word_eqI) (auto simp: seekto_as_u64_def bit_simps)
  moreover have "ucast (drop_bit 32 (seekto_as_u64 s)) = write_cmd_offset s"
    by (rule bit_word_eqI) (auto simp: seekto_as_u64_def bit_simps dest: bit_imp_le_length)
  ultimately show ?thesis by (cases s) (simp add: u64_as_seekto_def)
qed

instantiation aesd_seekto :: linorder
begin

definition less_eq_aesd_seekto :: "aesd_seekto \<Rightarrow> aesd_seekto \<Rightarrow> bool" where
  "less_eq_aesd_seekto s t \<longleftrightarrow> write_cmd s < write_cmd t
     \<or> write_cmd s = write_cmd t \<and> write_cmd_offset s \<le> write_cmd_offset t"

definition less_aesd_seekto :: "aesd_seekto \<Rightarrow> aesd_seekto \<Rightarrow> bool" where
  "less_aesd_seekto s t \<longleftrightarrow> write_cmd s < write_cmd t
     \<or> write_cmd s = write_cmd t \<and> write_cmd_offset s < write_cmd_offset t"

instance
  by intro_classes
    (auto simp: less_eq_aesd_seekto_def less_aesd_seekto_def intro: aesd_seekto.expand)

end

end
