(* ===== verification/Aesd_Buffer_Props.thy ===== *)
theory Aesd_Buffer_Props
  imports Aesd_Circular_Buffer Aesd_Ioctl
begin

text \<open>
  The properties of the circular buffer, obtained from its interpretations of the log
  interfaces, and a concrete full buffer of twelve additions on which they are evaluated.
\<close>

section \<open>A full buffer\<close>

definition numbered :: "nat \<Rightarrow> aesd_buffer_entry" where
  "numbered i = \<lparr>buffptr = of_nat (Suc i), esize = of_nat (Suc i)\<rparr>"

definition demo_full :: aesd_circular_buffer where
  "demo_full = \<lparr>entry = map numbered [10, 11, 2, 3, 4, 5, 6, 7, 8, 9],
     in_offs = 2, out_offs = 2, full = True\<rparr>"

lemma demo_full_wf: "cb_wf demo_full"
  by (simp add: cb_wf_def demo_full_def)

lemma demo_full_live: "live demo_full = map numbered [2, 3, 4, 5, 6, 7, 8, 9, 10, 11]"
  by (simp add: live_def demo_full_def)

lemma demo_full_sizes: "sizes demo_full = [3, 4, 5, 6, 7, 8, 9, 10, 11, 12]"
  by (simp add: sizes_def demo_full_live numbered_def)

section \<open>Adding\<close>

text \<open>C22. Starting from an initialised buffer any number of additions succeeds, no index leaves
  the array, and the buffer then holds the last ten entries added, oldest first.\<close>

theorem buffer_holds_last_ten:
  "\<exists>b. add_all aesd_circular_buffer_add_entry aesd_circular_buffer_init es = Some b \<and> cb_wf b
    \<and> live b = drop (length es - 10) es"
  using cbuf.add_all_keeps_recent [OF init_wf, of "[]" es] by (simp add: live_init)

text \<open>An addition to a full buffer hands back the payload of the entry it overwrites, the
  oldest one, and an addition to a buffer with room hands back \<open>NULL\<close>: no payload is lost and
  none that is still stored is handed out.\<close>

lemma add_returns_evicted_payload:
  assumes "cb_wf b" and "aesd_circular_buffer_add_entry b e = Some (old, b')"
  shows "cb_wf b' \<and> (if length (live b) < 10 then old = NULL \<and> live b' = live b @ [e]
    else old = buffptr (hd (live b)) \<and> live b' = tl (live b) @ [e])"
  using cbuf.add_keeps [OF assms] cbuf.add_view [OF assms] add_entry_refines [OF assms(1), of e] assms(2)
  by (auto simp: push_bounded_def evicted_ptr_def)

lemma add_returns_evicted_payload_witness:
  "\<exists>b'. aesd_circular_buffer_add_entry demo_full (numbered 12) = Some (3, b') \<and> cb_wf b'
    \<and> live b' = map numbered [3, 4, 5, 6, 7, 8, 9, 10, 11, 12]"
proof -
  obtain old b' where add: "aesd_circular_buffer_add_entry demo_full (numbered 12) = Some (old, b')"
    using cbuf.add_total [OF demo_full_wf, of "numbered 12"] by blast
  from add_returns_evicted_payload [OF demo_full_wf add] add show ?thesis
    by (simp add: demo_full_live numbered_def)
qed

section \<open>Positions\<close>

text \<open>C23. The search for a position of the concatenated entries ends without leaving the array
  and finds the entry that holds the position and the byte in it, and nothing exactly when the
  position is at or past the end of the stored data.\<close>

theorem find_entry_locates_position:
  assumes "cb_wf b" and "unat off < 2 ^ 63"
  shows "case aesd_circular_buffer_find_entry_offset_for_fpos b off of
      None \<Rightarrow> False
    | Some None \<Rightarrow> sum_list (sizes b) \<le> unat off
    | Some (Some (i, r)) \<Rightarrow> \<exists>k < length (live b). i = slot b k
        \<and> entry_at b i = Some (live b ! k) \<and> r < esize (live b ! k)
        \<and> unat off = sum_list (take k (sizes b)) + unat r"
proof (cases "locate (sizes b) (unat off)")
  case None
  then have "sum_list (sizes b) \<le> unat off" by (simp only: locate_eq_None)
  then show ?thesis unfolding find_entry_refines [OF assms] None by simp
next
  case (Some kr)
  obtain k r where kr: "locate (sizes b) (unat off) = Some (k, r)" using Some by (cases kr) auto
  from locate_Some [OF kr] have k: "k < length (live b)" "r < unat (esize (live b ! k))"
    "unat off = sum_list (take k (sizes b)) + r"
    by (auto simp: nth_sizes)
  then have r: "unat (of_nat r :: u64) = r"
    using unat_u64_less [of off] by (intro unat_of_nat_u64) simp
  then have "of_nat r < esize (live b ! k)" using k(2) by (simp add: word_less_nat_alt)
  then show ?thesis
    using find_entry_refines [OF assms] kr k r entry_at_slot [OF assms(1)] by auto
qed

theorem find_entry_locates_position_witness:
  "aesd_circular_buffer_find_entry_offset_for_fpos demo_full 9 \<noteq> None
    \<and> (case aesd_circular_buffer_find_entry_offset_for_fpos demo_full 9 of
      None \<Rightarrow> False
    | Some None \<Rightarrow> sum_list (sizes demo_full) \<le> unat (9 :: u64)
    | Some (Some (i, r)) \<Rightarrow> \<exists>k < length (live demo_full). i = slot demo_full k
        \<and> entry_at demo_full i = Some (live demo_full ! k) \<and> r < esize (live demo_full ! k)
        \<and> unat (9 :: u64) = sum_list (take k (sizes demo_full)) + unat r)"
  using find_entry_locates_position [OF demo_full_wf, of 9] by (auto split: option.splits)

text \<open>C24. The two position translations are inverse to each other: seeking to a byte of an entry
  and searching the resulting position gives the entry and the byte back, and searching a
  position and translating the result gives the position back.\<close>

theorem position_translations_inverse:
  assumes "cb_wf b" and "sum_list (sizes b) < 2 ^ 63" and "k < 256" and "r < 2 ^ 63" and "p < 2 ^ 63"
  shows "fpos_rank b k r = Some (Some p) \<longleftrightarrow> find_rank b p = Some (Some (k, r))"
  using cseek.fpos_find [OF assms(1), of k r p] cseek.find_fpos [OF assms(1), of p k r] assms(2-5)
  by (auto simp flip: sizes_def)

theorem position_translations_inverse_witness:
  "fpos_rank demo_full 2 1 = Some (Some 8) \<and> find_rank demo_full 8 = Some (Some (2, 1))"
  using position_translations_inverse [OF demo_full_wf, of 2 1 8] find_rank_locates [OF demo_full_wf, of 8]
  by (simp add: demo_full_sizes)

text \<open>Seek requests that name stored bytes are mapped to positions in the order of the
  requests: command number first, then the byte in it.\<close>

lemma seek_positions_monotone:
  assumes "cb_wf b" and "sum_list (sizes b) < 2 ^ 63"
    and "write_cmd s < 256" and "write_cmd t < 256" and "s < t"
    and "fpos_rank b (unat (write_cmd s)) (unat (write_cmd_offset s)) = Some (Some p)"
    and "fpos_rank b (unat (write_cmd t)) (unat (write_cmd_offset t)) = Some (Some q)"
  shows "p < q"
proof -
  have small: "unat (write_cmd x) < 256 \<and> unat (write_cmd_offset x) < 2 * 2 ^ 63"
    if "write_cmd x < 256" for x
    using that unsigned_less [of "write_cmd_offset x", where ?'a = nat] by (simp add: word_less_nat_alt)
  have p: "position_of (sizes b) (unat (write_cmd s)) (unat (write_cmd_offset s)) = Some p"
    and q: "position_of (sizes b) (unat (write_cmd t)) (unat (write_cmd_offset t)) = Some q"
    using fpos_rank_position [OF assms(1,2)] small assms(3,4,6,7) by auto
  show ?thesis
  proof (cases "write_cmd s = write_cmd t")
    case True
    then show ?thesis using p q assms(5)
      by (auto simp: position_of_def less_aesd_seekto_def word_less_nat_alt split: if_splits)
  next
    case False
    then have "unat (write_cmd s) < unat (write_cmd t)"
      using assms(5) by (auto simp: less_aesd_seekto_def word_less_nat_alt)
    then have less: "sum_list (take (unat (write_cmd s)) (sizes b)) + unat (write_cmd_offset s)
        < sum_list (take (unat (write_cmd t)) (sizes b)) + unat (write_cmd_offset t)"
      using p q by (intro position_less) (simp_all only: position_of_def split: if_splits, simp_all)
    moreover have "p = sum_list (take (unat (write_cmd s)) (sizes b)) + unat (write_cmd_offset s)"
      "q = sum_list (take (unat (write_cmd t)) (sizes b)) + unat (write_cmd_offset t)"
      using p q by (simp_all only: position_of_def split: if_splits, simp_all)
    ultimately show ?thesis by simp
  qed
qed

lemma seek_positions_monotone_witness: "(8 :: nat) < 13"
proof (rule seek_positions_monotone [OF demo_full_wf, of "Seekto 2 1" "Seekto 3 1"])
  show "Seekto 2 1 < Seekto 3 1" by (simp add: less_aesd_seekto_def)
qed (simp_all add: demo_full_sizes fpos_rank_position [OF demo_full_wf] position_of_def)

text \<open>The total size counts the stored entries and no others, as long as it is below
  \<open>2 ^ 64\<close>.\<close>

lemma size_counts_stored_entries:
  assumes "cb_wf b" and "\<forall>e \<in> set (live b). buffptr e \<noteq> NULL" and "sum_list (sizes b) < 2 ^ 64"
  shows "unat (aesd_circular_buffer_size b) = sum_list (sizes b)"
  using size_refines [OF assms(1,2)] assms(3) by (simp add: unat_of_nat_u64)

lemma size_counts_stored_entries_witness: "unat (aesd_circular_buffer_size demo_full) = 75"
  using size_counts_stored_entries [OF demo_full_wf]
  by (simp add: demo_full_sizes demo_full_live numbered_def)

text \<open>A position of \<open>2 ^ 63\<close> past the first entry or more is never reported as missing: its
  difference to the entry's size does not fit the signed result of the subtraction, and the
  first entry is returned with a byte number far outside it.\<close>

lemma huge_position_finds_first_entry:
  assumes "cb_wf b" and "live b \<noteq> []" and "2 ^ 63 + unat (esize (hd (live b))) \<le> unat off"
  shows "aesd_circular_buffer_find_entry_offset_for_fpos b off = Some (Some (out_offs b, off))"
proof -
  let ?e = "hd (live b)"
  have at: "entry_at b (out_offs b) = Some ?e"
    using entry_at_slot [OF assms(1), of 0] slot_0 [OF assms(1)] assms(2) by (simp add: hd_conv_nth)
  have ge: "esize ?e \<le> off" using assms(3) by (simp add: word_le_nat_alt)
  then have "2 ^ 63 \<le> unat (off - esize ?e)" using assms(3) by (simp add: unat_minus_ge)
  then have "sint (off - esize ?e) < 0" by (simp add: sint_large)
  then have "aesd_circular_buffer_iterate_find_entry_offset_for_fpos b (out_offs b) off
      = Some (Some (out_offs b), out_offs b, off)"
    using at ge by (simp add: aesd_circular_buffer_iterate_find_entry_offset_for_fpos_def
        aesd_circular_buffer_substract_entry_from_fpos_def)
  moreover have "0 < aesd_circular_buffer_entry_array_size b"
    using array_size_live [OF assms(1)] assms(2) by (simp add: word_less_nat_alt)
  ultimately show ?thesis
    by (simp add: aesd_circular_buffer_find_entry_offset_for_fpos_def find_loop_done)
qed

lemma huge_position_finds_first_entry_witness:
  "aesd_circular_buffer_find_entry_offset_for_fpos demo_full 0xFFFFFFFFFFFFFFFF
    = Some (Some (2, 0xFFFFFFFFFFFFFFFF))"
proof -
  have "out_offs demo_full = 2" by (simp add: demo_full_def)
  moreover have "live demo_full \<noteq> []" "unat (esize (hd (live demo_full))) = 3"
    by (simp_all add: demo_full_live numbered_def)
  ultimately show ?thesis
    using huge_position_finds_first_entry [OF demo_full_wf, of "0xFFFFFFFFFFFFFFFF"] by simp
qed

end
