(* ===== verification/Aesd_Cstring.thy ===== *)
theory Aesd_Cstring
  imports Aesd_Prelude
begin

text \<open>
  The functions of \<open>string.h\<close> that the driver and the server call, on byte arrays. An array
  argument is the list of the bytes from the pointer to the end of its object, so that running
  off its end (an array without the terminator that is searched for, a copy longer than the
  destination) is \<open>Inl Out_of_bounds\<close>. The lemmas evaluate them on arrays that start with a
  NUL-free text.
\<close>

section \<open>Definitions\<close>

fun c_strlen :: "byte list \<Rightarrow> stop + nat" where
  "c_strlen [] = Inl Out_of_bounds"
| "c_strlen (b # bs) = (if b = 0 then Inr 0 else andThen (c_strlen bs) (\<lambda>n. Inr (Suc n)))"

fun c_strchr :: "byte list \<Rightarrow> byte \<Rightarrow> stop + nat option" where
  "c_strchr [] c = Inl Out_of_bounds"
| "c_strchr (b # bs) c =
     (if b = c then Inr (Some 0)
      else if b = 0 then Inr None
      else andThen (c_strchr bs c) (\<lambda>r. Inr (map_option Suc r)))"

fun c_strncmp_eq :: "byte list \<Rightarrow> byte list \<Rightarrow> nat \<Rightarrow> stop + bool" where
  "c_strncmp_eq s t 0 = Inr True"
| "c_strncmp_eq (a # s) (b # t) (Suc n) =
     (if a \<noteq> b then Inr False else if a = 0 then Inr True else c_strncmp_eq s t n)"
| "c_strncmp_eq s t n = Inl Out_of_bounds"

text \<open>The \<open>n\<close> bytes that \<open>strncpy\<close> stores: up to the first NUL, then zeros.\<close>

fun strncpy_bytes :: "nat \<Rightarrow> byte list \<Rightarrow> stop + byte list" where
  "strncpy_bytes 0 src = Inr []"
| "strncpy_bytes (Suc n) [] = Inl Out_of_bounds"
| "strncpy_bytes (Suc n) (b # bs) =
     (if b = 0 then Inr (replicate (Suc n) 0)
      else andThen (strncpy_bytes n bs) (\<lambda>r. Inr (b # r)))"

text \<open>\<open>strncpy (dst + off, src, n)\<close> with the whole destination array in hand.\<close>

definition c_strncpy :: "byte list \<Rightarrow> nat \<Rightarrow> byte list \<Rightarrow> nat \<Rightarrow> stop + byte list" where
  "c_strncpy dst off src n =
     andThen (strncpy_bytes n src) (\<lambda>bytes.
       if off + n \<le> length dst then Inr (take off dst @ bytes @ drop (off + n) dst)
       else Inl Out_of_bounds)"

section \<open>Evaluation\<close>

lemma c_strlen_text [simp]: "0 \<notin> set s \<Longrightarrow> c_strlen (s @ 0 # rest) = Inr (length s)"
  by (induction s) auto

lemma c_strlen_found: "0 \<in> set bs \<Longrightarrow> \<exists>n. c_strlen bs = Inr n"
  by (induction bs) auto

lemma c_strlen_unterminated: "0 \<notin> set bs \<Longrightarrow> c_strlen bs = Inl Out_of_bounds"
  by (induction bs) auto

lemma c_strlen_defined_iff: "(\<exists>n. c_strlen bs = Inr n) \<longleftrightarrow> 0 \<in> set bs"
  using c_strlen_found [of bs] c_strlen_unterminated [of bs] by (cases "0 \<in> set bs") auto

lemma c_strchr_found:
  "c \<notin> set s \<Longrightarrow> 0 \<notin> set s \<Longrightarrow> c_strchr (s @ c # rest) c = Inr (Some (length s))"
  by (induction s) auto

lemma c_strchr_absent:
  "c \<notin> set s \<Longrightarrow> 0 \<notin> set s \<Longrightarrow> c \<noteq> 0 \<Longrightarrow> c_strchr (s @ 0 # rest) c = Inr None"
  by (induction s) auto

lemma c_strchr_none: "c \<notin> set bs \<Longrightarrow> 0 \<in> set bs \<Longrightarrow> c_strchr bs c = Inr None"
  by (induction bs) auto

lemma c_strchr_unterminated:
  "c \<notin> set bs \<Longrightarrow> 0 \<notin> set bs \<Longrightarrow> c_strchr bs c = Inl Out_of_bounds"
  by (induction bs) auto

lemma c_strncmp_eq_prefix:
  "0 \<notin> set t \<Longrightarrow> length t \<le> length s \<Longrightarrow>
    c_strncmp_eq s (t @ u) (length t) = Inr (take (length t) s = t)"
proof (induction t arbitrary: s)
  case Nil
  then show ?case by simp
next
  case (Cons b t)
  then show ?case by (cases s) auto
qed

lemma c_strncmp_eq_strings:
  "0 \<notin> set t \<Longrightarrow> 0 \<notin> set s \<Longrightarrow>
    c_strncmp_eq (s @ 0 # r) (t @ u) (length t) = Inr (take (length t) s = t)"
proof (induction t arbitrary: s)
  case Nil
  then show ?case by simp
next
  case (Cons b t)
  then show ?case by (cases s) auto
qed

lemma strncpy_bytes_eq:
  "n \<le> length src \<Longrightarrow> strncpy_bytes n src = Inr
     (let s = takeWhile (\<lambda>b. b \<noteq> 0) (take n src) in s @ replicate (n - length s) 0)"
proof (induction n src rule: strncpy_bytes.induct)
  case (1 src)
  then show ?case by simp
next
  case (2 n)
  then show ?case by simp
next
  case (3 n b bs)
  then show ?case by (auto simp: Let_def)
qed

lemma strncpy_bytes_text:
  "n \<le> length src \<Longrightarrow> 0 \<notin> set (take n src) \<Longrightarrow> strncpy_bytes n src = Inr (take n src)"
proof -
  assume n: "n \<le> length src" and no_nul: "0 \<notin> set (take n src)"
  have all: "takeWhile (\<lambda>b. b \<noteq> 0) (take n src) = take n src"
    unfolding takeWhile_eq_all_conv using no_nul by blast
  show ?thesis using n unfolding strncpy_bytes_eq [OF n] all Let_def by simp
qed

lemma strncpy_bytes_length: "strncpy_bytes n src = Inr bytes \<Longrightarrow> length bytes = n"
  by (induction n src arbitrary: bytes rule: strncpy_bytes.induct) (auto split: if_splits)

lemma strncpy_bytes_has_nul:
  assumes "strncpy_bytes n src = Inr bytes" and "n \<le> length src"
  shows "0 \<in> set bytes \<longleftrightarrow> 0 \<in> set (take n src)"
  using assms
proof (induction n src arbitrary: bytes rule: strncpy_bytes.induct)
  case (1 src)
  then show ?case by simp
next
  case (2 n)
  then show ?case by simp
next
  case (3 n b bs)
  then show ?case by (cases "b = 0") auto
qed

lemma c_strncpy_fits:
  "n \<le> length src \<Longrightarrow> off + n \<le> length dst \<Longrightarrow>
    \<exists>bytes. strncpy_bytes n src = Inr bytes \<and> length bytes = n
      \<and> c_strncpy dst off src n = Inr (take off dst @ bytes @ drop (off + n) dst)"
  using strncpy_bytes_eq [of n src]
  by (auto simp: c_strncpy_def dest: strncpy_bytes_length)

lemma c_strncpy_overflow:
  "length dst < off + n \<Longrightarrow> c_strncpy dst off src n = Inl Out_of_bounds"
proof -
  have oob: "strncpy_bytes n src = Inl e \<Longrightarrow> e = Out_of_bounds" for e
    by (induction n src rule: strncpy_bytes.induct) (auto simp: andThen_eq_Inl split: if_splits)
  assume "length dst < off + n"
  then show ?thesis
    by (cases "strncpy_bytes n src") (auto simp: c_strncpy_def dest: oob)
qed

lemma c_strncpy_text:
  "n \<le> length src \<Longrightarrow> 0 \<notin> set (take n src) \<Longrightarrow> off + n \<le> length dst \<Longrightarrow>
    c_strncpy dst off src n = Inr (take off dst @ take n src @ drop (off + n) dst)"
  by (simp add: c_strncpy_def strncpy_bytes_text)

end
