(* ===== verification/Aesd_Memory.thy ===== *)
theory Aesd_Memory
  imports Aesd_Prelude
begin

text \<open>
  Blocks of allocated bytes, shared by the driver (\<open>krealloc\<close>, \<open>kfree\<close>) and the server
  (\<open>realloc\<close>, \<open>free\<close>): the heap, dereferencing, freeing, and the documented behaviour of a
  reallocation function.
\<close>

type_synonym kheap = "ptr \<Rightarrow> byte list option"

definition deref :: "kheap \<Rightarrow> ptr \<Rightarrow> stop + byte list" where
  "deref h p = (if p = NULL then Inl Null_deref else or_stop Dangling (h p))"

definition c_free :: "kheap \<Rightarrow> ptr \<Rightarrow> stop + kheap" where
  "c_free h p = (if p = NULL then Inr h else if h p = None then Inl Bad_free else Inr (h(p := None)))"

definition c_store :: "kheap \<Rightarrow> ptr \<Rightarrow> nat \<Rightarrow> byte \<Rightarrow> stop + kheap" where
  "c_store h p i b = andThen (deref h p) (\<lambda>block.
     if i < length block then Inr (h(p \<mapsto> block[i := b])) else Inl Out_of_bounds)"

definition c_realloc ::
  "(kheap \<Rightarrow> ptr \<Rightarrow> u64 \<Rightarrow> ptr \<times> kheap) \<Rightarrow> kheap \<Rightarrow> ptr \<Rightarrow> u64 \<Rightarrow> stop + (ptr \<times> kheap)" where
  "c_realloc f h p n = (if p \<noteq> NULL \<and> h p = None then Inl Bad_free else Inr (f h p n))"

lemma deref_held [simp]: "p \<noteq> NULL \<Longrightarrow> h p = Some block \<Longrightarrow> deref h p = Inr block"
  by (simp add: deref_def)

lemma c_free_held [simp]: "p \<noteq> NULL \<Longrightarrow> h p = Some block \<Longrightarrow> c_free h p = Inr (h(p := None))"
  by (simp add: c_free_def)

lemma c_free_NULL [simp]: "c_free h NULL = Inr h"
  by (simp add: c_free_def)

lemma c_store_held:
  "p \<noteq> NULL \<Longrightarrow> h p = Some block \<Longrightarrow> i < length block \<Longrightarrow> c_store h p i b = Inr (h(p \<mapsto> block[i := b]))"
  by (simp add: c_store_def)

text \<open>A reallocation fails and changes nothing, or returns the same block or an unused one of at
  least the requested size that starts with the old bytes; the old block is gone.\<close>

definition realloc_ok :: "nat \<Rightarrow> (kheap \<Rightarrow> ptr \<Rightarrow> u64 \<Rightarrow> ptr \<times> kheap) \<Rightarrow> bool" where
  "realloc_ok limit f \<longleftrightarrow> (\<forall>h p n. h NULL = None \<longrightarrow> p = NULL \<or> h p \<noteq> None \<longrightarrow> n \<noteq> 0 \<longrightarrow>
     (let (q, h') = f h p n
      in if q = NULL then h' = h
         else (q = p \<or> h q = None)
           \<and> (\<exists>block. h' = (h(p := None))(q \<mapsto> block)
               \<and> unat n \<le> length block \<and> length block \<le> limit
               \<and> (\<forall>old. h p = Some old \<longrightarrow>
                     (let m = min (length old) (unat n) in take m block = take m old)))))"

lemma realloc_fails:
  assumes "realloc_ok limit f" and "h NULL = None" and "p = NULL \<or> h p \<noteq> None" and "n \<noteq> 0"
    and "f h p n = (NULL, h')"
  shows "h' = h"
  using assms(1)[unfolded realloc_ok_def, rule_format, of h p n] assms(2-5) by simp

lemma realloc_returns:
  assumes "realloc_ok limit f" and "h NULL = None" and "p = NULL \<or> h p \<noteq> None" and "n \<noteq> 0"
    and "f h p n = (q, h')" and "q \<noteq> NULL"
  obtains block where "q = p \<or> h q = None" and "h' = (h(p := None))(q \<mapsto> block)"
    and "unat n \<le> length block" and "length block \<le> limit"
    and "\<And>old m. h p = Some old \<Longrightarrow> m \<le> length old \<Longrightarrow> m \<le> unat n \<Longrightarrow> take m block = take m old"
proof -
  have "(q = p \<or> h q = None)
      \<and> (\<exists>block. h' = (h(p := None))(q \<mapsto> block)
          \<and> unat n \<le> length block \<and> length block \<le> limit
          \<and> (\<forall>old. h p = Some old \<longrightarrow>
                (let m = min (length old) (unat n) in take m block = take m old)))"
    using assms(1)[unfolded realloc_ok_def, rule_format, of h p n] assms(2-6) by simp
  then obtain block where q: "q = p \<or> h q = None"
    and block: "h' = (h(p := None))(q \<mapsto> block)" "unat n \<le> length block"
      "length block \<le> limit"
    and pre: "\<And>old. h p = Some old \<Longrightarrow>
        take (min (length old) (unat n)) block = take (min (length old) (unat n)) old"
    by (auto simp: Let_def)
  have "take m block = take m old"
    if "h p = Some old" and "m \<le> length old" and "m \<le> unat n" for old m
  proof -
    have "min m (min (length old) (unat n)) = m" using that(2,3) by simp
    with arg_cong [OF pre [OF that(1)], of "take m"] show ?thesis by (simp only: take_take)
  qed
  with q block that show thesis by blast
qed

text \<open>A request for at most \<open>limit\<close> bytes succeeds while at most \<open>blocks\<close> blocks are held.\<close>

definition allocates :: "nat \<Rightarrow> nat \<Rightarrow> (kheap \<Rightarrow> ptr \<Rightarrow> u64 \<Rightarrow> ptr \<times> kheap) \<Rightarrow> bool" where
  "allocates blocks limit f \<longleftrightarrow> (\<forall>h p n. card (dom h) \<le> blocks \<longrightarrow> unat n \<le> limit \<longrightarrow>
     fst (f h p n) \<noteq> NULL)"

text \<open>A reallocation that takes the first free of nineteen addresses and fails above its limit.\<close>

definition first_free :: "kheap \<Rightarrow> ptr \<Rightarrow> ptr" where
  "first_free h p =
     (if p \<noteq> NULL then p
      else case List.find (\<lambda>q. h q = None) (map of_nat [1..<20]) of None \<Rightarrow> NULL | Some q \<Rightarrow> q)"

definition simple_realloc :: "nat \<Rightarrow> kheap \<Rightarrow> ptr \<Rightarrow> u64 \<Rightarrow> ptr \<times> kheap" where
  "simple_realloc limit h p n =
     (let q = first_free h p; old = (case h p of None \<Rightarrow> [] | Some block \<Rightarrow> block)
      in if q = NULL \<or> limit < unat n then (NULL, h)
         else (q, (h(p := None))(q \<mapsto> take (unat n) old @ replicate (unat n - length old) 0)))"

lemma first_free_cases: "first_free h p = NULL \<or> first_free h p = p \<or> h (first_free h p) = None"
  by (auto simp: first_free_def find_Some_iff split: option.splits)

lemma simple_realloc_ok: "realloc_ok limit (simple_realloc limit)"
  unfolding realloc_ok_def
proof (intro allI impI)
  fix h :: kheap and p :: ptr and n :: u64
  assume "p = NULL \<or> h p \<noteq> None"
  let ?old = "case h p of None \<Rightarrow> [] | Some block \<Rightarrow> block"
  let ?block = "take (unat n) ?old @ replicate (unat n - length ?old) 0"
  have "unat n \<le> length ?block" "length ?block = unat n" by simp_all
  moreover have "take (min (length old) (unat n)) ?block = take (min (length old) (unat n)) old"
    if "h p = Some old" for old
    using that by simp
  ultimately show "let (q, h') = simple_realloc limit h p n
      in if q = NULL then h' = h
         else (q = p \<or> h q = None)
           \<and> (\<exists>block. h' = (h(p := None))(q \<mapsto> block)
               \<and> unat n \<le> length block \<and> length block \<le> limit
               \<and> (\<forall>old. h p = Some old \<longrightarrow>
                     (let m = min (length old) (unat n) in take m block = take m old)))"
    using first_free_cases [of h p]
    by (auto simp: simple_realloc_def Let_def intro!: exI [of _ ?block])
qed

lemma unused_address:
  assumes "card (dom h) \<le> 18"
  obtains q :: ptr where "List.find (\<lambda>q. h q = None) (map of_nat [1..<20]) = Some q"
    and "q \<noteq> NULL" and "h q = None"
proof -
  let ?qs = "map of_nat [1..<20] :: ptr list"
  have qs: "?qs = [1, 2, 3, 4, 5, 6, 7, 8, 9, 10, 11, 12, 13, 14, 15, 16, 17, 18, 19]"
    by (simp add: upt_rec)
  have "card (set ?qs) = 19" unfolding qs by simp
  moreover have "finite (dom h)" by (rule finite)
  ultimately have "\<not> set ?qs \<subseteq> dom h" using assms card_mono [of "dom h" "set ?qs"] by auto
  then obtain q where q: "List.find (\<lambda>q. h q = None) ?qs = Some q"
    by (cases "List.find (\<lambda>q. h q = None) ?qs") (auto simp: find_None_iff)
  then have "q \<in> set ?qs" "h q = None" unfolding find_Some_iff using nth_mem by blast+
  then have "q \<noteq> NULL" unfolding qs by auto
  show thesis by (rule that [OF q \<open>q \<noteq> NULL\<close> \<open>h q = None\<close>])
qed

lemma simple_realloc_allocates: "allocates 18 limit (simple_realloc limit)"
  unfolding allocates_def
proof (intro allI impI)
  fix h :: kheap and p :: ptr and n :: u64
  assume few: "card (dom h) \<le> 18" and n: "unat n \<le> limit"
  obtain q where "List.find (\<lambda>q. h q = None) (map of_nat [1..<20]) = Some q" "q \<noteq> NULL"
    using few by (rule unused_address)
  then have "first_free h p \<noteq> NULL" by (simp add: first_free_def)
  then show "fst (simple_realloc limit h p n) \<noteq> NULL"
    using n by (simp add: simple_realloc_def Let_def)
qed

end
