(* ===== verification/Aesd_Char_Driver.thy ===== *)
theory Aesd_Char_Driver
  imports Aesd_Circular_Buffer Aesd_Cstring Aesd_Ioctl Aesd_Memory
begin

text \<open>
  The character device of \<open>aesd-char-driver/main.c\<close>: its file operations, its ioctl, its
  module initialisation and cleanup, as functions on the device structure and the kernel heap
  blocks the driver holds.

  The kernel functions the driver calls are the fields of the record \<open>kernel\<close>, a parameter of
  every operation; \<open>kernel_ok\<close> states what their documentation promises and is a hypothesis
  of the theorems. A call of \<open>mutex_lock_interruptible\<close> that a signal interrupts is the
  argument \<open>intr\<close>. The debug messages are compiled in (\<open>AESD_DEBUG\<close>): the copies they make
  into the 100-byte array \<open>msg_buffer\<close> and the \<open>%s\<close> conversions that read it are modelled.
\<close>

section \<open>Kernel interface\<close>

record kernel =
  k_krealloc :: "kheap \<Rightarrow> ptr \<Rightarrow> u64 \<Rightarrow> ptr \<times> kheap"
  k_kfree :: "kheap \<Rightarrow> ptr \<Rightarrow> kheap"
  k_copy_from_user :: "byte list \<Rightarrow> byte list \<Rightarrow> u64 \<Rightarrow> u64 \<times> byte list"
  k_copy_to_user :: "byte list \<Rightarrow> u64 \<Rightarrow> u64"
  k_fixed_size_llseek :: "u64 \<Rightarrow> u64 \<Rightarrow> u32 \<Rightarrow> u64 \<Rightarrow> u64 \<times> u64"
  k_iowr :: "u8 \<Rightarrow> u8 \<Rightarrow> nat \<Rightarrow> u32"
  k_alloc_chrdev_region :: "u32 \<Rightarrow> u32 \<Rightarrow> int \<times> u32"
  k_cdev_add :: "u32 \<Rightarrow> int"
  k_major :: "u32 \<Rightarrow> u32"
  k_mkdev :: "u32 \<Rightarrow> u32 \<Rightarrow> u32"

text \<open>The error numbers of \<open>linux/errno.h\<close> and \<open>SEEK_SET\<close>.\<close>

definition EFAULT :: u64 where "EFAULT = 14"
definition ENOMEM :: u64 where "ENOMEM = 12"
definition EINVAL :: u64 where "EINVAL = 22"
definition ENOTTY :: u64 where "ENOTTY = 25"
definition ERESTARTSYS :: u64 where "ERESTARTSYS = 512"
definition SEEK_SET :: u32 where "SEEK_SET = 0"

lemmas errno_defs = EFAULT_def ENOMEM_def EINVAL_def ENOTTY_def ERESTARTSYS_def

definition TERMINATOR_CHARACTER :: byte where "TERMINATOR_CHARACTER = 10"
definition MSG_MAX_LEN :: nat where "MSG_MAX_LEN = 100"

section \<open>Device state\<close>

record aesd_dev =
  lock :: bool
  unterminated_buffptr :: ptr
  unterminated_size :: u64
  buffer :: aesd_circular_buffer
  cdev_ops :: bool

record world =
  dev :: aesd_dev
  heap :: kheap

definition kfree :: "kernel \<Rightarrow> kheap \<Rightarrow> ptr \<Rightarrow> stop + kheap" where
  "kfree K h p =
     (if p = NULL then Inr h else if h p = None then Inl Bad_free else Inr (k_kfree K h p))"

text \<open>\<open>strncpy (msg_buffer, src, n)\<close> into the zeroed array, then \<open>PDEBUG ("... %s", msg_buffer)\<close>.\<close>

definition pdebug_copy :: "byte list \<Rightarrow> nat \<Rightarrow> stop + unit" where
  "pdebug_copy src n =
     andThen (c_strncpy (replicate MSG_MAX_LEN 0) 0 src n) (\<lambda>msg_buffer.
     andThen (c_strlen msg_buffer) (\<lambda>_. Inr ()))"

section \<open>Finding the terminator\<close>

function find_char_loop :: "byte list \<Rightarrow> nat \<Rightarrow> byte \<Rightarrow> nat \<Rightarrow> stop + nat" where
  "find_char_loop buf count character i =
     (if i < count
      then if i < length buf
           then if buf ! i \<noteq> character then find_char_loop buf count character (Suc i) else Inr i
           else Inl Out_of_bounds
      else Inr i)"
  by pat_completeness auto
termination
  by (relation "measure (\<lambda>(buf, count, character, i). count - i)") auto

declare find_char_loop.simps [simp del]

definition aesd_find_char :: "byte list \<Rightarrow> u64 \<Rightarrow> byte \<Rightarrow> stop + u64" where
  "aesd_find_char buf count character =
     andThen (find_char_loop buf (unat count) character 0) (\<lambda>i.
       Inr (if i < unat count then of_nat i else - 1))"

section \<open>Open and release\<close>

record inode = i_cdev :: nat
record filp = private_data :: "nat option"

text \<open>\<open>container_of\<close> turns the embedded \<open>cdev\<close> into the device that contains it; the
  argument \<open>container_of\<close> stands for that address computation.\<close>

definition aesd_open :: "(nat \<Rightarrow> nat) \<Rightarrow> inode \<Rightarrow> filp \<Rightarrow> int \<times> filp" where
  "aesd_open container_of inode f =
     (0, f\<lparr>private_data := Some (container_of (i_cdev inode))\<rparr>)"

definition aesd_release :: "inode \<Rightarrow> filp \<Rightarrow> int \<times> filp" where
  "aesd_release inode f = (0, f)"

section \<open>Reading\<close>

text \<open>The entry to read from and the byte in it: the entry found in the buffer, or the
  temporary entry that describes the unterminated command.\<close>

definition read_target :: "world \<Rightarrow> u64 \<Rightarrow> stop + (aesd_buffer_entry \<times> u64) option" where
  "read_target w f_pos =
     andThen (or_stop Out_of_bounds
       (aesd_circular_buffer_find_entry_offset_for_fpos (buffer (dev w)) f_pos)) (\<lambda>r.
     case r of
       Some (i, byte) \<Rightarrow>
         andThen (or_stop Out_of_bounds (entry_at (buffer (dev w)) i)) (\<lambda>e. Inr (Some (e, byte)))
     | None \<Rightarrow>
         let remaining = f_pos - aesd_circular_buffer_size (buffer (dev w))
         in if remaining < unterminated_size (dev w)
            then Inr (Some (\<lparr>buffptr = unterminated_buffptr (dev w),
                             esize = unterminated_size (dev w)\<rparr>, remaining))
            else Inr None)"

text \<open>Result: the returned \<open>ssize_t\<close>, the new \<open>*f_pos\<close>, the bytes that reached the user
  buffer and the device afterwards. A signed minimum never arises: both counts are
  \<open>size_t\<close>.\<close>

definition aesd_read ::
  "kernel \<Rightarrow> bool \<Rightarrow> u64 \<Rightarrow> u64 \<Rightarrow> world \<Rightarrow> stop + (u64 \<times> u64 \<times> byte list \<times> world)" where
  "aesd_read K intr count f_pos w =
     (if intr then Inr (- ERESTARTSYS, f_pos, [], w)
      else let locked = w\<lparr>dev := (dev w)\<lparr>lock := True\<rparr>\<rparr>;
               unlock = (\<lambda>v. v\<lparr>dev := (dev v)\<lparr>lock := False\<rparr>\<rparr>)
      in andThen (read_target locked f_pos) (\<lambda>target.
         case target of
           None \<Rightarrow> Inr (0, f_pos, [], unlock locked)
         | Some (current_entry, current_entry_byte) \<Rightarrow>
             let left = esize current_entry - current_entry_byte;
                 final_count = (if count < left then count else left)
             in andThen (deref (heap locked) (buffptr current_entry)) (\<lambda>block.
                let src = drop (unat current_entry_byte) block
                in andThen (pdebug_copy src (unat final_count)) (\<lambda>_.
                   if length src < unat final_count then Inl Out_of_bounds
                   else let error = k_copy_to_user K src final_count;
                            delivered = take (unat (final_count - error)) src
                        in if error \<noteq> 0 then Inr (- EFAULT, f_pos, delivered, unlock locked)
                           else Inr (final_count, f_pos + final_count, delivered,
                                     unlock locked)))))"

section \<open>Writing\<close>

text \<open>The part of \<open>aesd_write\<close> between taking the lock and the label \<open>done\<close>: the values of
  \<open>retval\<close>, \<open>error\<close> and \<open>*f_pos\<close> there, and the device.\<close>

definition write_body ::
  "kernel \<Rightarrow> byte list \<Rightarrow> u64 \<Rightarrow> u64 \<Rightarrow> world \<Rightarrow> stop + (u64 \<times> u64 \<times> u64 \<times> world)" where
  "write_body K buf count f_pos w =
     (if count = 0 then Inr (- ENOMEM, 0, f_pos, w)
      else
        let used = unterminated_size (dev w);
            (p, h1) = k_krealloc K (heap w) (unterminated_buffptr (dev w)) (used + count);
            w1 = w\<lparr>dev := (dev w)\<lparr>unterminated_buffptr := p\<rparr>, heap := h1\<rparr>
        in if p = NULL then Inr (- ENOMEM, 0, f_pos, w1)
           else andThen (deref h1 p) (\<lambda>block.
             if length block < unat used + unat count then Inl Out_of_bounds
             else
               let (error, buffptr') = k_copy_from_user K (drop (unat used) block) buf count;
                   w2 = w1\<lparr>heap := h1(p \<mapsto> take (unat used) block @ buffptr')\<rparr>
               in if error \<noteq> 0 then Inr (- ENOMEM, error, f_pos, w2)
                  else andThen (pdebug_copy buffptr' (unat count)) (\<lambda>_.
                       andThen (aesd_find_char buffptr' count TERMINATOR_CHARACTER)
                       (\<lambda>terminator_position.
                         if sint terminator_position < 0
                         then Inr (count, 0, f_pos + count,
                                w2\<lparr>dev := (dev w2)\<lparr>unterminated_size := used + count\<rparr>\<rparr>)
                         else
                           let final_count = terminator_position + 1;
                               new_entry = \<lparr>buffptr = p, esize = used + final_count\<rparr>
                           in andThen (or_stop Out_of_bounds
                                (aesd_circular_buffer_add_entry (buffer (dev w2)) new_entry))
                              (\<lambda>(oldptr, b').
                                andThen (kfree K (heap w2) oldptr) (\<lambda>h3.
                                  Inr (final_count, 0, f_pos + final_count,
                                    w2\<lparr>dev := (dev w2)\<lparr>unterminated_buffptr := NULL,
                                         unterminated_size := 0, buffer := b'\<rparr>,
                                       heap := h3\<rparr>)))))))"

definition aesd_write ::
  "kernel \<Rightarrow> bool \<Rightarrow> byte list \<Rightarrow> u64 \<Rightarrow> u64 \<Rightarrow> world \<Rightarrow> stop + (u64 \<times> u64 \<times> world)" where
  "aesd_write K intr buf count f_pos w =
     (if intr then Inr (- ERESTARTSYS, f_pos, w)
      else
        andThen (write_body K buf count f_pos (w\<lparr>dev := (dev w)\<lparr>lock := True\<rparr>\<rparr>))
        (\<lambda>(retval, error, f_pos', w1).
          andThen
            (if sint retval < 0
                \<and> unterminated_buffptr (dev w1) \<noteq> NULL \<and> unterminated_size (dev w1) = 0
             then andThen (kfree K (heap w1) (unterminated_buffptr (dev w1))) (\<lambda>h.
                    Inr (w1\<lparr>dev := (dev w1)\<lparr>unterminated_buffptr := NULL\<rparr>, heap := h\<rparr>))
             else Inr w1)
            (\<lambda>w2.
              Inr (if sint retval < 0 \<and> error \<noteq> 0 then - EFAULT else retval, f_pos',
                   w2\<lparr>dev := (dev w2)\<lparr>lock := False\<rparr>\<rparr>))))"

section \<open>Seeking\<close>

text \<open>The returned \<open>loff_t\<close> and the file position afterwards.\<close>

definition aesd_llseek ::
  "kernel \<Rightarrow> bool \<Rightarrow> u64 \<Rightarrow> u32 \<Rightarrow> u64 \<Rightarrow> world \<Rightarrow> u64 \<times> u64" where
  "aesd_llseek K intr offset whence filp_pos w =
     (if intr then (- ERESTARTSYS, filp_pos)
      else k_fixed_size_llseek K filp_pos offset whence
             (aesd_circular_buffer_size (buffer (dev w))))"

text \<open>The 32-bit command number is passed to a parameter of type \<open>uint8_t\<close>.\<close>

definition aesd_iocseekto ::
  "kernel \<Rightarrow> bool \<Rightarrow> u32 \<Rightarrow> u32 \<Rightarrow> u64 \<Rightarrow> world \<Rightarrow> stop + (u64 \<times> u64)" where
  "aesd_iocseekto K intr cmd cmd_offset filp_pos w =
     (if intr then Inr (- ERESTARTSYS, filp_pos)
      else andThen (or_stop Out_of_bounds
             (aesd_circular_buffer_find_fpos_for_entry_offset (buffer (dev w))
               (ucast cmd) (ucast cmd_offset)))
           (\<lambda>f_pos.
             if sint f_pos \<ge> 0
             then Inr (k_fixed_size_llseek K filp_pos f_pos SEEK_SET
                         (aesd_circular_buffer_size (buffer (dev w))))
             else Inr (- EINVAL, filp_pos)))"

text \<open>\<open>arg\<close> is what \<open>get_user\<close> finds at the user address: the eight bytes, or a fault.\<close>

definition aesd_ioctl ::
  "kernel \<Rightarrow> bool \<Rightarrow> u32 \<Rightarrow> u64 option \<Rightarrow> u64 \<Rightarrow> world \<Rightarrow> stop + (u64 \<times> u64)" where
  "aesd_ioctl K intr cmd arg filp_pos w =
     (if cmd = AESDCHAR_IOCSEEKTO (k_iowr K)
      then case arg of
             Some local_64_arg \<Rightarrow>
               aesd_iocseekto K intr (write_cmd (u64_as_seekto local_64_arg))
                 (write_cmd_offset (u64_as_seekto local_64_arg)) filp_pos w
           | None \<Rightarrow> Inr (- EFAULT, filp_pos)
      else Inr (- ENOTTY, filp_pos))"

section \<open>Module initialisation and cleanup\<close>

record module =
  chrdev_region :: "u32 option"
  cdev_added :: bool
  aesd_major :: u32
  aesd_device :: world

definition aesd_minor :: u32 where "aesd_minor = 0"

text \<open>\<open>memset\<close> of the device structure, \<open>mutex_init\<close> and \<open>aesd_circular_buffer_init\<close>.\<close>

definition fresh_dev :: aesd_dev where
  "fresh_dev = \<lparr>lock = False, unterminated_buffptr = NULL, unterminated_size = 0,
     buffer = aesd_circular_buffer_init, cdev_ops = False\<rparr>"

definition aesd_setup_cdev :: "kernel \<Rightarrow> module \<Rightarrow> int \<times> module" where
  "aesd_setup_cdev K m =
     (let devno = k_mkdev K (aesd_major m) aesd_minor;
          d = aesd_device m;
          m1 = m\<lparr>aesd_device := d\<lparr>dev := (dev d)\<lparr>cdev_ops := True\<rparr>\<rparr>\<rparr>;
          err = k_cdev_add K devno
      in (err, if err < 0 then m1 else m1\<lparr>cdev_added := True\<rparr>))"

definition aesd_init_module :: "kernel \<Rightarrow> module \<Rightarrow> int \<times> module" where
  "aesd_init_module K m =
     (let (result, devno) = k_alloc_chrdev_region K aesd_minor 1;
          m0 = (if result < 0 then m else m\<lparr>chrdev_region := Some devno\<rparr>);
          (ok, result', m') =
            (if result < 0 then (- 1, result, m0)
             else let m1 = m0\<lparr>aesd_major := k_major K devno,
                              aesd_device := (aesd_device m0)\<lparr>dev := fresh_dev\<rparr>\<rparr>;
                      (r, m2) = aesd_setup_cdev K m1
                  in if r < 0 then (- 1, r, m2) else (r, r, m2))
      in if ok < 0
         then (if result' < 0 then result' else ok,
               if devno \<noteq> 0 then m'\<lparr>chrdev_region := None\<rparr> else m')
         else (ok, m'))"

fun free_entries :: "kernel \<Rightarrow> kheap \<Rightarrow> aesd_buffer_entry list \<Rightarrow> stop + kheap" where
  "free_entries K h [] = Inr h"
| "free_entries K h (entryptr # rest) =
     andThen (if buffptr entryptr \<noteq> NULL then kfree K h (buffptr entryptr) else Inr h)
       (\<lambda>h'. free_entries K h' rest)"

definition aesd_cleanup_module :: "kernel \<Rightarrow> module \<Rightarrow> stop + module" where
  "aesd_cleanup_module K m =
     (let d = aesd_device m;
          devno = k_mkdev K (aesd_major m) aesd_minor;
          m1 = m\<lparr>cdev_added := False\<rparr>
      in andThen (if unterminated_buffptr (dev d) \<noteq> NULL
                  then kfree K (heap d) (unterminated_buffptr (dev d)) else Inr (heap d))
         (\<lambda>h. andThen (free_entries K h (entry (buffer (dev d))))
         (\<lambda>h'. Inr (m1\<lparr>aesd_device := d\<lparr>heap := h'\<rparr>,
                       chrdev_region := (if chrdev_region m1 = Some devno then None
                                         else chrdev_region m1)\<rparr>))))"

end
