(* ===== verification/Aesd_Driver_Inv.thy ===== *)
theory Aesd_Driver_Inv
  imports Aesd_Char_Driver
begin

text \<open>
  What the kernel functions promise (\<open>kernel_ok\<close>), the invariant of the device (\<open>dev_inv\<close>
  inside an operation, \<open>dev_wf\<close> between operations) and the abstraction of the device to the
  complete commands it stores, oldest first (\<open>stored_lines\<close>), and the unterminated one
  (\<open>pending\<close>).

  The invariant says in particular that the blocks of the heap are exactly the ones the device
  points to, each once: no leak, no sharing, no dangling pointer.
\<close>

section \<open>The kernel's promises\<close>

text \<open>No allocation is larger than the kernel's limit, which is far below \<open>2 ^ 32\<close> bytes.\<close>

definition kmalloc_limit :: nat where
  "kmalloc_limit = 2 ^ 32"

definition krealloc_ok :: "kernel \<Rightarrow> bool" where
  "krealloc_ok K \<longleftrightarrow> realloc_ok kmalloc_limit (k_krealloc K)"

definition kfree_ok :: "kernel \<Rightarrow> bool" where
  "kfree_ok K \<longleftrightarrow> (\<forall>h p. h p \<noteq> None \<longrightarrow> k_kfree K h p = h(p := None))"

definition copy_from_user_ok :: "kernel \<Rightarrow> bool" where
  "copy_from_user_ok K \<longleftrightarrow> (\<forall>dst src n. unat n \<le> length dst \<longrightarrow>
     (let (rest, dst') = k_copy_from_user K dst src n
      in length dst' = length dst
         \<and> (rest = 0 \<longrightarrow> unat n \<le> length src \<and> take (unat n) dst' = take (unat n) src)))"

definition copy_to_user_ok :: "kernel \<Rightarrow> bool" where
  "copy_to_user_ok K \<longleftrightarrow> (\<forall>src n. k_copy_to_user K src n \<le> n)"

definition llseek_ok :: "kernel \<Rightarrow> bool" where
  "llseek_ok K \<longleftrightarrow> (\<forall>pos off sz. sint sz \<ge> 0 \<longrightarrow>
     k_fixed_size_llseek K pos off SEEK_SET sz =
       (if 0 \<le> sint off \<and> sint off \<le> sint sz then (off, off) else (- EINVAL, pos)))"

definition chrdev_ok :: "kernel \<Rightarrow> bool" where
  "chrdev_ok K \<longleftrightarrow> (\<forall>minor n. fst (k_alloc_chrdev_region K minor n) \<le> 0
       \<and> (fst (k_alloc_chrdev_region K minor n) < 0 \<longleftrightarrow> snd (k_alloc_chrdev_region K minor n) = 0)
       \<and> (fst (k_alloc_chrdev_region K minor n) = 0 \<longrightarrow>
            k_mkdev K (k_major K (snd (k_alloc_chrdev_region K minor n))) minor
              = snd (k_alloc_chrdev_region K minor n)))
     \<and> (\<forall>devno. k_cdev_add K devno \<le> 0)"

definition kernel_ok :: "kernel \<Rightarrow> bool" where
  "kernel_ok K \<longleftrightarrow> krealloc_ok K \<and> kfree_ok K \<and> copy_from_user_ok K \<and> copy_to_user_ok K
     \<and> llseek_ok K \<and> chrdev_ok K"

lemma kernel_okD:
  assumes "kernel_ok K"
  shows "krealloc_ok K" and "kfree_ok K" and "copy_from_user_ok K" and "copy_to_user_ok K"
    and "llseek_ok K" and "chrdev_ok K"
  using assms by (simp_all add: kernel_ok_def)

lemma krealloc_contract: "krealloc_ok K \<Longrightarrow> realloc_ok kmalloc_limit (k_krealloc K)"
  by (simp add: krealloc_ok_def)

lemmas krealloc_fails = realloc_fails [OF krealloc_contract]
lemmas krealloc_returns = realloc_returns [OF krealloc_contract]

lemma copy_from_user_returns:
  assumes "copy_from_user_ok K" and "unat n \<le> length dst"
    and "k_copy_from_user K dst src n = (rest, dst')"
  shows "length dst' = length dst"
    and "rest = 0 \<Longrightarrow> unat n \<le> length src \<and> take (unat n) dst' = take (unat n) src"
  using assms(1)[unfolded copy_from_user_ok_def, rule_format, OF assms(2), of src] assms(3)
  by simp_all

lemma kfree_block: "kfree_ok K \<Longrightarrow> p \<noteq> NULL \<Longrightarrow> h p \<noteq> None \<Longrightarrow> kfree K h p = Inr (h(p := None))"
  by (simp add: kfree_def kfree_ok_def)

lemma kfree_null [simp]: "kfree K h NULL = Inr h"
  by (simp add: kfree_def)

section \<open>Invariant and abstraction\<close>

definition block_of :: "kheap \<Rightarrow> ptr \<Rightarrow> byte list" where
  "block_of h p = (case h p of None \<Rightarrow> [] | Some block \<Rightarrow> block)"

definition line_bytes :: "kheap \<Rightarrow> aesd_buffer_entry \<Rightarrow> byte list" where
  "line_bytes h e = take (unat (esize e)) (block_of h (buffptr e))"

definition is_line :: "byte list \<Rightarrow> bool" where
  "is_line bs \<longleftrightarrow> bs \<noteq> [] \<and> last bs = TERMINATOR_CHARACTER \<and> TERMINATOR_CHARACTER \<notin> set (butlast bs)"

definition entry_ok :: "kheap \<Rightarrow> aesd_buffer_entry \<Rightarrow> bool" where
  "entry_ok h e \<longleftrightarrow> buffptr e \<noteq> NULL \<and> unat (esize e) \<le> length (block_of h (buffptr e))
     \<and> unat (esize e) \<le> kmalloc_limit \<and> is_line (line_bytes h e)"

definition pending_ok :: "kheap \<Rightarrow> aesd_dev \<Rightarrow> bool" where
  "pending_ok h d \<longleftrightarrow>
     (if unterminated_buffptr d = NULL then unterminated_size d = 0
      else 0 < unat (unterminated_size d)
        \<and> unat (unterminated_size d) \<le> length (block_of h (unterminated_buffptr d))
        \<and> unat (unterminated_size d) \<le> kmalloc_limit
        \<and> TERMINATOR_CHARACTER
            \<notin> set (take (unat (unterminated_size d)) (block_of h (unterminated_buffptr d))))"

definition pending_ptrs :: "aesd_dev \<Rightarrow> ptr list" where
  "pending_ptrs d = (if unterminated_buffptr d = NULL then [] else [unterminated_buffptr d])"

definition entry_ptrs :: "aesd_dev \<Rightarrow> ptr list" where
  "entry_ptrs d = map buffptr (live (buffer d))"

definition dev_inv :: "world \<Rightarrow> bool" where
  "dev_inv w \<longleftrightarrow> cb_wf (buffer (dev w)) \<and> heap w NULL = None
     \<and> dom (heap w) = set (entry_ptrs (dev w)) \<union> set (pending_ptrs (dev w))
     \<and> distinct (entry_ptrs (dev w) @ pending_ptrs (dev w))
     \<and> (\<forall>e \<in> set (live (buffer (dev w))). entry_ok (heap w) e)
     \<and> pending_ok (heap w) (dev w)"

definition dev_wf :: "world \<Rightarrow> bool" where
  "dev_wf w \<longleftrightarrow> dev_inv w \<and> \<not> lock (dev w)"

definition stored_lines :: "world \<Rightarrow> byte list list" where
  "stored_lines w = map (line_bytes (heap w)) (live (buffer (dev w)))"

definition pending :: "world \<Rightarrow> byte list" where
  "pending w = take (unat (unterminated_size (dev w)))
     (block_of (heap w) (unterminated_buffptr (dev w)))"

definition contents :: "world \<Rightarrow> byte list" where
  "contents w = concat (stored_lines w) @ pending w"

text \<open>What one write does to the commands: everything up to the first terminator is taken, and
  a terminated command joins the ten most recent ones.\<close>

definition spec_write ::
  "byte list list \<Rightarrow> byte list \<Rightarrow> byte list \<Rightarrow> byte list list \<times> byte list \<times> nat" where
  "spec_write ls pend data =
     (if TERMINATOR_CHARACTER \<in> set data
      then let cmd = takeWhile (\<lambda>b. b \<noteq> TERMINATOR_CHARACTER) data @ [TERMINATOR_CHARACTER]
           in (push_bounded 10 ls (pend @ cmd), [], length cmd)
      else (ls, pend @ data, length data))"

lemma dev_inv_lock [simp]: "dev_inv (w\<lparr>dev := (dev w)\<lparr>lock := b\<rparr>\<rparr>) = dev_inv w"
  by (simp add: dev_inv_def entry_ptrs_def pending_ptrs_def pending_ok_def)

lemma stored_lines_lock [simp]: "stored_lines (w\<lparr>dev := (dev w)\<lparr>lock := b\<rparr>\<rparr>) = stored_lines w"
  by (simp add: stored_lines_def)

lemma pending_lock [simp]: "pending (w\<lparr>dev := (dev w)\<lparr>lock := b\<rparr>\<rparr>) = pending w"
  by (simp add: pending_def)

lemma dev_invD:
  assumes "dev_inv w"
  shows "cb_wf (buffer (dev w))" and "heap w NULL = None"
    and "dom (heap w) = set (entry_ptrs (dev w)) \<union> set (pending_ptrs (dev w))"
    and "distinct (entry_ptrs (dev w))"
    and "set (entry_ptrs (dev w)) \<inter> set (pending_ptrs (dev w)) = {}"
    and "\<And>e. e \<in> set (live (buffer (dev w))) \<Longrightarrow> entry_ok (heap w) e"
    and "pending_ok (heap w) (dev w)"
  using assms by (simp_all add: dev_inv_def)

lemma entry_held: "dev_inv w \<Longrightarrow> q \<in> set (entry_ptrs (dev w)) \<Longrightarrow> heap w q \<noteq> None"
  using dev_invD(3) [of w] by (metis UnI1 domIff)

lemma entry_okD:
  assumes "entry_ok h e"
  shows "buffptr e \<noteq> NULL" and "unat (esize e) \<le> length (block_of h (buffptr e))"
    and "unat (esize e) \<le> kmalloc_limit" and "is_line (line_bytes h e)"
  using assms by (simp_all add: entry_ok_def)

lemma block_of_upd: "block_of (h(p \<mapsto> b)) q = (if q = p then b else block_of h q)"
  by (simp add: block_of_def)

lemma block_of_del: "block_of (h(p := None)) q = (if q = p then [] else block_of h q)"
  by (simp add: block_of_def)

lemma block_of_None: "h p = None \<Longrightarrow> block_of h p = []"
  by (simp add: block_of_def)

lemma line_bytes_cong: "h (buffptr e) = h' (buffptr e) \<Longrightarrow> line_bytes h e = line_bytes h' e"
  by (simp add: line_bytes_def block_of_def)

lemma entry_ok_cong: "h (buffptr e) = h' (buffptr e) \<Longrightarrow> entry_ok h e = entry_ok h' e"
  using line_bytes_cong [of h e h'] by (simp only: entry_ok_def block_of_def)

lemma length_line_bytes: "entry_ok h e \<Longrightarrow> length (line_bytes h e) = unat (esize e)"
  by (simp add: line_bytes_def entry_ok_def)

lemma sizes_lines: "dev_inv w \<Longrightarrow> sizes (buffer (dev w)) = map length (stored_lines w)"
  using dev_invD(6) [of w] by (auto simp: sizes_def stored_lines_def length_line_bytes)

lemma length_pending: "dev_inv w \<Longrightarrow> length (pending w) = unat (unterminated_size (dev w))"
  using dev_invD(7) [of w] by (auto simp: pending_def pending_ok_def split: if_splits)

lemma no_pending: "dev_inv w \<Longrightarrow> unterminated_buffptr (dev w) = NULL \<longleftrightarrow> pending w = []"
  using dev_invD(7) [of w] length_pending [of w]
  by (cases "unterminated_buffptr (dev w) = NULL") (auto simp: pending_ok_def)

lemma sizes_total:
  assumes "dev_inv w"
  shows "sum_list (sizes (buffer (dev w))) \<le> 10 * kmalloc_limit"
proof -
  let ?b = "buffer (dev w)"
  have "\<And>x. x \<in> set (sizes ?b) \<Longrightarrow> x \<le> kmalloc_limit"
    using dev_invD(6) [OF assms] by (auto simp: sizes_def entry_ok_def)
  then have "sum_list (sizes ?b) \<le> length (sizes ?b) * kmalloc_limit"
    by (rule sum_list_bounded)
  also have "\<dots> \<le> 10 * kmalloc_limit"
    using live_le_10 [OF dev_invD(1) [OF assms]] by simp
  finally show ?thesis .
qed

lemma sizes_total_small: "dev_inv w \<Longrightarrow> sum_list (sizes (buffer (dev w))) < 2 ^ 36"
  using sizes_total [of w] by (simp add: kmalloc_limit_def)

lemma buffer_size_word:
  assumes "dev_inv w"
  shows "aesd_circular_buffer_size (buffer (dev w)) = of_nat (sum_list (sizes (buffer (dev w))))"
  using dev_invD(6) [OF assms] by (intro size_refines dev_invD(1) [OF assms]) (simp add: entry_ok_def)

lemma unat_buffer_size:
  "dev_inv w \<Longrightarrow> unat (aesd_circular_buffer_size (buffer (dev w))) = sum_list (sizes (buffer (dev w)))"
  using sizes_total_small [of w] by (simp add: buffer_size_word unat_of_nat_u64)

section \<open>The initial device\<close>

lemma fresh_dev_wf: "dev_wf \<lparr>dev = fresh_dev, heap = Map.empty\<rparr>"
  by (simp add: dev_wf_def dev_inv_def fresh_dev_def init_wf live_init entry_ptrs_def
      pending_ptrs_def pending_ok_def)

end
