(* ===== verification/Aesd_Driver_Write.thy ===== *)
theory Aesd_Driver_Write
  imports Aesd_Driver_Inv
begin

text \<open>
  The write operation of the driver on the abstraction: which part of the user's bytes it
  takes, that it keeps the invariant, and what each of its failures leaves behind.
\<close>

section \<open>The debug copy and the terminator search\<close>

lemma pdebug_copy_cases:
  assumes "n \<le> length src"
  shows "pdebug_copy src n =
    (if n < 100 \<or> n = 100 \<and> 0 \<in> set (take n src) then Inr () else Inl Out_of_bounds)"
proof (cases "n \<le> 100")
  case False
  then show ?thesis by (simp add: pdebug_copy_def MSG_MAX_LEN_def c_strncpy_overflow)
next
  case True
  let ?dst = "replicate 100 0 :: byte list"
  obtain bytes where bytes: "strncpy_bytes n src = Inr bytes" "length bytes = n"
    "c_strncpy ?dst 0 src n = Inr (take 0 ?dst @ bytes @ drop (0 + n) ?dst)"
    using c_strncpy_fits [OF assms, of 0 ?dst] True by auto
  have nul: "0 \<in> set (bytes @ drop n ?dst) \<longleftrightarrow> n < 100 \<or> 0 \<in> set (take n src)"
    using strncpy_bytes_has_nul [OF bytes(1) assms] True by auto
  show ?thesis
  proof (cases "n < 100 \<or> 0 \<in> set (take n src)")
    case defined: True
    then obtain m where "c_strlen (bytes @ drop n ?dst) = Inr m"
      using nul c_strlen_found [of "bytes @ drop n ?dst"] by blast
    with bytes defined True show ?thesis by (auto simp: pdebug_copy_def MSG_MAX_LEN_def)
  next
    case undefined: False
    then have "c_strlen (bytes @ drop n ?dst) = Inl Out_of_bounds"
      using nul by (intro c_strlen_unterminated) simp
    with bytes undefined True show ?thesis by (auto simp: pdebug_copy_def MSG_MAX_LEN_def)
  qed
qed

lemma find_char_loop_eq:
  assumes "count \<le> length buf" and "i \<le> count"
  shows "find_char_loop buf count c i
    = Inr (i + length (takeWhile (\<lambda>b. b \<noteq> c) (drop i (take count buf))))"
  using assms
proof (induction buf count c i rule: find_char_loop.induct)
  case (1 buf count c i)
  show ?case
  proof (cases "i < count")
    case False
    with "1.prems" show ?thesis by (subst find_char_loop.simps) simp
  next
    case True
    then have "drop i (take count buf) = buf ! i # drop (Suc i) (take count buf)"
      using "1.prems" by (subst Cons_nth_drop_Suc [symmetric]) simp_all
    with True 1 show ?thesis by (subst find_char_loop.simps) simp
  qed
qed

lemma length_takeWhile_le_iff:
  "length (takeWhile P xs) < length xs \<longleftrightarrow> (\<exists>x \<in> set xs. \<not> P x)"
  by (induction xs) auto

lemma find_char_eq:
  assumes "unat count \<le> length buf"
  shows "aesd_find_char buf count c = Inr
    (if c \<in> set (take (unat count) buf)
     then of_nat (length (takeWhile (\<lambda>b. b \<noteq> c) (take (unat count) buf))) else - 1)"
proof -
  have "length (take (unat count) buf) = unat count" using assms by simp
  with length_takeWhile_le_iff [of "\<lambda>b. b \<noteq> c" "take (unat count) buf"]
  have "length (takeWhile (\<lambda>b. b \<noteq> c) (take (unat count) buf)) < unat count
      \<longleftrightarrow> c \<in> set (take (unat count) buf)"
    by auto
  then show ?thesis using assms by (simp add: aesd_find_char_def find_char_loop_eq)
qed

section \<open>What the allocation leaves\<close>

definition fresh_for :: "world \<Rightarrow> ptr \<Rightarrow> bool" where
  "fresh_for w p \<longleftrightarrow> p \<noteq> NULL \<and> p \<notin> set (entry_ptrs (dev w))"

definition grown_heap :: "world \<Rightarrow> ptr \<Rightarrow> byte list \<Rightarrow> kheap" where
  "grown_heap w p block = (heap w)(unterminated_buffptr (dev w) := None, p \<mapsto> block)"

lemma write_setup:
  assumes "krealloc_ok K" and "dev_inv w" and "count \<noteq> 0" and "unat count < 2 ^ 63"
    and "k_krealloc K (heap w) (unterminated_buffptr (dev w))
          (unterminated_size (dev w) + count) = (p, h1)" and "p \<noteq> NULL"
  obtains block where "h1 = grown_heap w p block" and "fresh_for w p"
    and "unat (unterminated_size (dev w)) + unat count \<le> length block"
    and "length block \<le> kmalloc_limit"
    and "take (unat (unterminated_size (dev w))) block = pending w"
proof -
  let ?used = "unterminated_size (dev w)" and ?old = "unterminated_buffptr (dev w)"
  note inv = dev_invD [OF assms(2)]
  have used: "unat ?used \<le> kmalloc_limit"
    using inv(7) by (auto simp: pending_ok_def split: if_splits)
  then have sum: "unat (?used + count) = unat ?used + unat count"
    using assms(4) by (intro unat_add_lem [THEN iffD1]) (simp add: kmalloc_limit_def)
  moreover have pos: "0 < unat count" using assms(3) by (simp add: unat_gt_0)
  ultimately have nz: "?used + count \<noteq> 0" by (metis add_gr_0 less_numeral_extra(3) unat_0)
  have held: "?old = NULL \<or> heap w ?old \<noteq> None"
    using inv(3) by (auto simp: pending_ptrs_def dom_def)
  obtain block where q: "p = ?old \<or> heap w p = None"
    and h1: "h1 = (heap w)(?old := None, p \<mapsto> block)"
    and len: "unat (?used + count) \<le> length block" "length block \<le> kmalloc_limit"
    and pre: "\<And>old m. heap w ?old = Some old \<Longrightarrow> m \<le> length old \<Longrightarrow> m \<le> unat (?used + count) \<Longrightarrow>
        take m block = take m old"
    using krealloc_returns [OF assms(1) inv(2) held nz assms(5,6)] by metis
  have "p \<notin> set (entry_ptrs (dev w))"
    using q
  proof
    assume "p = ?old"
    then show ?thesis using inv(5) assms(6) by (auto simp: pending_ptrs_def)
  next
    assume "heap w p = None"
    then show ?thesis using entry_held [OF assms(2)] by blast
  qed
  moreover have "take (unat ?used) block = pending w"
  proof (cases "?old = NULL")
    case True
    then show ?thesis using inv(7) by (simp add: pending_def pending_ok_def)
  next
    case False
    then obtain old where old: "heap w ?old = Some old" using held by auto
    with False inv(7) have "unat ?used \<le> length old"
      by (simp add: pending_ok_def block_of_def)
    from pre [OF old this] show ?thesis by (simp add: sum pending_def block_of_def old)
  qed
  ultimately show thesis
    using that [of block] h1 len sum assms(6) by (simp add: grown_heap_def fresh_for_def)
qed

text \<open>The heap after the copy from user space: the device's other blocks are untouched.\<close>

lemma grown_heap_entry:
  assumes "dev_inv w" and "fresh_for w p" and "e \<in> set (live (buffer (dev w)))"
  shows "grown_heap w p block (buffptr e) = heap w (buffptr e)"
proof -
  have mem: "buffptr e \<in> set (entry_ptrs (dev w))" using assms(3) by (simp add: entry_ptrs_def)
  then have "buffptr e \<noteq> p" using assms(2) by (auto simp: fresh_for_def)
  moreover have "buffptr e \<noteq> unterminated_buffptr (dev w)"
    using mem dev_invD(5,6) [OF assms(1)] entry_okD(1) assms(3)
    by (auto simp: pending_ptrs_def split: if_splits)
  ultimately show ?thesis by (simp add: grown_heap_def)
qed

lemma dom_grown_heap:
  assumes "dev_inv w" and "fresh_for w p"
  shows "dom (grown_heap w p block) = insert p (set (entry_ptrs (dev w)))"
proof -
  have "dom (heap w) - {unterminated_buffptr (dev w)} = set (entry_ptrs (dev w))"
    using dev_invD(2,3,5) [OF assms(1)] by (auto simp: pending_ptrs_def split: if_splits)
  moreover have "dom (grown_heap w p block)
      = insert p (dom (heap w) - {unterminated_buffptr (dev w)})"
    by (auto simp: grown_heap_def split: if_splits)
  ultimately show ?thesis by (simp only:)
qed

lemma keep_pending:
  assumes inv: "dev_inv w" and fresh: "fresh_for w p"
    and sz: "0 < unat sz" "unat sz \<le> length block" "unat sz \<le> kmalloc_limit"
    and data: "TERMINATOR_CHARACTER \<notin> set (take (unat sz) block)"
  defines "w' \<equiv> w\<lparr>dev := (dev w)\<lparr>unterminated_buffptr := p, unterminated_size := sz\<rparr>,
                 heap := grown_heap w p block\<rparr>"
  shows "dev_inv w' \<and> stored_lines w' = stored_lines w \<and> pending w' = take (unat sz) block"
proof -
  note same = grown_heap_entry [OF inv fresh]
  have "heap w' NULL = None"
    using dev_invD(2) [OF inv] fresh by (simp add: w'_def grown_heap_def fresh_for_def)
  moreover have "block_of (heap w') p = block"
    by (simp add: w'_def grown_heap_def block_of_def)
  moreover have "\<forall>e \<in> set (live (buffer (dev w'))). entry_ok (heap w') e"
    using dev_invD(6) [OF inv] same by (auto simp: w'_def cong: entry_ok_cong)
  moreover have "stored_lines w' = stored_lines w"
    using same by (auto simp: w'_def stored_lines_def intro: line_bytes_cong)
  ultimately show ?thesis
    using inv fresh sz data dom_grown_heap [OF inv fresh, of block]
    by (auto simp: w'_def dev_inv_def entry_ptrs_def pending_ptrs_def fresh_for_def
        pending_ok_def pending_def)
qed


section \<open>Storing a terminated command\<close>

lemma commit_entries:
  assumes wf: "cb_wf b'" and view: "live b' = es @ [\<lparr>buffptr = p, esize = sz\<rparr>]"
    and old: "\<forall>e \<in> set es. entry_ok (heap w) e" "distinct (map buffptr es)"
    and same: "\<forall>e \<in> set es. h (buffptr e) = heap w (buffptr e)"
    and new: "h p = Some block" "p \<noteq> NULL" "p \<notin> buffptr ` set es"
    and dom: "dom h = insert p (buffptr ` set es)"
    and line: "is_line (take (unat sz) block)" "unat sz \<le> length block" "unat sz \<le> kmalloc_limit"
  defines "w' \<equiv> w\<lparr>dev := (dev w)\<lparr>unterminated_buffptr := NULL, unterminated_size := 0,
                                buffer := b'\<rparr>, heap := h\<rparr>"
  shows "dev_inv w' \<and> stored_lines w' = map (line_bytes (heap w)) es @ [take (unat sz) block]
    \<and> pending w' = []"
proof -
  have lines: "line_bytes h e = line_bytes (heap w) e" and ok: "entry_ok h e" if "e \<in> set es" for e
    using that same old(1) line_bytes_cong [of h e "heap w"] entry_ok_cong [of h e "heap w"]
    by simp_all
  have blk: "block_of h p = block" by (simp add: block_of_def new(1))
  have "NULL \<notin> dom h" unfolding dom using new(2) old(1) entry_okD(1) by force
  then have "h NULL = None" by (simp add: domIff)
  moreover have "entry_ok h \<lparr>buffptr = p, esize = sz\<rparr>"
    using blk new(2) line by (simp add: entry_ok_def line_bytes_def)
  moreover have "stored_lines w' = map (line_bytes (heap w)) es @ [take (unat sz) block]"
    using lines view blk by (simp add: stored_lines_def w'_def line_bytes_def)
  ultimately show ?thesis
    using wf view old(2) new(3) dom ok
    by (auto simp: dev_inv_def w'_def entry_ptrs_def pending_ptrs_def pending_ok_def pending_def)
qed

lemma commit_line:
  assumes inv: "dev_inv w" and fresh: "fresh_for w p" and K: "kfree_ok K"
    and line: "is_line (take (unat sz) block)" "unat sz \<le> length block" "unat sz \<le> kmalloc_limit"
    and add: "aesd_circular_buffer_add_entry (buffer (dev w)) \<lparr>buffptr = p, esize = sz\<rparr> = Some (old, b')"
  obtains h where "kfree K (grown_heap w p block) old = Inr h"
    and "dev_inv (w\<lparr>dev := (dev w)\<lparr>unterminated_buffptr := NULL, unterminated_size := 0,
                   buffer := b'\<rparr>, heap := h\<rparr>)"
    and "stored_lines (w\<lparr>dev := (dev w)\<lparr>unterminated_buffptr := NULL, unterminated_size := 0,
           buffer := b'\<rparr>, heap := h\<rparr>) = push_bounded 10 (stored_lines w) (take (unat sz) block)"
    and "pending (w\<lparr>dev := (dev w)\<lparr>unterminated_buffptr := NULL, unterminated_size := 0,
           buffer := b'\<rparr>, heap := h\<rparr>) = []"
proof -
  let ?b = "buffer (dev w)" and ?g = "grown_heap w p block"
  let ?e = "\<lparr>buffptr = p, esize = sz\<rparr>"
  let ?es = "if length (live ?b) < 10 then live ?b else tl (live ?b)"
  let ?h = "if length (live ?b) < 10 then ?g else ?g(buffptr (hd (live ?b)) := None)"
  note wf = dev_invD(1) [OF inv] and same = grown_heap_entry [OF inv fresh]
  have wf': "cb_wf b'" by (rule cbuf.add_keeps [OF wf add])
  have view: "live b' = ?es @ [?e]"
    using cbuf.add_view [OF wf add] by (simp add: push_bounded_def)
  have old: "old = evicted_ptr (live ?b)" using add_entry_refines [OF wf, of ?e] add by auto
  have sub: "set ?es \<subseteq> set (live ?b)" by (cases "live ?b") auto
  have dist: "distinct (map buffptr (live ?b))" using dev_invD(4) [OF inv] by (simp add: entry_ptrs_def)
  have notin: "p \<notin> buffptr ` set (live ?b)" using fresh by (simp add: fresh_for_def entry_ptrs_def)
  have freed: "kfree K ?g old = Inr ?h \<and> dom ?h = insert p (buffptr ` set ?es)
      \<and> (\<forall>e \<in> set ?es. ?h (buffptr e) = heap w (buffptr e)) \<and> ?h p = Some block"
  proof (cases "length (live ?b) < 10")
    case True
    then show ?thesis
      using old same dom_grown_heap [OF inv fresh, of block]
      by (simp add: evicted_ptr_def entry_ptrs_def) (simp add: grown_heap_def)
  next
    case False
    then obtain e0 rest where l: "live ?b = e0 # rest" by (cases "live ?b") auto
    have e0: "buffptr e0 \<noteq> NULL" "?g (buffptr e0) \<noteq> None"
      using dev_invD(6) [OF inv, of e0] same [of e0] entry_held [OF inv, of "buffptr e0"] l
      by (simp_all add: entry_okD(1) entry_ptrs_def)
    have apart: "buffptr e0 \<notin> buffptr ` set rest" "p \<noteq> buffptr e0" using dist notin l by auto
    have other: "\<forall>e \<in> set rest. buffptr e \<noteq> buffptr e0" using apart(1) by (metis imageI)
    have "dom (?g(buffptr e0 := None)) = insert p (buffptr ` set rest)"
      using dom_grown_heap [OF inv fresh, of block] l apart
      by (simp add: entry_ptrs_def insert_Diff_if)
    moreover have "\<forall>e \<in> set rest. (?g(buffptr e0 := None)) (buffptr e) = heap w (buffptr e)"
      using same other l by simp
    moreover have "(?g(buffptr e0 := None)) p = Some block"
      using notin l by (simp add: grown_heap_def)
    ultimately show ?thesis
      using False l old e0 kfree_block [OF K, of "buffptr e0" ?g] by (simp add: evicted_ptr_def)
  qed
  have ok: "\<forall>e \<in> set ?es. entry_ok (heap w) e" using sub dev_invD(6) [OF inv] by blast
  have dist': "distinct (map buffptr ?es)" using dist by (simp add: map_tl distinct_tl)
  have notin': "p \<notin> buffptr ` set ?es" using notin sub by blast
  have lines: "map (line_bytes (heap w)) ?es @ [x] = push_bounded 10 (stored_lines w) x" for x
    by (simp add: push_bounded_def stored_lines_def map_tl)
  note commit = commit_entries [OF wf' view ok dist' _ _ _ notin' _ line, of ?h]
  show thesis
    using that [of ?h] freed commit fresh lines by (simp only: fresh_for_def) simp
qed


section \<open>The write operation\<close>

text \<open>The body after a successful allocation, with the names of the setup.\<close>

lemma write_body_allocated:
  assumes "count \<noteq> 0" and "p \<noteq> NULL"
    and "k_krealloc K (heap w) (unterminated_buffptr (dev w))
          (unterminated_size (dev w) + count) = (p, grown_heap w p block)"
    and "unat (unterminated_size (dev w)) + unat count \<le> length block"
    and "k_copy_from_user K (drop (unat (unterminated_size (dev w))) block) buf count = (rest, dst)"
  defines "blk \<equiv> take (unat (unterminated_size (dev w))) block @ dst"
  defines "w2 \<equiv> w\<lparr>dev := (dev w)\<lparr>unterminated_buffptr := p\<rparr>, heap := grown_heap w p blk\<rparr>"
  shows "write_body K buf count f w =
    (if rest \<noteq> 0 then Inr (- ENOMEM, rest, f, w2)
     else andThen (pdebug_copy dst (unat count)) (\<lambda>_.
          andThen (aesd_find_char dst count TERMINATOR_CHARACTER) (\<lambda>t.
            if sint t < 0
            then Inr (count, 0, f + count,
                   w2\<lparr>dev := (dev w2)\<lparr>unterminated_size := unterminated_size (dev w) + count\<rparr>\<rparr>)
            else andThen (or_stop Out_of_bounds
                   (aesd_circular_buffer_add_entry (buffer (dev w2))
                     \<lparr>buffptr = p, esize = unterminated_size (dev w) + (t + 1)\<rparr>))
                 (\<lambda>(old, b'). andThen (kfree K (heap w2) old) (\<lambda>h3.
                   Inr (t + 1, 0, f + (t + 1),
                     w2\<lparr>dev := (dev w2)\<lparr>unterminated_buffptr := NULL, unterminated_size := 0,
                          buffer := b'\<rparr>, heap := h3\<rparr>))))))"
proof -
  have "deref (grown_heap w p block) p = Inr block"
    using assms(2) by (simp add: deref_def grown_heap_def)
  moreover have "(grown_heap w p block)(p \<mapsto> blk) = grown_heap w p blk"
    by (simp add: grown_heap_def)
  ultimately show ?thesis
    using assms(1-5) unfolding w2_def blk_def
    by (simp add: write_body_def Let_def cong: if_cong)
qed

lemma spec_write_terminated:
  assumes "TERMINATOR_CHARACTER \<in> set data"
  defines "n \<equiv> length (takeWhile (\<lambda>b. b \<noteq> TERMINATOR_CHARACTER) data)"
  shows "n < length data" and "data ! n = TERMINATOR_CHARACTER"
    and "TERMINATOR_CHARACTER \<notin> set (take n data)"
    and "spec_write ls pend data = (push_bounded 10 ls (pend @ take (Suc n) data), [], Suc n)"
proof -
  let ?P = "\<lambda>b. b \<noteq> TERMINATOR_CHARACTER"
  show n: "n < length data" using assms(1) length_takeWhile_le_iff [of ?P data] by (auto simp: n_def)
  show at: "data ! n = TERMINATOR_CHARACTER"
    using nth_length_takeWhile [of ?P data] n by (simp add: n_def)
  have tw: "take n data = takeWhile ?P data" by (simp add: n_def takeWhile_eq_take [symmetric])
  show "TERMINATOR_CHARACTER \<notin> set (take n data)" unfolding tw by (auto dest: set_takeWhileD)
  have "take (Suc n) data = takeWhile ?P data @ [TERMINATOR_CHARACTER]"
    using n at by (simp add: take_Suc_conv_app_nth tw)
  then show "spec_write ls pend data = (push_bounded 10 ls (pend @ take (Suc n) data), [], Suc n)"
    using assms(1) by (simp add: spec_write_def n_def)
qed

lemma is_line_snoc:
  "TERMINATOR_CHARACTER \<notin> set pre \<Longrightarrow> is_line (pre @ [TERMINATOR_CHARACTER])"
  by (simp add: is_line_def)


definition write_done :: "world \<Rightarrow> byte list \<Rightarrow> u64 \<Rightarrow> u64 \<Rightarrow> u64 \<Rightarrow> world \<Rightarrow> bool" where
  "write_done w data f ret f' w' \<longleftrightarrow> (\<exists>n. 0 < n \<and> n \<le> length data \<and> n < 2 ^ 63
     \<and> ret = of_nat n \<and> f' = f + of_nat n
     \<and> spec_write (stored_lines w) (pending w) data = (stored_lines w', pending w', n))"

lemma write_body_stores:
  assumes K: "kfree_ok K" and inv: "dev_inv w" and fresh: "fresh_for w p"
    and blk: "take (unat (unterminated_size (dev w))) blk = pending w"
      "drop (unat (unterminated_size (dev w))) blk = dst" "length blk \<le> kmalloc_limit"
      "unat (unterminated_size (dev w)) + unat count \<le> length blk"
    and data: "take (unat count) dst = data" "length data = unat count" "0 < unat count"
    and body: "andThen (aesd_find_char dst count TERMINATOR_CHARACTER) (\<lambda>t.
        if sint t < 0
        then Inr (count, 0, f + count, w\<lparr>dev := (dev w)\<lparr>unterminated_buffptr := p,
               unterminated_size := unterminated_size (dev w) + count\<rparr>, heap := grown_heap w p blk\<rparr>)
        else andThen (or_stop Out_of_bounds (aesd_circular_buffer_add_entry (buffer (dev w))
               \<lparr>buffptr = p, esize = unterminated_size (dev w) + (t + 1)\<rparr>))
             (\<lambda>(old, b'). andThen (kfree K (grown_heap w p blk) old) (\<lambda>h3.
               Inr (t + 1, 0, f + (t + 1), w\<lparr>dev := (dev w)\<lparr>unterminated_buffptr := NULL,
                 unterminated_size := 0, buffer := b'\<rparr>, heap := h3\<rparr>))))
      = Inr (ret, err, f', w')"
  shows "err = 0 \<and> dev_inv w' \<and> write_done w data f ret f' w' \<and> lock (dev w') = lock (dev w)"
proof -
  let ?used = "unterminated_size (dev w)"
  have small: "unat count < 2 ^ 63" using blk(3,4) by (simp add: kmalloc_limit_def)
  have dst_len: "unat count \<le> length dst" using data(1,2) by auto
  have len_pend: "length (pending w) = unat ?used" by (rule length_pending [OF inv])
  have split: "blk = pending w @ dst" using append_take_drop_id [of "unat ?used" blk] blk(1,2) by simp
  have unat_plus: "unat (?used + of_nat m) = unat ?used + m" if "m \<le> unat count" for m
  proof -
    have "unat (of_nat m :: u64) = m" using that small by (intro unat_of_nat_u64) simp
    moreover have "unat ?used + m < 2 ^ 64" using that blk(3,4) by (simp add: kmalloc_limit_def)
    ultimately show ?thesis by (subst unat_add_lem [THEN iffD1]) simp_all
  qed
  have take_blk: "take (unat (?used + of_nat m)) blk = pending w @ take m data"
    if "m \<le> unat count" for m
    using that by (simp add: unat_plus split len_pend data(1) [symmetric] min_def)
  have fits: "unat (?used + of_nat m) \<le> length blk" if "m \<le> unat count" for m
    using that blk(4) by (simp add: unat_plus)
  note no_term = dev_invD(7) [OF inv, unfolded pending_ok_def]
  have pend_ok: "TERMINATOR_CHARACTER \<notin> set (pending w)"
    using no_term by (cases "unterminated_buffptr (dev w) = NULL") (auto simp: pending_def)
  show ?thesis
  proof (cases "TERMINATOR_CHARACTER \<in> set data")
    case False
    have "w' = w\<lparr>dev := (dev w)\<lparr>unterminated_buffptr := p, unterminated_size := ?used + count\<rparr>,
                heap := grown_heap w p blk\<rparr>" and "ret = count" "err = 0" "f' = f + count"
      using body False data(1) dst_len by (auto simp: find_char_eq)
    moreover have "TERMINATOR_CHARACTER \<notin> set (take (unat (?used + count)) blk)"
      using take_blk [of "unat count"] False pend_ok data(2) by simp
    moreover have "take (unat (?used + count)) blk = pending w @ data"
      using take_blk [of "unat count"] data(2) by simp
    moreover have "unat (?used + count) \<le> length blk" "0 < unat (?used + count)"
      using fits [of "unat count"] unat_plus [of "unat count"] data(3) by simp_all
    moreover have "write_done w data f count (f + count) v"
      if "stored_lines v = stored_lines w" and "pending v = pending w @ data" for v
      using that False data(2,3) small
      by (auto simp: write_done_def spec_write_def intro!: exI [of _ "unat count"])
    ultimately show ?thesis
      using keep_pending [OF inv fresh, of "?used + count" blk] blk(3) by simp
  next
    case True
    let ?n = "length (takeWhile (\<lambda>b. b \<noteq> TERMINATOR_CHARACTER) data)"
    note spec = spec_write_terminated [OF True]
    have n: "Suc ?n \<le> unat count" using spec(1) data(2) by simp
    have line: "take (unat (?used + of_nat (Suc ?n))) blk
        = (pending w @ take ?n data) @ [TERMINATOR_CHARACTER]"
      using take_blk [OF n] spec(1,2) by (simp add: take_Suc_conv_app_nth)
    then have is_line: "is_line (take (unat (?used + of_nat (Suc ?n))) blk)"
      using spec(3) pend_ok by (simp only: line) (rule is_line_snoc, simp)
    have find: "aesd_find_char dst count TERMINATOR_CHARACTER = Inr (of_nat ?n)"
      using True data(1) dst_len by (simp add: find_char_eq)
    have pos: "\<not> sint (of_nat ?n :: u64) < 0"
      using n small by (simp add: sint_neg_iff unat_of_nat_u64)
    obtain old b' where add: "aesd_circular_buffer_add_entry (buffer (dev w))
        \<lparr>buffptr = p, esize = ?used + of_nat (Suc ?n)\<rparr> = Some (old, b')"
      using cbuf.add_total [OF dev_invD(1) [OF inv]] by blast
    have succ: "(of_nat ?n :: u64) + 1 = of_nat (Suc ?n)" by (simp add: add.commute)
    obtain h3 where free: "kfree K (grown_heap w p blk) old = Inr h3"
      and res: "ret = of_nat (Suc ?n)" "err = 0" "f' = f + of_nat (Suc ?n)"
        "w' = w\<lparr>dev := (dev w)\<lparr>unterminated_buffptr := NULL, unterminated_size := 0,
               buffer := b'\<rparr>, heap := h3\<rparr>"
      using body unfolding find andThen.simps succ if_not_P [OF pos] add or_stop_simps prod.case
      by (cases "kfree K (grown_heap w p blk) old") auto
    have "unat (?used + of_nat (Suc ?n)) \<le> kmalloc_limit" using fits [OF n] blk(3) by simp
    from commit_line [OF inv fresh K is_line fits [OF n] this add]
    have "dev_inv w' \<and> stored_lines w' = push_bounded 10 (stored_lines w)
           (take (unat (?used + of_nat (Suc ?n))) blk) \<and> pending w' = []"
      using free res(4) by auto
    then show ?thesis
      using res take_blk [OF n] spec(1,4) n small data(2)
      by (auto simp: write_done_def intro!: exI [of _ "Suc ?n"])
  qed
qed


section \<open>Every outcome of a write\<close>

definition write_unallocated :: "kernel \<Rightarrow> u64 \<Rightarrow> world \<Rightarrow> bool" where
  "write_unallocated K count w \<longleftrightarrow>
     fst (k_krealloc K (heap w) (unterminated_buffptr (dev w))
            (unterminated_size (dev w) + count)) = NULL"

lemma dev_inv_held:
  "dev_inv w \<Longrightarrow> unterminated_buffptr (dev w) = NULL \<or> heap w (unterminated_buffptr (dev w)) \<noteq> None"
  using dev_invD(3) [of w] by (auto simp: pending_ptrs_def dom_def)

lemma used_small: "dev_inv w \<Longrightarrow> unat (unterminated_size (dev w)) \<le> kmalloc_limit"
  using dev_invD(7) [of w] by (auto simp: pending_ok_def split: if_splits)

lemma grow_nonzero:
  assumes "dev_inv w" and "count \<noteq> 0" and "unat count < 2 ^ 63"
  shows "unterminated_size (dev w) + count \<noteq> 0"
proof -
  have "unat (unterminated_size (dev w) + count) = unat (unterminated_size (dev w)) + unat count"
    using used_small [OF assms(1)] assms(3)
    by (intro unat_add_lem [THEN iffD1]) (simp add: kmalloc_limit_def)
  moreover have "0 < unat count" using assms(2) by (simp add: unat_gt_0)
  ultimately show ?thesis by (metis add_gr_0 less_numeral_extra(3) unat_0)
qed

lemma write_body_unallocated:
  assumes "krealloc_ok K" and "dev_inv w" and "count \<noteq> 0" and "unat count < 2 ^ 63"
    and "write_unallocated K count w"
  shows "write_body K buf count f w
    = Inr (- ENOMEM, 0, f, w\<lparr>dev := (dev w)\<lparr>unterminated_buffptr := NULL\<rparr>\<rparr>)"
proof -
  obtain h1 where h1: "k_krealloc K (heap w) (unterminated_buffptr (dev w))
      (unterminated_size (dev w) + count) = (NULL, h1)"
    using assms(5) by (metis prod.collapse write_unallocated_def)
  have "h1 = heap w"
    using krealloc_fails [OF assms(1) dev_invD(2) [OF assms(2)] dev_inv_held [OF assms(2)]
        grow_nonzero [OF assms(2-4)] h1] .
  then show ?thesis using assms(3) h1 by (simp add: write_body_def)
qed

lemma heap_dev_swap:
  "w\<lparr>heap := h, dev := d\<rparr> = w\<lparr>dev := d, heap := h\<rparr>"
  by simp

lemma write_body_outcome:
  assumes K: "kernel_ok K" and inv: "dev_inv w" and count: "count \<noteq> 0" "unat count < 2 ^ 63"
    and allocated: "\<not> write_unallocated K count w"
    and body: "write_body K buf count f w = Inr (ret, err, f', w')"
  shows "(err = 0 \<and> dev_inv w' \<and> unat count \<le> length buf
        \<and> write_done w (take (unat count) buf) f ret f' w' \<and> lock (dev w') = lock (dev w))
    \<or> (err \<noteq> 0 \<and> ret = - ENOMEM \<and> f' = f \<and> (\<exists>p blk. fresh_for w p
        \<and> take (unat (unterminated_size (dev w))) blk = pending w
        \<and> unat (unterminated_size (dev w)) \<le> length blk
        \<and> w' = w\<lparr>dev := (dev w)\<lparr>unterminated_buffptr := p\<rparr>, heap := grown_heap w p blk\<rparr>))"
proof -
  let ?used = "unterminated_size (dev w)"
  obtain p h1 where p: "k_krealloc K (heap w) (unterminated_buffptr (dev w)) (?used + count) = (p, h1)"
    by (cases "k_krealloc K (heap w) (unterminated_buffptr (dev w)) (?used + count)") blast
  have "p \<noteq> NULL" using allocated p by (simp add: write_unallocated_def)
  from write_setup [OF kernel_okD(1) [OF K] inv count p this]
  obtain block where h1: "h1 = grown_heap w p block" and fresh: "fresh_for w p"
    and len: "unat ?used + unat count \<le> length block" "length block \<le> kmalloc_limit"
    and pend: "take (unat ?used) block = pending w" .
  obtain rest dst where copy: "k_copy_from_user K (drop (unat ?used) block) buf count = (rest, dst)"
    by (cases "k_copy_from_user K (drop (unat ?used) block) buf count") blast
  have room: "unat count \<le> length (drop (unat ?used) block)" using len by simp
  note copied = copy_from_user_returns [OF kernel_okD(3) [OF K] room copy]
  let ?blk = "take (unat ?used) block @ dst"
  have used: "unat ?used \<le> length block" using len(1) by simp
  then have lens: "length (take (unat ?used) block) = unat ?used"
      "length dst = length block - unat ?used"
    using copied(1) by simp_all
  have blk: "take (unat ?used) ?blk = pending w" "drop (unat ?used) ?blk = dst"
      "length ?blk = length block"
    using lens used unfolding pend by simp_all
  note unfold = write_body_allocated [OF count(1) \<open>p \<noteq> NULL\<close> p[unfolded h1] len(1) copy, of f]
  show ?thesis
  proof (cases "rest = 0")
    case False
    with body unfold have "err \<noteq> 0 \<and> ret = - ENOMEM \<and> f' = f
        \<and> w' = w\<lparr>dev := (dev w)\<lparr>unterminated_buffptr := p\<rparr>, heap := grown_heap w p ?blk\<rparr>"
      by auto
    moreover have "unat ?used \<le> length ?blk" using blk(3) used by (simp only:)
    ultimately show ?thesis using fresh blk(1) by blast
  next
    case True
    note data = copied(2) [OF True]
    have pd: "pdebug_copy dst (unat count) = Inr ()"
      using body unfold True by (cases "pdebug_copy dst (unat count)") auto
    have sizes: "length ?blk \<le> kmalloc_limit" "unat ?used + unat count \<le> length ?blk"
      unfolding blk(3) by (rule len)+
    have bytes: "length (take (unat count) buf) = unat count" "0 < unat count"
      using data count(1) by (simp_all add: unat_gt_0)
    note step = unfold [unfolded True pd andThen.simps, simplified if_False simp_thms]
    have "err = 0 \<and> dev_inv w' \<and> write_done w (take (unat count) buf) f ret f' w'
        \<and> lock (dev w') = lock (dev w)"
      by (rule write_body_stores [OF kernel_okD(2) [OF K] inv fresh blk(1,2) sizes
            conjunct2 [OF data] bytes])
        (use body step in \<open>simp add: heap_dev_swap del: andThen_eq_Inr cong: if_cong\<close>)
    with data show ?thesis by blast
  qed
qed

section \<open>When a write is defined\<close>

lemma kfree_evicted:
  assumes inv: "dev_inv w" and fresh: "fresh_for w p"
    and add: "aesd_circular_buffer_add_entry (buffer (dev w)) e = Some (old, b')"
  shows "\<exists>h. kfree K (grown_heap w p block) old = Inr h"
proof (cases "length (live (buffer (dev w))) < 10")
  case True
  then show ?thesis
    using add_entry_refines [OF dev_invD(1) [OF inv], of e] add by (auto simp: evicted_ptr_def)
next
  case False
  let ?e0 = "hd (live (buffer (dev w)))"
  have mem: "?e0 \<in> set (live (buffer (dev w)))"
    using False by (cases "live (buffer (dev w))") auto
  then have "heap w (buffptr ?e0) \<noteq> None"
    using entry_held [OF inv] by (simp add: entry_ptrs_def)
  then have "grown_heap w p block (buffptr ?e0) \<noteq> None"
    using grown_heap_entry [OF inv fresh mem] by simp
  then show ?thesis
    using add_entry_refines [OF dev_invD(1) [OF inv], of e] add False
    by (auto simp: evicted_ptr_def kfree_def)
qed

text \<open>The kernel copies all of the user's bytes into any block with room for them, or never.\<close>

definition user_readable :: "kernel \<Rightarrow> byte list \<Rightarrow> u64 \<Rightarrow> bool" where
  "user_readable K buf count \<longleftrightarrow>
     (\<forall>dst. unat count \<le> length dst \<longrightarrow> fst (k_copy_from_user K dst buf count) = 0)"

definition user_faults :: "kernel \<Rightarrow> byte list \<Rightarrow> u64 \<Rightarrow> bool" where
  "user_faults K buf count \<longleftrightarrow>
     (\<forall>dst. unat count \<le> length dst \<longrightarrow> fst (k_copy_from_user K dst buf count) \<noteq> 0)"

text \<open>What a write that has its block does, by what is left to copy.\<close>

lemma write_body_copied:
  assumes K: "kernel_ok K" and inv: "dev_inv w" and count: "count \<noteq> 0" "unat count < 2 ^ 63"
    and allocated: "\<not> write_unallocated K count w"
  obtains d rest dst where "unat count \<le> length d" and "fst (k_copy_from_user K d buf count) = rest"
    and "rest \<noteq> 0 \<Longrightarrow> \<exists>v. write_body K buf count f w = Inr (- ENOMEM, rest, f, v)"
    and "rest = 0 \<Longrightarrow> take (unat count) dst = take (unat count) buf
       \<and> unat count \<le> length dst \<and> unat count \<le> length buf
       \<and> (case pdebug_copy dst (unat count) of
            Inl e \<Rightarrow> write_body K buf count f w = Inl e
          | Inr _ \<Rightarrow> (\<exists>ret f' v. write_body K buf count f w = Inr (ret, 0, f', v)))"
proof -
  let ?used = "unterminated_size (dev w)"
  obtain p h1 where p: "k_krealloc K (heap w) (unterminated_buffptr (dev w)) (?used + count) = (p, h1)"
    by (cases "k_krealloc K (heap w) (unterminated_buffptr (dev w)) (?used + count)") blast
  have "p \<noteq> NULL" using allocated p by (simp add: write_unallocated_def)
  from write_setup [OF kernel_okD(1) [OF K] inv count p this]
  obtain block where h1: "h1 = grown_heap w p block" and fresh: "fresh_for w p"
    and len: "unat ?used + unat count \<le> length block" "length block \<le> kmalloc_limit"
    and pend: "take (unat ?used) block = pending w" .
  let ?d = "drop (unat ?used) block"
  obtain rest dst where copy: "k_copy_from_user K ?d buf count = (rest, dst)"
    by (cases "k_copy_from_user K ?d buf count") blast
  have room: "unat count \<le> length ?d" using len by simp
  note copied = copy_from_user_returns [OF kernel_okD(3) [OF K] room copy]
  let ?blk = "take (unat ?used) block @ dst"
  note unfold = write_body_allocated [OF count(1) \<open>p \<noteq> NULL\<close> p[unfolded h1] len(1) copy, of f]
  have faulted: "\<exists>v. write_body K buf count f w = Inr (- ENOMEM, rest, f, v)" if "rest \<noteq> 0"
    using that unfold by (auto simp del: andThen_eq_Inr)
  have "take (unat count) dst = take (unat count) buf
       \<and> unat count \<le> length dst \<and> unat count \<le> length buf
       \<and> (case pdebug_copy dst (unat count) of
            Inl e \<Rightarrow> write_body K buf count f w = Inl e
          | Inr _ \<Rightarrow> (\<exists>ret f' v. write_body K buf count f w = Inr (ret, 0, f', v)))"
    if rest: "rest = 0"
  proof -
    have dst: "unat count \<le> length dst" using room copied(1) by simp
    obtain t where t: "aesd_find_char dst count TERMINATOR_CHARACTER = Inr t"
      using find_char_eq [OF dst] by blast
    obtain old b' where add: "aesd_circular_buffer_add_entry (buffer (dev w))
        \<lparr>buffptr = p, esize = ?used + (t + 1)\<rparr> = Some (old, b')"
      using cbuf.add_total [OF dev_invD(1) [OF inv]] by blast
    obtain h3 where "kfree K (grown_heap w p ?blk) old = Inr h3"
      using kfree_evicted [OF inv fresh add] by blast
    then have "case pdebug_copy dst (unat count) of
            Inl e \<Rightarrow> write_body K buf count f w = Inl e
          | Inr _ \<Rightarrow> (\<exists>ret f' v. write_body K buf count f w = Inr (ret, 0, f', v))"
      using unfold rest t add by (cases "pdebug_copy dst (unat count)") auto
    with dst copied(2) [OF rest] show ?thesis by blast
  qed
  with room faulted show thesis by (rule_tac that [of ?d rest dst]) (simp_all add: copy)
qed

lemma write_body_readable:
  assumes "kernel_ok K" and "dev_inv w" and "count \<noteq> 0" and "unat count < 2 ^ 63"
    and "\<not> write_unallocated K count w" and "user_readable K buf count"
  shows "\<exists>dst. take (unat count) dst = take (unat count) buf
       \<and> unat count \<le> length dst \<and> unat count \<le> length buf
       \<and> (case pdebug_copy dst (unat count) of
            Inl e \<Rightarrow> write_body K buf count f w = Inl e
          | Inr _ \<Rightarrow> (\<exists>ret f' v. write_body K buf count f w = Inr (ret, 0, f', v)))"
  by (rule write_body_copied [OF assms(1-5), of buf f]) (use assms(6) user_readable_def in blast)

lemma write_body_faults:
  assumes "kernel_ok K" and "dev_inv w" and "count \<noteq> 0" and "unat count < 2 ^ 63"
    and "\<not> write_unallocated K count w" and "user_faults K buf count"
  shows "\<exists>e v. e \<noteq> 0 \<and> write_body K buf count f w = Inr (- ENOMEM, e, f, v)"
  by (rule write_body_copied [OF assms(1-5), of buf f]) (use assms(6) user_faults_def in metis)

text \<open>With fewer than 100 bytes the write ends, whatever the user's memory does.\<close>

lemma write_body_ends:
  assumes "kernel_ok K" and "dev_inv w" and "count \<noteq> 0" and "unat count < 100"
    and "\<not> write_unallocated K count w"
  shows "\<exists>r e g v. write_body K buf count f w = Inr (r, e, g, v)"
proof -
  have small: "unat count < 2 ^ 63" using assms(4) by simp
  show ?thesis
  proof (rule write_body_copied [OF assms(1-3) small assms(5), of buf f])
    fix d rest dst
    assume left: "rest \<noteq> 0 \<Longrightarrow> \<exists>v. write_body K buf count f w = Inr (- ENOMEM, rest, f, v)"
      and copied: "rest = 0 \<Longrightarrow> take (unat count) dst = take (unat count) buf
       \<and> unat count \<le> length dst \<and> unat count \<le> length buf
       \<and> (case pdebug_copy dst (unat count) of
            Inl e \<Rightarrow> write_body K buf count f w = Inl e
          | Inr _ \<Rightarrow> (\<exists>ret f' v. write_body K buf count f w = Inr (ret, 0, f', v)))"
    show ?thesis
    proof (cases "rest = 0")
      case True
      note c = copied [OF this]
      then have "pdebug_copy dst (unat count) = Inr ()"
        using assms(4) pdebug_copy_cases [of "unat count" dst] by simp
      with c show ?thesis by (simp only: sum.case) blast
    qed (use left in blast)
  qed
qed

end
