(* ===== verification/Aesd_Driver_Read.thy ===== *)
theory Aesd_Driver_Read
  imports Aesd_Driver_Write
begin

text \<open>
  The read operation on the abstraction: the device is a sequence of segments, the stored
  commands followed by the unterminated one, and a read delivers bytes of the segment that
  holds the file position. The position is bounded by \<open>2 ^ 63\<close> as every \<open>loff_t\<close> that is not
  negative.
\<close>

section \<open>Positions in a list of segments\<close>

definition segments :: "world \<Rightarrow> byte list list" where
  "segments w = stored_lines w @ [pending w]"

lemma concat_segments: "concat (segments w) = contents w"
  by (simp add: segments_def contents_def)

lemma drop_concat_located:
  "locate (map length xs) p = Some (k, r) \<Longrightarrow>
     drop p (concat xs) = drop r (xs ! k) @ concat (drop (Suc k) xs)"
proof (induction xs arbitrary: p k)
  case Nil
  then show ?case by simp
next
  case (Cons x xs)
  then show ?case by (cases k) (auto split: if_splits)
qed

lemma locate_append:
  "locate (ss @ ts) p = (case locate ss p of Some kr \<Rightarrow> Some kr
     | None \<Rightarrow> map_option (\<lambda>(k, r). (k + length ss, r)) (locate ts (p - sum_list ss)))"
proof (induction ss p rule: locate.induct)
  case (2 s ss p)
  then show ?case
    by (auto simp: option.map_comp comp_def split: option.splits
        intro!: arg_cong2 [of _ _ _ _ map_option])
qed (simp add: option.map_ident case_prod_unfold)

section \<open>The entry a position belongs to\<close>

definition describes :: "kheap \<Rightarrow> aesd_buffer_entry \<Rightarrow> byte list \<Rightarrow> bool" where
  "describes h e seg \<longleftrightarrow> buffptr e \<noteq> NULL \<and> (\<exists>block. h (buffptr e) = Some block
     \<and> unat (esize e) \<le> length block \<and> take (unat (esize e)) block = seg)
     \<and> unat (esize e) \<le> kmalloc_limit"

lemma describes_length: "describes h e seg \<Longrightarrow> length seg = unat (esize e)"
  by (auto simp: describes_def)

lemma describes_entry:
  assumes "dev_inv w" and "k < length (live (buffer (dev w)))"
  shows "describes (heap w) (live (buffer (dev w)) ! k) (stored_lines w ! k)"
proof -
  let ?e = "live (buffer (dev w)) ! k"
  have e: "?e \<in> set (live (buffer (dev w)))" using assms(2) by simp
  then have "buffptr ?e \<in> set (entry_ptrs (dev w))" by (simp add: entry_ptrs_def)
  then obtain block where "heap w (buffptr ?e) = Some block"
    using entry_held [OF assms(1)] by blast
  then show ?thesis
    using entry_okD [OF dev_invD(6) [OF assms(1) e]] assms(2)
    by (simp add: describes_def block_of_def stored_lines_def line_bytes_def)
qed

lemma describes_pending:
  assumes "dev_inv w" and "pending w \<noteq> []"
  shows "describes (heap w)
    \<lparr>buffptr = unterminated_buffptr (dev w), esize = unterminated_size (dev w)\<rparr> (pending w)"
proof -
  have nn: "unterminated_buffptr (dev w) \<noteq> NULL" using assms no_pending by blast
  then obtain block where "heap w (unterminated_buffptr (dev w)) = Some block"
    using dev_invD(3) [OF assms(1)] by (auto simp: pending_ptrs_def)
  with nn dev_invD(7) [OF assms(1)] show ?thesis
    by (simp add: describes_def pending_ok_def block_of_def pending_def)
qed

lemma read_target_stored:
  assumes inv: "dev_inv w" and f: "unat f < 2 ^ 63"
    and loc: "locate (map length (stored_lines w)) (unat f) = Some (k, r)"
  shows "read_target w f = Inr (Some (live (buffer (dev w)) ! k, of_nat r))"
    and "k < length (stored_lines w)"
proof -
  let ?b = "buffer (dev w)"
  note wf = dev_invD(1) [OF inv]
  have loc': "locate (sizes ?b) (unat f) = Some (k, r)" using loc by (simp add: sizes_lines [OF inv])
  then have k: "k < length (live ?b)" using locate_Some by fastforce
  then show "k < length (stored_lines w)" by (simp add: stored_lines_def)
  show "read_target w f = Inr (Some (live ?b ! k, of_nat r))"
    using find_entry_refines [OF wf f] loc' k wf by (simp add: read_target_def entry_at_slot)
qed

lemma remaining_position:
  assumes inv: "dev_inv w" and "sum_list (sizes (buffer (dev w))) \<le> unat f"
  shows "unat (f - aesd_circular_buffer_size (buffer (dev w)))
    = unat f - length (concat (stored_lines w))"
proof -
  have "length (concat (stored_lines w)) = sum_list (sizes (buffer (dev w)))"
    by (simp add: sizes_lines [OF inv] length_concat)
  then show ?thesis
    using assms(2) unat_buffer_size [OF inv] by (simp add: unat_minus_ge word_le_nat_alt)
qed

lemma read_target_located:
  assumes inv: "dev_inv w" and f: "unat f < 2 ^ 63"
    and loc: "locate (map length (segments w)) (unat f) = Some (k, r)"
  obtains e where "read_target w f = Inr (Some (e, of_nat r))"
    and "describes (heap w) e (segments w ! k)"
proof (cases "locate (map length (stored_lines w)) (unat f)")
  case (Some kr)
  then have l: "locate (map length (stored_lines w)) (unat f) = Some (k, r)"
    using loc by (simp add: segments_def locate_append)
  note t = read_target_stored [OF inv f l]
  have "segments w ! k = stored_lines w ! k" using t(2) by (simp add: segments_def nth_append)
  with that t describes_entry [OF inv, of k] show thesis by (simp add: stored_lines_def)
next
  case None
  let ?b = "buffer (dev w)"
  have past: "sum_list (sizes ?b) \<le> unat f"
    using None by (simp add: locate_eq_None sizes_lines [OF inv])
  have kr: "k = length (stored_lines w)" "unat f - length (concat (stored_lines w)) = r"
      "r < length (pending w)"
    using loc None by (auto simp: segments_def locate_append length_concat split: if_splits)
  have rem: "unat (f - aesd_circular_buffer_size ?b) = r"
    using remaining_position [OF inv past] kr(2) by simp
  then have rem': "f - aesd_circular_buffer_size ?b = of_nat r" by (rule word_of_unat)
  have "of_nat r < unterminated_size (dev w)"
    using rem rem' kr(3) length_pending [OF inv] by (metis word_less_nat_alt)
  moreover have "locate (sizes ?b) (unat f) = None" using past by (simp add: locate_eq_None)
  ultimately have "read_target w f = Inr (Some
      (\<lparr>buffptr = unterminated_buffptr (dev w), esize = unterminated_size (dev w)\<rparr>, of_nat r))"
    using find_entry_refines [OF dev_invD(1) [OF inv] f] rem' by (simp add: read_target_def)
  moreover have "pending w \<noteq> []" using kr(3) by auto
  moreover have "segments w ! k = pending w" using kr(1) by (simp add: segments_def)
  ultimately show thesis using that describes_pending [OF inv] by metis
qed

lemma read_target_end:
  assumes inv: "dev_inv w" and f: "unat f < 2 ^ 63" and "length (contents w) \<le> unat f"
  shows "read_target w f = Inr None"
proof -
  let ?b = "buffer (dev w)"
  have past: "sum_list (sizes ?b) \<le> unat f"
    using assms(3) by (simp add: contents_def sizes_lines [OF inv] length_concat)
  have "\<not> f - aesd_circular_buffer_size ?b < unterminated_size (dev w)"
    using remaining_position [OF inv past] assms(3) length_pending [OF inv]
    by (simp add: word_less_nat_alt contents_def)
  moreover have "locate (sizes ?b) (unat f) = None" using past by (simp add: locate_eq_None)
  ultimately show ?thesis
    using find_entry_refines [OF dev_invD(1) [OF inv] f] by (simp add: read_target_def)
qed

section \<open>The read operation\<close>

definition read_chunk :: "world \<Rightarrow> nat \<Rightarrow> nat \<Rightarrow> byte list" where
  "read_chunk w f count = (case locate (map length (segments w)) f of None \<Rightarrow> []
     | Some (k, r) \<Rightarrow> take count (drop r (segments w ! k)))"

definition user_writable :: "kernel \<Rightarrow> bool" where
  "user_writable K \<longleftrightarrow> (\<forall>src n. k_copy_to_user K src n = 0)"

lemma locate_segments_None:
  "locate (map length (segments w)) f = None \<longleftrightarrow> length (contents w) \<le> f"
  by (simp add: locate_eq_None concat_segments [symmetric] length_concat)

lemma read_chunk_prefix: "read_chunk w f count = take (length (read_chunk w f count)) (drop f (contents w))"
proof (cases "locate (map length (segments w)) f")
  case None
  then show ?thesis by (simp add: read_chunk_def)
next
  case (Some kr)
  obtain k r where kr: "locate (map length (segments w)) f = Some (k, r)" using Some by (cases kr) auto
  let ?seg = "drop r (segments w ! k)"
  have "drop f (contents w) = ?seg @ concat (drop (Suc k) (segments w))"
    using drop_concat_located [OF kr] by (simp only: concat_segments)
  then have "take (length (take count ?seg)) (drop f (contents w)) = take count ?seg"
    by (cases "count \<le> length ?seg") simp_all
  then show ?thesis using kr by (simp add: read_chunk_def)
qed

lemma read_chunk_empty:
  "read_chunk w f count = [] \<longleftrightarrow> count = 0 \<or> length (contents w) \<le> f"
proof (cases "locate (map length (segments w)) f")
  case None
  then show ?thesis using locate_segments_None [of w f] by (simp add: read_chunk_def)
next
  case (Some kr)
  obtain k r where kr: "locate (map length (segments w)) f = Some (k, r)" using Some by (cases kr) auto
  then have "r < length (segments w ! k)" using locate_Some [OF kr] by auto
  then show ?thesis using kr locate_segments_None [of w f] by (auto simp: read_chunk_def)
qed

lemma read_chunk_le: "length (read_chunk w f count) \<le> count"
  by (auto simp: read_chunk_def split: option.splits)

text \<open>The length of the segment's rest decides how much the debug copy takes.\<close>

lemma read_located:
  fixes count :: u64
  assumes wf: "dev_wf w" and f: "unat f < 2 ^ 63"
    and loc: "locate (map length (segments w)) (unat f) = Some (k, r)"
  defines "bs \<equiv> read_chunk w (unat f) (unat count)"
  obtains src where "take (length bs) src = bs" and "length bs \<le> length src"
    and "aesd_read K False count f w =
      andThen (pdebug_copy src (length bs)) (\<lambda>_.
        let error = k_copy_to_user K src (of_nat (length bs))
        in if error \<noteq> 0
           then Inr (- EFAULT, f, take (unat (of_nat (length bs) - error)) src, w)
           else Inr (of_nat (length bs), f + of_nat (length bs), bs, w))"
proof -
  let ?w = "w\<lparr>dev := (dev w)\<lparr>lock := True\<rparr>\<rparr>"
  have inv: "dev_inv w" and free: "\<not> lock (dev w)" using wf by (simp_all add: dev_wf_def)
  have same: "read_target ?w f = read_target w f" by (simp add: read_target_def cong: option.case_cong if_cong)
  obtain e where t: "read_target w f = Inr (Some (e, of_nat r))"
    and d: "describes (heap w) e (segments w ! k)"
    by (rule read_target_located [OF inv f loc])
  obtain block where block: "heap w (buffptr e) = Some block" "buffptr e \<noteq> NULL"
    "unat (esize e) \<le> length block" "take (unat (esize e)) block = segments w ! k"
    "unat (esize e) \<le> kmalloc_limit"
    using d by (auto simp: describes_def)
  have r: "r < unat (esize e)" using locate_Some [OF loc] describes_length [OF d] by auto
  then have ur: "unat (of_nat r :: u64) = r"
    using block(5) by (intro unat_of_nat_u64) (simp add: kmalloc_limit_def)
  have left: "unat (esize e - of_nat r) = unat (esize e) - r"
    using r ur by (simp add: unat_minus_ge word_le_nat_alt)
  let ?fc = "if count < esize e - of_nat r then count else esize e - of_nat r"
  have fc: "unat ?fc = min (unat count) (unat (esize e) - r)"
    by (auto simp: word_less_nat_alt left min_def)
  have bs: "bs = take (unat count) (drop r (segments w ! k))" by (simp add: bs_def read_chunk_def loc)
  have len: "length bs = unat ?fc" by (simp add: bs describes_length [OF d] fc min.commute)
  have word: "?fc = of_nat (length bs)" by (rule word_of_unat) (rule len [symmetric])
  have lenw: "unat (of_nat (length bs) :: u64) = length bs" using len unfolding word by (rule sym)
  let ?src = "drop r block"
  have "bs = take (unat ?fc) ?src"
    unfolding bs block(4) [symmetric] fc using r by (simp add: drop_take min_def)
  then have 1: "take (length bs) ?src = bs" unfolding len by (rule sym)
  have 2: "length bs \<le> length ?src" using len fc block(3) by simp
  have 3: "deref (heap w) (buffptr e) = Inr block" using block by (simp add: deref_def)
  have unlocked: "w\<lparr>dev := (dev w)\<lparr>lock := False\<rparr>\<rparr> = w" using free by simp
  have "aesd_read K False count f w =
      andThen (pdebug_copy ?src (length bs)) (\<lambda>_.
        let error = k_copy_to_user K ?src (of_nat (length bs))
        in if error \<noteq> 0
           then Inr (- EFAULT, f, take (unat (of_nat (length bs) - error)) ?src, w)
           else Inr (of_nat (length bs), f + of_nat (length bs), bs, w))"
    using 2 unlocked by (simp add: aesd_read_def same t Let_def word 1 3 ur lenw cong: if_cong)
  with 1 2 that show thesis by blast
qed

end
