(* ===== verification/Aesd_Driver_Store.thy ===== *)
theory Aesd_Driver_Store
  imports Aesd_Driver_Write
begin

text \<open>
  \<open>aesd_write\<close> as a whole: on a device that satisfies the invariant and a request that fits the
  debug buffer, a write returns, releases the lock, keeps the invariant and stores what
  \<open>spec_write\<close> says; a fault of the user's memory is reported and changes nothing; a failed
  allocation is harmless when no unterminated command is pending and loses it otherwise.
\<close>

section \<open>From the body to the operation\<close>

definition with_lock :: "bool \<Rightarrow> world \<Rightarrow> world" where
  "with_lock b w = w\<lparr>dev := (dev w)\<lparr>lock := b\<rparr>\<rparr>"

lemma with_lock_simps [simp]:
  "dev_inv (with_lock b w) = dev_inv w"
  "stored_lines (with_lock b w) = stored_lines w"
  "pending (with_lock b w) = pending w"
  "lock (dev (with_lock b w)) = b"
  "heap (with_lock b w) = heap w"
  "unterminated_buffptr (dev (with_lock b w)) = unterminated_buffptr (dev w)"
  "unterminated_size (dev (with_lock b w)) = unterminated_size (dev w)"
  "buffer (dev (with_lock b w)) = buffer (dev w)"
  "with_lock b (with_lock b' w) = with_lock b w"
  "write_unallocated K count (with_lock b w) = write_unallocated K count w"
  "write_done (with_lock b w) data f ret f' w' = write_done w data f ret f' w'"
  "write_done w data f ret f' (with_lock b w') = write_done w data f ret f' w'"
  by (simp_all add: with_lock_def write_unallocated_def write_done_def)

lemma with_lock_same: "\<not> lock (dev w) \<Longrightarrow> with_lock False w = w"
  by (simp add: with_lock_def)

lemma dev_wf_unlock: "dev_inv w \<Longrightarrow> dev_wf (with_lock False w)"
  by (simp add: dev_wf_def)

lemma write_succeeds:
  assumes "write_body K buf count f (with_lock True w) = Inr (ret, 0, f', w1)" and "0 \<le> sint ret"
  shows "aesd_write K False buf count f w = Inr (ret, f', with_lock False w1)"
  using assms by (simp add: aesd_write_def with_lock_def)

lemma sint_ENOMEM: "sint (- ENOMEM) < 0"
  by (simp add: ENOMEM_def)

lemma write_fault_result:
  assumes "write_body K buf count f (with_lock True w) = Inr (- ENOMEM, e, f, w1)" and "e \<noteq> 0"
    and "unterminated_buffptr (dev w1) = NULL \<or> unterminated_size (dev w1) \<noteq> 0"
  shows "aesd_write K False buf count f w = Inr (- EFAULT, f, with_lock False w1)"
  using assms sint_ENOMEM by (auto simp: aesd_write_def with_lock_def)

lemma write_fault_frees:
  assumes "write_body K buf count f (with_lock True w) = Inr (- ENOMEM, e, f, w1)" and "e \<noteq> 0"
    and "unterminated_buffptr (dev w1) \<noteq> NULL" and "unterminated_size (dev w1) = 0"
    and "kfree K (heap w1) (unterminated_buffptr (dev w1)) = Inr h"
  shows "aesd_write K False buf count f w
    = Inr (- EFAULT, f, with_lock False (w1\<lparr>dev := (dev w1)\<lparr>unterminated_buffptr := NULL\<rparr>, heap := h\<rparr>))"
  using assms sint_ENOMEM by (simp add: aesd_write_def with_lock_def)

text \<open>A fault after the allocation: the block that was grown still holds the pending bytes, or
  is freed again when there were none.\<close>

lemma write_fault_restores:
  assumes K: "kernel_ok K" and inv: "dev_inv w" and fresh: "fresh_for w p"
    and blk: "take (unat (unterminated_size (dev w))) blk = pending w"
      "unat (unterminated_size (dev w)) \<le> length blk"
    and body: "write_body K buf count f (with_lock True w)
      = Inr (- ENOMEM, e, f, with_lock True (w\<lparr>dev := (dev w)\<lparr>unterminated_buffptr := p\<rparr>,
                                             heap := grown_heap w p blk\<rparr>))" "e \<noteq> 0"
  shows "\<exists>w'. aesd_write K False buf count f w = Inr (- EFAULT, f, w') \<and> dev_wf w'
    \<and> stored_lines w' = stored_lines w \<and> pending w' = pending w"
proof (cases "unterminated_size (dev w) = 0")
  case False
  let ?w1 = "w\<lparr>dev := (dev w)\<lparr>unterminated_buffptr := p\<rparr>, heap := grown_heap w p blk\<rparr>"
  have "0 < unat (unterminated_size (dev w))" using False by (simp add: unat_gt_0)
  moreover have "TERMINATOR_CHARACTER \<notin> set (pending w)"
    using dev_invD(7) [OF inv] False by (auto simp: pending_ok_def pending_def split: if_splits)
  moreover have "?w1 = w\<lparr>dev := (dev w)\<lparr>unterminated_buffptr := p,
      unterminated_size := unterminated_size (dev w)\<rparr>, heap := grown_heap w p blk\<rparr>"
    by simp
  ultimately have "dev_inv ?w1 \<and> stored_lines ?w1 = stored_lines w \<and> pending ?w1 = pending w"
    using keep_pending [OF inv fresh, of "unterminated_size (dev w)" blk] blk used_small [OF inv]
    by simp
  with write_fault_result [OF body] False show ?thesis by (auto intro: dev_wf_unlock)
next
  case True
  let ?w1 = "w\<lparr>dev := (dev w)\<lparr>unterminated_buffptr := p\<rparr>, heap := grown_heap w p blk\<rparr>"
  have old: "unterminated_buffptr (dev w) = NULL"
    using dev_invD(7) [OF inv] True by (auto simp: pending_ok_def split: if_splits)
  have p: "p \<noteq> NULL" "heap w p = None"
    using fresh dev_invD(3) [OF inv] old by (auto simp: fresh_for_def pending_ptrs_def dom_def)
  have "kfree K (grown_heap w p blk) p = Inr ((grown_heap w p blk)(p := None))"
    using kernel_okD(2) [OF K] p(1) by (simp add: kfree_block grown_heap_def)
  moreover have "(grown_heap w p blk)(p := None) = heap w"
    using p old dev_invD(2) [OF inv] by (auto simp: grown_heap_def)
  ultimately have "aesd_write K False buf count f w = Inr (- EFAULT, f, with_lock False w)"
    using write_fault_frees [OF body, of "heap w"] True p(1) old
    by (simp add: with_lock_def)
  then show ?thesis using inv by (auto intro: dev_wf_unlock)
qed

section \<open>Outcomes\<close>

lemma write_done_nonneg: "write_done w data f ret f' w' \<Longrightarrow> 0 \<le> sint ret"
  using sint_neg_iff [of ret] by (auto simp: write_done_def unat_of_nat_u64)

lemma write_readable:
  assumes K: "kernel_ok K" and wf: "dev_wf w" and count: "count \<noteq> 0" "unat count < 2 ^ 63"
    and ok: "\<not> write_unallocated K count w" "user_readable K buf count"
  obtains "unat count < 100 \<or> unat count = 100 \<and> 0 \<in> set (take 100 buf)" and
    "\<exists>ret f' w'. aesd_write K False buf count f w = Inr (ret, f', w') \<and> dev_wf w'
       \<and> write_done w (take (unat count) buf) f ret f' w'"
  | "\<not> (unat count < 100 \<or> unat count = 100 \<and> 0 \<in> set (take 100 buf))" and
    "aesd_write K False buf count f w = Inl Out_of_bounds"
proof -
  let ?l = "with_lock True w"
  have inv: "dev_inv ?l" using wf by (simp add: dev_wf_def)
  have alloc: "\<not> write_unallocated K count ?l" using ok(1) by simp
  obtain dst where dst: "take (unat count) dst = take (unat count) buf" "unat count \<le> length dst"
    and "case pdebug_copy dst (unat count) of
            Inl e \<Rightarrow> write_body K buf count f ?l = Inl e
          | Inr _ \<Rightarrow> (\<exists>ret f' v. write_body K buf count f ?l = Inr (ret, 0, f', v))"
    using write_body_readable [OF K inv count alloc ok(2), of f] by blast
  then have body: "case (if unat count < 100 \<or> unat count = 100 \<and> 0 \<in> set (take (unat count) buf)
        then Inr () else Inl Out_of_bounds) of
            Inl e \<Rightarrow> write_body K buf count f ?l = Inl e
          | Inr _ \<Rightarrow> (\<exists>ret f' v. write_body K buf count f ?l = Inr (ret, 0, f', v))"
    by (simp only: pdebug_copy_cases [OF dst(2)] dst(1))
  show thesis
  proof (cases "unat count < 100 \<or> unat count = 100 \<and> 0 \<in> set (take (unat count) buf)")
    case True
    then obtain ret f' v where v: "write_body K buf count f ?l = Inr (ret, 0, f', v)"
      using body by auto
    from write_body_outcome [OF K inv count alloc v]
    have "dev_inv v" "write_done w (take (unat count) buf) f ret f' v" by simp_all
    moreover from this write_done_nonneg have "0 \<le> sint ret" by blast
    ultimately show thesis
      using write_succeeds [OF v] True by (intro that(1)) (auto intro!: dev_wf_unlock)
  next
    case False
    then have "write_body K buf count f ?l = Inl Out_of_bounds"
      using body by (simp only: if_not_P sum.case) simp
    then show thesis using False by (intro that(2)) (auto simp: aesd_write_def with_lock_def)
  qed
qed

lemma write_unreadable:
  assumes K: "kernel_ok K" and wf: "dev_wf w" and count: "count \<noteq> 0" "unat count < 2 ^ 63"
    and ok: "\<not> write_unallocated K count w" "user_faults K buf count"
  shows "\<exists>w'. aesd_write K False buf count f w = Inr (- EFAULT, f, w') \<and> dev_wf w'
    \<and> stored_lines w' = stored_lines w \<and> pending w' = pending w"
proof -
  let ?l = "with_lock True w"
  have inv: "dev_inv w" and invl: "dev_inv ?l" using wf by (simp_all add: dev_wf_def)
  have alloc: "\<not> write_unallocated K count ?l" using ok(1) by simp
  obtain e v where e: "e \<noteq> 0" "write_body K buf count f ?l = Inr (- ENOMEM, e, f, v)"
    using write_body_faults [OF K invl count alloc ok(2), of f] by blast
  from write_body_outcome [OF K invl count alloc e(2)] e(1)
  obtain p blk where "fresh_for ?l p" "take (unat (unterminated_size (dev w))) blk = pending w"
      "unat (unterminated_size (dev w)) \<le> length blk"
      "v = ?l\<lparr>dev := (dev ?l)\<lparr>unterminated_buffptr := p\<rparr>, heap := grown_heap ?l p blk\<rparr>"
    by auto
  moreover from this have "fresh_for w p"
    "v = with_lock True (w\<lparr>dev := (dev w)\<lparr>unterminated_buffptr := p\<rparr>, heap := grown_heap w p blk\<rparr>)"
    by (simp_all add: fresh_for_def grown_heap_def with_lock_def entry_ptrs_def)
  ultimately show ?thesis
    using write_fault_restores [OF K inv, of p blk buf count f e] e by simp
qed

lemma write_without_memory:
  assumes K: "kernel_ok K" and wf: "dev_wf w" and count: "count \<noteq> 0" "unat count < 2 ^ 63"
    and "write_unallocated K count w"
  shows "aesd_write K False buf count f w
    = Inr (- ENOMEM, f, w\<lparr>dev := (dev w)\<lparr>unterminated_buffptr := NULL\<rparr>\<rparr>)"
proof -
  have "dev_inv (with_lock True w)" "write_unallocated K count (with_lock True w)"
    using wf assms(5) by (simp_all add: dev_wf_def)
  from write_body_unallocated [OF kernel_okD(1) [OF K] this(1) count this(2)] sint_ENOMEM wf
  show ?thesis by (simp add: aesd_write_def with_lock_def dev_wf_def)
qed

section \<open>Any write that returns\<close>

lemma write_empty:
  assumes "dev_wf w"
  shows "aesd_write K False buf 0 f w = Inr (- ENOMEM, f, w)"
proof -
  have "unterminated_buffptr (dev w) = NULL \<or> unterminated_size (dev w) \<noteq> 0"
    using dev_invD(7) [of w] assms by (auto simp: dev_wf_def pending_ok_def split: if_splits)
  then show ?thesis
    using assms sint_ENOMEM by (auto simp: aesd_write_def write_body_def dev_wf_def)
qed

lemma sint_EFAULT: "sint (- EFAULT) < 0"
  by (simp add: EFAULT_def)

text \<open>Whatever the user's memory does, a write that has its block and returns stores a part of
  the bytes or reports the fault and changes nothing.\<close>

lemma write_after_body:
  assumes K: "kernel_ok K" and wf: "dev_wf w" and count: "count \<noteq> 0" "unat count < 2 ^ 63"
    and ok: "\<not> write_unallocated K count w"
    and body: "write_body K buf count f (with_lock True w) = Inr (r, e, g, v)"
  obtains ret f' w' where "aesd_write K False buf count f w = Inr (ret, f', w')" and "dev_wf w'"
    and "unat count \<le> length buf \<and> write_done w (take (unat count) buf) f ret f' w'
      \<or> ret = - EFAULT \<and> f' = f \<and> stored_lines w' = stored_lines w \<and> pending w' = pending w"
proof -
  let ?l = "with_lock True w"
  have inv: "dev_inv w" and invl: "dev_inv ?l" and alloc: "\<not> write_unallocated K count ?l"
    using wf ok by (simp_all add: dev_wf_def)
  from write_body_outcome [OF K invl count alloc body] show thesis
  proof (elim disjE conjE exE)
    assume stored: "e = 0" "dev_inv v" "unat count \<le> length buf"
      "write_done ?l (take (unat count) buf) f r g v"
    then have "0 \<le> sint r" using write_done_nonneg by blast
    then have "aesd_write K False buf count f w = Inr (r, g, with_lock False v)"
      using body stored(1) by (intro write_succeeds) simp_all
    from that [OF this dev_wf_unlock [OF stored(2)]] stored show thesis by simp
  next
    fix p blk
    assume fault: "e \<noteq> 0" "r = - ENOMEM" "g = f" "fresh_for ?l p"
      "take (unat (unterminated_size (dev ?l))) blk = pending ?l"
      "unat (unterminated_size (dev ?l)) \<le> length blk"
      "v = ?l\<lparr>dev := (dev ?l)\<lparr>unterminated_buffptr := p\<rparr>, heap := grown_heap ?l p blk\<rparr>"
    then have "fresh_for w p" "v = with_lock True
        (w\<lparr>dev := (dev w)\<lparr>unterminated_buffptr := p\<rparr>, heap := grown_heap w p blk\<rparr>)"
      by (simp_all add: fresh_for_def grown_heap_def with_lock_def entry_ptrs_def)
    with write_fault_restores [OF K inv, of p blk buf count f e] fault body
    obtain u where "aesd_write K False buf count f w = Inr (- EFAULT, f, u)" "dev_wf u"
      "stored_lines u = stored_lines w" "pending u = pending w"
      by auto
    from that [OF this(1,2)] this(3,4) show thesis by simp
  qed
qed

lemma write_returns:
  assumes K: "kernel_ok K" and wf: "dev_wf w" and small: "unat count < 2 ^ 63"
    and ok: "count \<noteq> 0 \<Longrightarrow> \<not> write_unallocated K count w"
    and ret: "aesd_write K intr buf count f w = Inr (ret, f', w')"
  shows "dev_wf w' \<and> (unat count \<le> length buf \<and> write_done w (take (unat count) buf) f ret f' w'
    \<or> sint ret < 0 \<and> f' = f \<and> stored_lines w' = stored_lines w \<and> pending w' = pending w)"
proof -
  consider (interrupted) intr | (empty) "\<not> intr" "count = 0" | (full) "\<not> intr" "count \<noteq> 0" by blast
  then show ?thesis
  proof cases
    case interrupted
    have "sint (- ERESTARTSYS) < 0" by (simp add: ERESTARTSYS_def)
    with interrupted ret wf show ?thesis by (auto simp: aesd_write_def)
  next
    case empty
    with ret write_empty [OF wf, of K buf f] wf sint_ENOMEM show ?thesis by auto
  next
    case full
    have ret': "aesd_write K False buf count f w = Inr (ret, f', w')" using ret full by simp
    then obtain r e g v where body: "write_body K buf count f (with_lock True w) = Inr (r, e, g, v)"
      by (auto simp: aesd_write_def with_lock_def)
    show ?thesis
      by (rule write_after_body [OF K wf full(2) small ok [OF full(2)] body]) (use ret' sint_EFAULT in auto)
  qed
qed

end
