(* ===== verification/Aesd_Driver_Seek.thy ===== *)
theory Aesd_Driver_Seek
  imports Aesd_Driver_Read Aesd_Driver_Store
begin

text \<open>
  Reading a device to its end, seeking to a command, and the module functions: what cleanup
  frees is exactly what the invariant says the device holds.
\<close>

section \<open>Reads that return\<close>

lemma read_at_end:
  assumes "dev_wf w" and "unat f < 2 ^ 63" and "length (contents w) \<le> unat f"
  shows "aesd_read K False count f w = Inr (0, f, [], w)"
proof -
  have "read_target (with_lock True w) f = Inr None"
    using assms by (intro read_target_end) (simp_all add: dev_wf_def contents_def)
  then show ?thesis using assms(1) by (simp add: aesd_read_def with_lock_def dev_wf_def)
qed

lemma read_returns:
  fixes count :: u64
  assumes wf: "dev_wf w" and f: "unat f < 2 ^ 63" and K: "user_writable K"
  defines "bs \<equiv> read_chunk w (unat f) (unat count)"
  assumes short: "length bs < 100"
  shows "aesd_read K False count f w = Inr (of_nat (length bs), f + of_nat (length bs), bs, w)"
proof (cases "locate (map length (segments w)) (unat f)")
  case None
  then have "length (contents w) \<le> unat f" by (simp only: locate_segments_None)
  moreover have "bs = []" using None by (simp add: bs_def read_chunk_def)
  ultimately show ?thesis using read_at_end [OF wf f] by simp
next
  case (Some kr)
  obtain k r where loc: "locate (map length (segments w)) (unat f) = Some (k, r)"
    using Some by (cases kr) auto
  obtain src where src: "length bs \<le> length src" "take (length bs) src = bs"
    "aesd_read K False count f w =
      andThen (pdebug_copy src (length bs)) (\<lambda>_.
        let error = k_copy_to_user K src (of_nat (length bs))
        in if error \<noteq> 0
           then Inr (- EFAULT, f, take (unat (of_nat (length bs) - error)) src, w)
           else Inr (of_nat (length bs), f + of_nat (length bs), bs, w))"
    unfolding bs_def by (rule read_located [OF wf f loc, of count K])
  have "pdebug_copy src (length bs) = Inr ()"
    using short by (simp add: pdebug_copy_cases [OF src(1)])
  then show ?thesis using src(3) K by (simp add: user_writable_def)
qed

lemma read_faults:
  fixes count :: u64
  assumes wf: "dev_wf w" and f: "unat f < 2 ^ 63" and K: "\<forall>src n. n \<noteq> 0 \<longrightarrow> k_copy_to_user K src n \<noteq> 0"
  defines "bs \<equiv> read_chunk w (unat f) (unat count)"
  assumes short: "length bs < 100" and some: "bs \<noteq> []"
  shows "\<exists>delivered. aesd_read K False count f w = Inr (- EFAULT, f, delivered, w)"
proof -
  obtain k r where loc: "locate (map length (segments w)) (unat f) = Some (k, r)"
    using some by (auto simp: bs_def read_chunk_def split: option.splits)
  obtain src where src: "length bs \<le> length src" "aesd_read K False count f w =
      andThen (pdebug_copy src (length bs)) (\<lambda>_.
        let error = k_copy_to_user K src (of_nat (length bs))
        in if error \<noteq> 0
           then Inr (- EFAULT, f, take (unat (of_nat (length bs) - error)) src, w)
           else Inr (of_nat (length bs), f + of_nat (length bs), bs, w))"
    using read_located [OF wf f loc, of count K] unfolding bs_def by blast
  have "unat (of_nat (length bs) :: u64) = length bs" using short by (intro unat_of_nat_u64) simp
  then have "(of_nat (length bs) :: u64) \<noteq> 0" using some by (metis length_0_conv unat_0)
  moreover have "pdebug_copy src (length bs) = Inr ()" using short by (simp add: pdebug_copy_cases [OF src(1)])
  ultimately show ?thesis using src(2) K by (simp add: Let_def)
qed

lemma read_overflows:
  assumes wf: "dev_wf w" and f: "unat f < 2 ^ 63" and long: "100 < length (read_chunk w (unat f) (unat count))"
  shows "aesd_read K False count f w = Inl Out_of_bounds"
proof -
  let ?bs = "read_chunk w (unat f) (unat count)"
  obtain k r where loc: "locate (map length (segments w)) (unat f) = Some (k, r)"
    using long by (auto simp: read_chunk_def split: option.splits)
  obtain src where src: "length ?bs \<le> length src" "aesd_read K False count f w =
      andThen (pdebug_copy src (length ?bs)) (\<lambda>_.
        let error = k_copy_to_user K src (of_nat (length ?bs))
        in if error \<noteq> 0
           then Inr (- EFAULT, f, take (unat (of_nat (length ?bs) - error)) src, w)
           else Inr (of_nat (length ?bs), f + of_nat (length ?bs), ?bs, w))"
    by (rule read_located [OF wf f loc, of count K])
  have "pdebug_copy src (length ?bs) = Inl Out_of_bounds"
    using long by (simp add: pdebug_copy_cases [OF src(1)])
  then show ?thesis using src(2) by simp
qed

lemma read_keeps_device:
  assumes wf: "dev_wf w" and ret: "aesd_read K intr count f w = Inr (ret, f', bs, w')"
  shows "w' = w"
proof -
  have "with_lock False (with_lock True w) = w" using wf by (simp add: dev_wf_def with_lock_same)
  moreover have "w' = w \<or> w' = with_lock False (with_lock True w)"
    using ret by (auto simp: aesd_read_def Let_def with_lock_def split: if_splits option.splits)
  ultimately show ?thesis by simp
qed

text \<open>What a read at the end of the stored commands finds when the pending bytes' pointer is
  lost but their size is not.\<close>

lemma read_target_lost:
  assumes inv: "dev_inv w" and pend: "pending w \<noteq> []"
    and v: "buffer (dev v) = buffer (dev w)" "unterminated_size (dev v) = unterminated_size (dev w)"
      "unterminated_buffptr (dev v) = NULL"
  shows "read_target v (of_nat (length (concat (stored_lines w))))
    = Inr (Some (\<lparr>buffptr = NULL, esize = unterminated_size (dev w)\<rparr>, 0))"
proof -
  let ?b = "buffer (dev w)"
  have total: "length (concat (stored_lines w)) = sum_list (sizes ?b)"
    by (simp add: sizes_lines [OF inv] length_concat)
  have f: "unat (of_nat (sum_list (sizes ?b)) :: u64) = sum_list (sizes ?b)"
    using sizes_total_small [OF inv] by (intro unat_of_nat_u64) simp
  have "locate (sizes ?b) (sum_list (sizes ?b)) = None" by (simp add: locate_eq_None)
  then have "aesd_circular_buffer_find_entry_offset_for_fpos ?b (of_nat (sum_list (sizes ?b))) = Some None"
    using find_entry_refines [OF dev_invD(1) [OF inv], of "of_nat (sum_list (sizes ?b))"] f
      sizes_total_small [OF inv] by simp
  moreover have "0 < unterminated_size (dev w)"
    using length_pending [OF inv] pend by (simp add: word_less_nat_alt) (metis length_greater_0_conv)
  ultimately show ?thesis
    using buffer_size_word [OF inv] by (simp add: read_target_def total v)
qed

text \<open>A reader that asks for \<open>count\<close> bytes at a time until it gets none.\<close>

fun read_all :: "kernel \<Rightarrow> nat \<Rightarrow> u64 \<Rightarrow> u64 \<Rightarrow> world \<Rightarrow> stop + byte list" where
  "read_all K 0 count f w = Inl No_return"
| "read_all K (Suc fuel) count f w =
     andThen (aesd_read K False count f w) (\<lambda>(ret, f', bs, w').
       if sint ret \<le> 0 then Inr []
       else andThen (read_all K fuel count f' w') (\<lambda>rest. Inr (bs @ rest)))"

lemma contents_small: "dev_inv w \<Longrightarrow> length (contents w) < 2 ^ 37"
  using sizes_total_small [of w] used_small [of w] sizes_lines [of w] length_pending [of w]
  by (simp add: contents_def length_concat kmalloc_limit_def)

lemma sint_count_pos: "n < 100 \<Longrightarrow> sint (of_nat n :: u64) \<le> 0 \<longleftrightarrow> n = 0"
  using sint_small [of "of_nat n"] by (simp add: unat_of_nat_u64)

lemma read_all_delivers:
  assumes wf: "dev_wf w" and K: "user_writable K" and count: "0 < unat count" "unat count < 100"
  shows "unat f < 2 ^ 62 \<Longrightarrow> length (contents w) - unat f < fuel \<Longrightarrow>
    read_all K fuel count f w = Inr (drop (unat f) (contents w))"
proof (induction fuel arbitrary: f)
  case 0
  then show ?case by simp
next
  case (Suc fuel)
  let ?bs = "read_chunk w (unat f) (unat count)"
  have len: "length ?bs < 100" using read_chunk_le [of w "unat f" "unat count"] count(2) by linarith
  have f: "unat f < 2 ^ 63" using Suc.prems(1) by simp
  note step = read_returns [OF wf f K len]
  show ?case
  proof (cases "?bs = []")
    case True
    then have "length (contents w) \<le> unat f" using read_chunk_empty count by simp
    with step True show ?thesis by simp
  next
    case False
    have sum: "unat (f + of_nat (length ?bs)) = unat f + length ?bs"
      using Suc.prems(1) len by (subst unat_add_lem [THEN iffD1]) (simp_all add: unat_of_nat_u64)
    have inside: "unat f < length (contents w)" using False read_chunk_empty by (metis not_le)
    have pre: "?bs = take (length ?bs) (drop (unat f) (contents w))" by (rule read_chunk_prefix)
    then have "unat f + length ?bs \<le> length (contents w)"
      using inside by (metis length_drop length_take min.cobounded1 min.absorb_iff1
          le_diff_conv2 less_imp_le add.commute)
    note le = this
    have "length (contents w) < 2 ^ 37" using contents_small wf by (simp add: dev_wf_def)
    with le have small: "unat f + length ?bs < 2 ^ 62" by simp
    have "read_all K fuel count (f + of_nat (length ?bs)) w
        = Inr (drop (unat f + length ?bs) (contents w))"
      proof (intro Suc.IH [of "f + of_nat (length ?bs)", unfolded sum])
      show "unat f + length ?bs < 2 ^ 62" by (rule small)
      show "length (contents w) - (unat f + length ?bs) < fuel"
        using Suc.prems(2) False inside by (cases "length ?bs") auto
    qed
    moreover have "?bs @ drop (unat f + length ?bs) (contents w) = drop (unat f) (contents w)"
      using pre by (metis append_take_drop_id drop_drop add.commute)
    moreover have "\<not> sint (of_nat (length ?bs) :: u64) \<le> 0" using sint_count_pos [OF len] False by simp
    ultimately show ?thesis using step by simp
  qed
qed

section \<open>Seeking\<close>

lemma find_fpos_stored:
  assumes "dev_inv w"
  shows "map_option sint (aesd_circular_buffer_find_fpos_for_entry_offset (buffer (dev w)) k r)
    = Some (case position_of (map length (stored_lines w)) (unat k) (unat r) of
        None \<Rightarrow> - 1 | Some p \<Rightarrow> int p)"
  using find_fpos_refines [OF dev_invD(1) [OF assms], of k r] sizes_total_small [OF assms]
  by (simp add: sizes_lines [OF assms])

lemma position_of_less: "position_of ss k r = Some p \<Longrightarrow> p < sum_list ss"
proof -
  assume "position_of ss k r = Some p"
  then have "locate ss p = Some (k, r)"
    using locate_position [of k ss r] by (auto simp: position_of_def split: if_splits)
  then show ?thesis using locate_eq_None [of ss p] by auto
qed

lemma seek_outcome:
  assumes K: "kernel_ok K" and wf: "dev_wf w"
  shows "aesd_iocseekto K False cmd off pos w = Inr
    (case position_of (map length (stored_lines w)) (unat cmd mod 256) (unat off) of
       None \<Rightarrow> (- EINVAL, pos) | Some p \<Rightarrow> (of_nat p, of_nat p))"
proof -
  let ?b = "buffer (dev w)"
  let ?ss = "map length (stored_lines w)"
  have inv: "dev_inv w" using wf by (simp add: dev_wf_def)
  have k: "unat (ucast cmd :: u8) = unat cmd mod 256" by (simp add: unsigned_ucast_eq take_bit_eq_mod)
  have r: "unat (ucast off :: u64) = unat off"
    using unsigned_less [of off, where ?'a = nat]
    by (simp add: unsigned_ucast_eq take_bit_eq_mod)
  obtain fp where fp: "aesd_circular_buffer_find_fpos_for_entry_offset ?b (ucast cmd) (ucast off) = Some fp"
    and sfp: "sint fp = (case position_of ?ss (unat cmd mod 256) (unat off) of
        None \<Rightarrow> - 1 | Some p \<Rightarrow> int p)"
    using find_fpos_stored [OF inv, of "ucast cmd" "ucast off"] by (auto simp: k r)
  show ?thesis
  proof (cases "position_of ?ss (unat cmd mod 256) (unat off)")
    case None
    then show ?thesis using fp sfp by (simp add: aesd_iocseekto_def)
  next
    case (Some p)
    let ?sz = "aesd_circular_buffer_size ?b"
    have less: "p < sum_list ?ss" by (rule position_of_less [OF Some])
    have total: "unat ?sz = sum_list ?ss" "sum_list ?ss < 2 ^ 36"
      using unat_buffer_size [OF inv] sizes_total_small [OF inv] by (simp_all add: sizes_lines [OF inv])
    have ssz: "sint ?sz = int (sum_list ?ss)" using total sint_small [of ?sz] by simp
    have "fp = of_nat p"
    proof -
      have "word_of_int (sint fp) = (of_nat p :: u64)" using sfp Some by simp
      then show ?thesis by simp
    qed
    moreover have "k_fixed_size_llseek K pos fp SEEK_SET ?sz = (fp, fp)"
      using kernel_okD(5) [OF K] ssz sfp Some less by (simp add: llseek_ok_def)
    ultimately show ?thesis using fp sfp Some by (simp add: aesd_iocseekto_def)
  qed
qed

section \<open>Cleanup\<close>

definition held_ptrs :: "aesd_buffer_entry list \<Rightarrow> ptr list" where
  "held_ptrs es = filter (\<lambda>p. p \<noteq> NULL) (map buffptr es)"

lemma held_ptrs_append: "held_ptrs (es @ fs) = held_ptrs es @ held_ptrs fs"
  by (simp add: held_ptrs_def)

lemma held_ptrs_unused: "held_ptrs (replicate n empty_entry) = []"
  by (induction n) (simp_all add: held_ptrs_def empty_entry_def)

lemma held_ptrs_used: "\<forall>e \<in> set es. buffptr e \<noteq> NULL \<Longrightarrow> held_ptrs es = map buffptr es"
  by (simp add: held_ptrs_def)

lemma free_entries_frees:
  assumes "kfree_ok K"
  shows "distinct (held_ptrs es) \<Longrightarrow> \<forall>p \<in> set (held_ptrs es). h p \<noteq> None \<Longrightarrow>
    free_entries K h es = Inr (h |` (- set (held_ptrs es)))"
proof (induction es arbitrary: h)
  case Nil
  then show ?case by (simp add: held_ptrs_def)
next
  case (Cons e es)
  show ?case
  proof (cases "buffptr e = NULL")
    case True
    then show ?thesis using Cons by (simp add: held_ptrs_def)
  next
    case False
    let ?h = "h(buffptr e := None)"
    have free: "kfree K h (buffptr e) = Inr ?h"
      using Cons.prems(2) False assms by (intro kfree_block) (simp_all add: held_ptrs_def)
    have "\<forall>p \<in> set (held_ptrs es). ?h p \<noteq> None" and "distinct (held_ptrs es)"
      using Cons.prems False by (auto simp: held_ptrs_def)
    from Cons.IH [OF this(2,1)]
    have "free_entries K ?h es = Inr (?h |` (- set (held_ptrs es)))" .
    moreover have "?h |` (- set (held_ptrs es)) = h |` (- set (held_ptrs (e # es)))"
      using False by (auto simp: held_ptrs_def restrict_map_def)
    ultimately show ?thesis using free False by simp
  qed
qed

lemma held_ptrs_entries:
  assumes "dev_inv w"
  shows "set (held_ptrs (entry (buffer (dev w)))) = set (entry_ptrs (dev w))"
    and "distinct (held_ptrs (entry (buffer (dev w))))"
proof -
  let ?b = "buffer (dev w)" and ?i = "unat (in_offs (buffer (dev w)))"
  have used: "\<forall>e \<in> set (live ?b). buffptr e \<noteq> NULL"
    using dev_invD(6) [OF assms] entry_okD(1) by blast
  have dist: "distinct (map buffptr (live ?b))" using dev_invD(4) [OF assms] by (simp add: entry_ptrs_def)
  have split: "held_ptrs (entry ?b)
      = held_ptrs (take ?i (entry ?b)) @ held_ptrs (drop ?i (entry ?b))"
    by (simp only: held_ptrs_append [symmetric] append_take_drop_id)
  have "set (held_ptrs (entry ?b)) = buffptr ` set (live ?b) \<and> distinct (held_ptrs (entry ?b))"
  proof (cases "full ?b")
    case True
    then have "held_ptrs (drop ?i (entry ?b)) @ held_ptrs (take ?i (entry ?b)) = map buffptr (live ?b)"
      using held_ptrs_used [OF used] by (simp add: live_def held_ptrs_append)
    with dist have "distinct (held_ptrs (drop ?i (entry ?b)) @ held_ptrs (take ?i (entry ?b)))"
      and "set (held_ptrs (drop ?i (entry ?b)) @ held_ptrs (take ?i (entry ?b))) = buffptr ` set (live ?b)"
      by simp_all
    then show ?thesis unfolding split by auto
  next
    case False
    then have "held_ptrs (drop ?i (entry ?b)) = []"
      using cb_wf_unused [OF dev_invD(1) [OF assms]]
      by (simp only: unused_cleared_def) (simp add: held_ptrs_unused)
    moreover have "live ?b = take ?i (entry ?b)" using False by (simp add: live_def)
    ultimately have "held_ptrs (entry ?b) = map buffptr (live ?b)"
      using held_ptrs_used [OF used] split by simp
    then show ?thesis using dist by simp
  qed
  then show "set (held_ptrs (entry ?b)) = set (entry_ptrs (dev w))"
    and "distinct (held_ptrs (entry ?b))"
    by (simp_all add: entry_ptrs_def)
qed

lemma cleanup_frees:
  assumes K: "kfree_ok K" and inv: "dev_inv (aesd_device m)"
  shows "\<exists>m'. aesd_cleanup_module K m = Inr m' \<and> heap (aesd_device m') = Map.empty
    \<and> \<not> cdev_added m'
    \<and> (chrdev_region m = Some (k_mkdev K (aesd_major m) aesd_minor) \<longrightarrow> chrdev_region m' = None)"
proof -
  let ?w = "aesd_device m"
  let ?p = "unterminated_buffptr (dev ?w)" and ?es = "entry (buffer (dev ?w))"
  let ?h = "(heap ?w)(?p := None)"
  note held = held_ptrs_entries [OF inv]
  have null: "heap ?w NULL = None" by (rule dev_invD(2) [OF inv])
  have first: "(if ?p \<noteq> NULL then kfree K (heap ?w) ?p else Inr (heap ?w)) = Inr ?h"
    using dev_inv_held [OF inv] kfree_block [OF K, of ?p "heap ?w"] null by (auto simp: fun_upd_idem)
  have sep: "?p \<notin> set (held_ptrs ?es)"
    using dev_invD(5) [OF inv] by (cases "?p = NULL") (simp add: held_ptrs_def, auto simp: held(1) pending_ptrs_def)
  then have "\<forall>q \<in> set (held_ptrs ?es). ?h q \<noteq> None"
    using entry_held [OF inv] held(1) by auto
  from free_entries_frees [OF K held(2) this]
  have second: "free_entries K ?h ?es = Inr (?h |` (- set (held_ptrs ?es)))" .
  have "dom (heap ?w) \<subseteq> insert ?p (set (held_ptrs ?es))"
    using dev_invD(3) [OF inv] held(1) by (auto simp: pending_ptrs_def)
  then have "?h |` (- set (held_ptrs ?es)) = Map.empty"
    by (auto simp: restrict_map_def dom_def fun_eq_iff subset_iff)
  with second have "free_entries K ?h ?es = Inr Map.empty" by (simp only:)
  with first show ?thesis by (simp add: aesd_cleanup_module_def Let_def)
qed

section \<open>Initialisation\<close>

lemma init_outcome:
  assumes K: "chrdev_ok K" and empty: "heap (aesd_device m) = Map.empty"
    and region: "k_alloc_chrdev_region K aesd_minor 1 = (0, devno)"
  shows "k_cdev_add K devno = 0 \<Longrightarrow> \<exists>m'. aesd_init_module K m = (0, m') \<and> dev_wf (aesd_device m')
      \<and> heap (aesd_device m') = Map.empty \<and> contents (aesd_device m') = []
      \<and> cdev_added m' \<and> chrdev_region m' = Some (k_mkdev K (aesd_major m') aesd_minor)"
    and "k_cdev_add K devno \<noteq> 0 \<Longrightarrow> \<exists>m'. aesd_init_module K m = (k_cdev_add K devno, m')
      \<and> k_cdev_add K devno < 0 \<and> chrdev_region m' = None \<and> cdev_added m' = cdev_added m"
proof -
  have dev: "k_mkdev K (k_major K devno) aesd_minor = devno" and nz: "devno \<noteq> 0"
    and le: "k_cdev_add K devno \<le> 0"
    using K region unfolding chrdev_ok_def by (metis fst_conv snd_conv less_irrefl)+
  let ?w = "(aesd_device m)\<lparr>dev := fresh_dev\<lparr>cdev_ops := True\<rparr>\<rparr>"
  have live: "live (buffer (dev ?w)) = []" "cb_wf (buffer (dev ?w))"
    by (simp_all add: fresh_dev_def init_wf live_init)
  then have wf: "dev_wf ?w \<and> contents ?w = []"
    using empty by (simp add: dev_wf_def dev_inv_def entry_ptrs_def pending_ptrs_def pending_ok_def
        contents_def stored_lines_def pending_def block_of_def) (simp add: fresh_dev_def)
  show "\<exists>m'. aesd_init_module K m = (0, m') \<and> dev_wf (aesd_device m')
      \<and> heap (aesd_device m') = Map.empty \<and> contents (aesd_device m') = []
      \<and> cdev_added m' \<and> chrdev_region m' = Some (k_mkdev K (aesd_major m') aesd_minor)"
    if "k_cdev_add K devno = 0"
    using that region dev wf empty by (simp add: aesd_init_module_def aesd_setup_cdev_def Let_def)
  show "\<exists>m'. aesd_init_module K m = (k_cdev_add K devno, m')
      \<and> k_cdev_add K devno < 0 \<and> chrdev_region m' = None \<and> cdev_added m' = cdev_added m"
    if "k_cdev_add K devno \<noteq> 0"
    using that le region dev nz by (simp add: aesd_init_module_def aesd_setup_cdev_def Let_def)
qed

end
