(* ===== verification/Aesd_Driver_History.thy ===== *)
theory Aesd_Driver_History
  imports Aesd_Driver_Seek
begin

text \<open>
  The abstract view of the device that its users have: the bytes written to it so far, cut into
  commands, of which it keeps the last ten and the unterminated rest.
\<close>

section \<open>A device as the history of its bytes\<close>

text \<open>The bytes accepted so far, cut into complete commands and a rest.\<close>

definition accept_byte :: "byte list list \<times> byte list \<Rightarrow> byte \<Rightarrow> byte list list \<times> byte list" where
  "accept_byte s b = (case s of (ls, rest) \<Rightarrow>
     if b = TERMINATOR_CHARACTER then (ls @ [rest @ [b]], []) else (ls, rest @ [b]))"

definition commands_of :: "byte list \<Rightarrow> byte list list \<times> byte list" where
  "commands_of history = foldl accept_byte ([], []) history"

definition represents :: "world \<Rightarrow> byte list \<Rightarrow> bool" where
  "represents w history \<longleftrightarrow> (case commands_of history of (ls, rest) \<Rightarrow>
     stored_lines w = drop (length ls - 10) ls \<and> pending w = rest)"

lemma accept_unterminated:
  "TERMINATOR_CHARACTER \<notin> set d \<Longrightarrow> foldl accept_byte (ls, rest) d = (ls, rest @ d)"
  by (induction d arbitrary: rest) (auto simp: accept_byte_def)

lemma accept_command:
  "TERMINATOR_CHARACTER \<notin> set d \<Longrightarrow>
     foldl accept_byte (ls, rest) (d @ [TERMINATOR_CHARACTER])
       = (ls @ [rest @ d @ [TERMINATOR_CHARACTER]], [])"
  by (simp add: accept_unterminated accept_byte_def)

text \<open>How much of the data one write takes: up to and with the first terminator.\<close>

definition accepted :: "byte list \<Rightarrow> nat" where
  "accepted data = (if TERMINATOR_CHARACTER \<in> set data
     then Suc (length (takeWhile (\<lambda>b. b \<noteq> TERMINATOR_CHARACTER) data)) else length data)"

lemma spec_write_accepted: "snd (snd (spec_write ls pend data)) = accepted data"
  by (simp add: spec_write_def accepted_def Let_def)

lemma represents_write:
  assumes rep: "represents w history" and spec: "write_done w data f ret f' w'"
  shows "ret = of_nat (accepted data)" and "f' = f + of_nat (accepted data)"
    and "represents w' (history @ take (accepted data) data)"
    and "0 < accepted data" and "accepted data \<le> length data" and "accepted data < 2 ^ 63"
proof -
  obtain ls rest where c: "foldl accept_byte ([], []) history = (ls, rest)" by fastforce
  have old: "stored_lines w = drop (length ls - 10) ls" "pending w = rest"
    using rep by (simp_all add: represents_def commands_of_def c)
  obtain n where n: "0 < n" "n \<le> length data" "n < 2 ^ 63" "ret = of_nat n" "f' = f + of_nat n"
    and s: "spec_write (stored_lines w) (pending w) data = (stored_lines w', pending w', n)"
    using spec by (auto simp: write_done_def)
  have n_eq: "n = accepted data" using spec_write_accepted [of _ _ data] s by (metis snd_conv)
  have "represents w' (history @ take n data)"
  proof (cases "TERMINATOR_CHARACTER \<in> set data")
    case False
    then show ?thesis
      using s old by (auto simp: spec_write_def represents_def commands_of_def c accept_unterminated)
  next
    case True
    let ?m = "length (takeWhile (\<lambda>b. b \<noteq> TERMINATOR_CHARACTER) data)"
    note t = spec_write_terminated [OF True]
    have n': "n = Suc ?m" using s t(4) by simp
    have cmd: "take n data = take ?m data @ [TERMINATOR_CHARACTER]"
      using t(1,2) by (simp add: n' take_Suc_conv_app_nth)
    have "commands_of (history @ take n data) = (ls @ [rest @ take n data], [])"
      unfolding commands_of_def foldl_append c cmd using accept_command [OF t(3)] by simp
    moreover have "stored_lines w' = push_bounded 10 (stored_lines w) (rest @ take n data)"
      "pending w' = []"
      using s t(4) old(2) by (simp_all add: n')
    ultimately show ?thesis
      using push_bounded_last_drop [OF old(1), of "rest @ take n data"] by (simp add: represents_def)
  qed
  with n show "ret = of_nat (accepted data)" and "f' = f + of_nat (accepted data)"
    and "represents w' (history @ take (accepted data) data)"
    and "0 < accepted data" and "accepted data \<le> length data" and "accepted data < 2 ^ 63"
    unfolding n_eq by blast+
qed

text \<open>A write of less than 100 bytes, in those terms.\<close>

lemma write_appends:
  assumes "kernel_ok K" and "dev_wf w" and "represents w history"
    and "count \<noteq> 0" and "unat count < 100"
    and "\<not> write_unallocated K count w" and "user_readable K buf count"
  shows "\<exists>w'. let data = take (unat count) buf; n = accepted data
    in 0 < n \<and> aesd_write K False buf count f w = Inr (of_nat n, f + of_nat n, w')
      \<and> dev_wf w' \<and> represents w' (history @ take n data)"
proof -
  have small: "unat count < 2 ^ 63" using assms(5) by simp
  obtain ret f' w' where w': "aesd_write K False buf count f w = Inr (ret, f', w')" "dev_wf w'"
    "write_done w (take (unat count) buf) f ret f' w'"
    using write_readable [OF assms(1,2,4) small assms(6,7), of f] assms(5) by metis
  from represents_write [OF assms(3) w'(3)] w'(1,2) show ?thesis
    by (intro exI [of _ w']) (simp add: Let_def)
qed

end
