(* ===== verification/Aesd_Demo_Kernel.thy ===== *)
theory Aesd_Demo_Kernel
  imports Aesd_Driver_Inv
begin

text \<open>
  A concrete kernel that keeps the promises of \<open>kernel_ok\<close>, so that the theorems about the
  driver can be applied to concrete devices. \<open>krealloc\<close> grows a block in place or takes the
  first free of nineteen addresses and fails beyond the kernel's limit; the user's memory can
  be read as far as it is long; device numbers split into twelve and twenty bits.
\<close>

definition demo_copy_from_user :: "byte list \<Rightarrow> byte list \<Rightarrow> u64 \<Rightarrow> u64 \<times> byte list" where
  "demo_copy_from_user dst src n =
     (if unat n \<le> length src then (0, take (unat n) src @ drop (unat n) dst) else (n, dst))"

definition demo_llseek :: "u64 \<Rightarrow> u64 \<Rightarrow> u32 \<Rightarrow> u64 \<Rightarrow> u64 \<times> u64" where
  "demo_llseek pos off whence sz =
     (let target = off + (if whence = 0 then 0 else if whence = 1 then pos else sz)
      in if 0 \<le> sint target \<and> sint target \<le> sint sz then (target, target) else (- EINVAL, pos))"

definition demo_kernel :: kernel where
  "demo_kernel =
     \<lparr>k_krealloc = simple_realloc kmalloc_limit,
      k_kfree = (\<lambda>h p. h(p := None)),
      k_copy_from_user = demo_copy_from_user,
      k_copy_to_user = (\<lambda>src n. 0),
      k_fixed_size_llseek = demo_llseek,
      k_iowr = (\<lambda>type nr sz. 0xC0000000 + of_nat sz * 0x10000 + ucast type * 0x100 + ucast nr),
      k_alloc_chrdev_region = (\<lambda>minor n. if minor = 0 then (0, 240 * 2 ^ 20) else (- 22, 0)),
      k_cdev_add = (\<lambda>devno. 0),
      k_major = (\<lambda>devno. devno div 2 ^ 20),
      k_mkdev = (\<lambda>maj minor. maj * 2 ^ 20 + minor)\<rparr>"

lemma demo_krealloc_ok: "krealloc_ok demo_kernel"
  by (simp add: krealloc_ok_def demo_kernel_def simple_realloc_ok)

lemma demo_kernel_ok: "kernel_ok demo_kernel"
proof -
  have "kfree_ok demo_kernel" "copy_from_user_ok demo_kernel" "copy_to_user_ok demo_kernel"
    by (auto simp: kfree_ok_def copy_from_user_ok_def copy_to_user_ok_def demo_kernel_def
        demo_copy_from_user_def)
  moreover have "llseek_ok demo_kernel"
    by (simp add: llseek_ok_def demo_kernel_def demo_llseek_def SEEK_SET_def)
  moreover have "chrdev_ok demo_kernel" by (simp add: chrdev_ok_def demo_kernel_def)
  ultimately show ?thesis using demo_krealloc_ok by (simp add: kernel_ok_def)
qed

section \<open>A concrete device\<close>

text \<open>Two stored commands, ``hi'' and ``you'', and the unterminated bytes ``ab''.\<close>

definition demo_buffer :: aesd_circular_buffer where
  "demo_buffer = \<lparr>entry = [\<lparr>buffptr = 1, esize = 3\<rparr>, \<lparr>buffptr = 2, esize = 4\<rparr>] @ replicate 8 empty_entry,
     in_offs = 2, out_offs = 0, full = False\<rparr>"

definition demo_world :: world where
  "demo_world = \<lparr>dev = \<lparr>lock = False, unterminated_buffptr = 3, unterminated_size = 2,
       buffer = demo_buffer, cdev_ops = True\<rparr>,
     heap = [1 \<mapsto> [104, 105, 10], 2 \<mapsto> [121, 111, 117, 10], 3 \<mapsto> [97, 98]]\<rparr>"

lemma demo_live: "live demo_buffer = [\<lparr>buffptr = 1, esize = 3\<rparr>, \<lparr>buffptr = 2, esize = 4\<rparr>]"
  by (simp add: live_def demo_buffer_def)

lemma demo_cb_wf: "cb_wf demo_buffer"
  by (simp add: cb_wf_def demo_buffer_def unused_cleared_def AESDCHAR_MAX_WRITE_OPERATIONS_SUPPORTED_def)

lemma demo_world_wf: "dev_wf demo_world"
proof -
  have "heap demo_world NULL = None" "cb_wf (buffer (dev demo_world))"
    "live (buffer (dev demo_world)) = [\<lparr>buffptr = 1, esize = 3\<rparr>, \<lparr>buffptr = 2, esize = 4\<rparr>]"
    by (simp_all add: demo_world_def demo_live demo_cb_wf)
  moreover have "dom (heap demo_world) = {1, 2, 3}" by (auto simp: demo_world_def)
  moreover have "pending_ok (heap demo_world) (dev demo_world)"
    by (simp add: demo_world_def pending_ok_def block_of_def kmalloc_limit_def
        TERMINATOR_CHARACTER_def)
  moreover have "entry_ok (heap demo_world) \<lparr>buffptr = 1, esize = 3\<rparr>"
    "entry_ok (heap demo_world) \<lparr>buffptr = 2, esize = 4\<rparr>"
    by (simp_all add: demo_world_def entry_ok_def block_of_def kmalloc_limit_def line_bytes_def
        is_line_def TERMINATOR_CHARACTER_def)
  moreover have "\<not> lock (dev demo_world)" "pending_ptrs (dev demo_world) = [3]"
    by (simp_all add: demo_world_def pending_ptrs_def)
  ultimately show ?thesis by (auto simp: dev_wf_def dev_inv_def entry_ptrs_def)
qed

lemma demo_lines: "stored_lines demo_world = [[104, 105, 10], [121, 111, 117, 10]]"
  and demo_pending: "pending demo_world = [97, 98]"
  by (simp_all add: stored_lines_def pending_def demo_world_def demo_live line_bytes_def block_of_def)

end
