(* ===== verification/Aesd_Driver_Props.thy ===== *)
theory Aesd_Driver_Props
  imports Aesd_Driver_History Aesd_Demo_Kernel
begin

text \<open>
  The properties of the driver's file operations and of its module functions, each applied to
  the concrete device of \<open>Aesd_Demo_Kernel\<close>.
\<close>

section \<open>Writing\<close>

lemma demo_allocates: "unat count \<le> 1000 \<Longrightarrow> \<not> write_unallocated demo_kernel count demo_world"
proof -
  assume "unat count \<le> 1000"
  then have "unat (2 + count) \<le> 1002" by (simp add: unat_word_ariths)
  then show ?thesis
    by (simp add: write_unallocated_def demo_kernel_def simple_realloc_def first_free_def
        demo_world_def kmalloc_limit_def Let_def)
qed

lemma demo_out_of_memory: "write_unallocated demo_kernel (2 ^ 33) demo_world"
  by (simp add: write_unallocated_def demo_kernel_def simple_realloc_def demo_world_def
      kmalloc_limit_def Let_def)

lemma demo_readable: "unat count \<le> length buf \<Longrightarrow> user_readable demo_kernel buf count"
  by (simp add: user_readable_def demo_kernel_def demo_copy_from_user_def)

lemma demo_unreadable: "length buf < unat count \<Longrightarrow> user_faults demo_kernel buf count"
  by (auto simp: user_faults_def demo_kernel_def demo_copy_from_user_def)

lemma demo_represents: "represents demo_world [104, 105, 10, 121, 111, 117, 10, 97, 98]"
  by (simp add: represents_def commands_of_def accept_byte_def TERMINATOR_CHARACTER_def
      demo_lines demo_pending)

text \<open>C4. A write of less than 100 readable bytes, when its block can be allocated, returns; it
  accepts the bytes up to and with the first terminator, advances the file position
  by what it accepted, keeps the device invariant (no leak, no dangling pointer, lock released)
  and leaves exactly the ten most recent complete commands of the whole history and the
  unterminated rest.\<close>

theorem write_stores_history:
  assumes "kernel_ok K" and "dev_wf w" and "represents w history"
    and "count \<noteq> 0" and "unat count < 100"
    and "\<not> write_unallocated K count w" and "user_readable K buf count"
  shows "\<exists>w'. let data = take (unat count) buf; n = accepted data
    in 0 < n \<and> aesd_write K False buf count f w = Inr (of_nat n, f + of_nat n, w')
      \<and> dev_wf w' \<and> represents w' (history @ take n data)"
  by (rule write_appends [OF assms])

theorem write_stores_history_witness:
  "\<exists>w'. let data = take (unat (3 :: u64)) [99, 10, 100]; n = accepted data
    in 0 < n \<and> aesd_write demo_kernel False [99, 10, 100] 3 9 demo_world
          = Inr (of_nat n, 9 + of_nat n, w')
      \<and> dev_wf w' \<and> represents w' ([104, 105, 10, 121, 111, 117, 10, 97, 98] @ take n data)"
  by (rule write_stores_history [OF demo_kernel_ok demo_world_wf demo_represents])
    (simp_all add: demo_allocates demo_readable)

text \<open>A write whose user memory faults returns \<open>-EFAULT\<close>, leaves the file position and the
  stored bytes as they were and keeps the device invariant: the block it had grown or
  allocated is kept for the pending bytes or freed.\<close>

lemma write_fault_changes_nothing:
  assumes "kernel_ok K" and "dev_wf w" and "count \<noteq> 0" and "unat count < 2 ^ 63"
    and "\<not> write_unallocated K count w" and "user_faults K buf count"
  shows "\<exists>w'. aesd_write K False buf count f w = Inr (- EFAULT, f, w') \<and> dev_wf w'
    \<and> stored_lines w' = stored_lines w \<and> pending w' = pending w"
  by (rule write_unreadable [OF assms])

lemma write_fault_changes_nothing_witness:
  "\<exists>w'. aesd_write demo_kernel False [] 5 9 demo_world = Inr (- EFAULT, 9, w') \<and> dev_wf w'
    \<and> stored_lines w' = stored_lines demo_world \<and> pending w' = pending demo_world"
  by (rule write_fault_changes_nothing [OF demo_kernel_ok demo_world_wf])
    (simp_all add: demo_allocates demo_unreadable)

text \<open>C39. The debug copy of \<open>aesd_write\<close> has no bound: every write of more than 100 readable bytes
  for which memory can be allocated writes past the 100-byte array on the kernel stack.\<close>

theorem write_overflows_debug_buffer:
  assumes "kernel_ok K" and "dev_wf w" and "100 < unat count" and "unat count < 2 ^ 63"
    and "\<not> write_unallocated K count w" and "user_readable K buf count"
  shows "aesd_write K False buf count f w = Inl Out_of_bounds"
proof -
  have "count \<noteq> 0" using assms(3) by auto
  from write_readable [OF assms(1,2) this assms(4-6), of f] show ?thesis
    using assms(3) by (metis not_less_iff_gr_or_eq)
qed

theorem write_overflows_debug_buffer_witness:
  "aesd_write demo_kernel False (replicate 101 97) 101 9 demo_world = Inl Out_of_bounds"
  by (rule write_overflows_debug_buffer [OF demo_kernel_ok demo_world_wf])
    (simp_all add: demo_allocates demo_readable)

text \<open>C38. When the allocation of a write fails while an unterminated command is pending, the
  driver overwrites its only pointer to the block: the block stays allocated but unreachable,
  the size is kept, and a read at the end of the stored commands dereferences \<open>NULL\<close>.\<close>

theorem failed_allocation_loses_pending:
  assumes "kernel_ok K" and "dev_wf w" and "count \<noteq> 0" and "unat count < 2 ^ 63"
    and "write_unallocated K count w" and "pending w \<noteq> []"
  shows "\<exists>w'. aesd_write K False buf count f w = Inr (- ENOMEM, f, w') \<and> \<not> dev_wf w'
    \<and> heap w' (unterminated_buffptr (dev w)) \<noteq> None \<and> unterminated_buffptr (dev w') = NULL
    \<and> aesd_read K False n (of_nat (length (concat (stored_lines w)))) w' = Inl Null_deref"
proof -
  let ?w' = "w\<lparr>dev := (dev w)\<lparr>unterminated_buffptr := NULL\<rparr>\<rparr>"
  have inv: "dev_inv w" using assms(2) by (simp add: dev_wf_def)
  have nn: "unterminated_buffptr (dev w) \<noteq> NULL" using no_pending [OF inv] assms(6) by simp
  have "unterminated_size (dev w) \<noteq> 0" using length_pending [OF inv] assms(6) by auto
  then have "\<not> dev_wf ?w'" by (simp add: dev_wf_def dev_inv_def pending_ok_def)
  moreover have "heap ?w' (unterminated_buffptr (dev w)) \<noteq> None"
    using dev_inv_held [OF inv] nn by simp
  moreover have "aesd_read K False n (of_nat (length (concat (stored_lines w)))) ?w' = Inl Null_deref"
    using read_target_lost [OF inv assms(6), of "with_lock True ?w'"]
    by (simp add: aesd_read_def with_lock_def deref_def Let_def)
  ultimately show ?thesis using write_without_memory [OF assms(1-5)] by simp
qed

theorem failed_allocation_loses_pending_witness:
  "\<exists>w'. aesd_write demo_kernel False [] (2 ^ 33) 9 demo_world = Inr (- ENOMEM, 9, w') \<and> \<not> dev_wf w'
    \<and> heap w' (unterminated_buffptr (dev demo_world)) \<noteq> None \<and> unterminated_buffptr (dev w') = NULL
    \<and> aesd_read demo_kernel False 4 (of_nat (length (concat (stored_lines demo_world)))) w'
        = Inl Null_deref"
  by (rule failed_allocation_loses_pending [OF demo_kernel_ok demo_world_wf])
    (simp_all add: demo_pending demo_out_of_memory [simplified])

text \<open>When no command is pending a failed allocation is reported as \<open>-ENOMEM\<close> and leaves the
  device exactly as it was.\<close>

lemma failed_allocation_harmless:
  assumes "kernel_ok K" and "dev_wf w" and "count \<noteq> 0" and "unat count < 2 ^ 63"
    and "write_unallocated K count w" and "pending w = []"
  shows "aesd_write K False buf count f w = Inr (- ENOMEM, f, w)"
proof -
  have "unterminated_buffptr (dev w) = NULL" using no_pending assms(2,6) by (simp add: dev_wf_def)
  then have "w\<lparr>dev := (dev w)\<lparr>unterminated_buffptr := NULL\<rparr>\<rparr> = w" by simp
  then show ?thesis using write_without_memory [OF assms(1-5)] by simp
qed

lemma failed_allocation_harmless_witness:
  "aesd_write demo_kernel False [] (2 ^ 33) 9 \<lparr>dev = fresh_dev, heap = Map.empty\<rparr>
    = Inr (- ENOMEM, 9, \<lparr>dev = fresh_dev, heap = Map.empty\<rparr>)"
  by (rule failed_allocation_harmless [OF demo_kernel_ok fresh_dev_wf])
    (simp_all add: pending_def fresh_dev_def write_unallocated_def demo_kernel_def
      simple_realloc_def kmalloc_limit_def Let_def)

section \<open>Reading\<close>

lemma demo_writable: "user_writable demo_kernel"
  by (simp add: user_writable_def demo_kernel_def)

text \<open>C26. A read of less than 100 bytes returns: it delivers the bytes of the device that start
  at the file position, none only at the end of the contents, advances the position by what it
  delivered and changes nothing in the device.\<close>

theorem read_delivers_contents:
  assumes "dev_wf w" and "unat f < 2 ^ 63" and "user_writable K"
    and "0 < unat count" and "unat count < 100"
  shows "\<exists>n. n \<le> unat count \<and> (n = 0 \<longleftrightarrow> length (contents w) \<le> unat f)
    \<and> aesd_read K False count f w
        = Inr (of_nat n, f + of_nat n, take n (drop (unat f) (contents w)), w)"
proof -
  let ?bs = "read_chunk w (unat f) (unat count)"
  have le: "length ?bs \<le> unat count" by (rule read_chunk_le)
  then have "aesd_read K False count f w = Inr (of_nat (length ?bs), f + of_nat (length ?bs), ?bs, w)"
    using assms by (intro read_returns) simp_all
  moreover have "length ?bs = 0 \<longleftrightarrow> length (contents w) \<le> unat f"
    using read_chunk_empty [of w "unat f" "unat count"] assms(4) by simp
  ultimately show ?thesis
    using le read_chunk_prefix [of w "unat f" "unat count"] by (intro exI [of _ "length ?bs"]) simp
qed

theorem read_delivers_contents_witness:
  "\<exists>n. n \<le> unat (50 :: u64) \<and> (n = 0 \<longleftrightarrow> length (contents demo_world) \<le> unat (4 :: u64))
    \<and> aesd_read demo_kernel False 50 4 demo_world
        = Inr (of_nat n, 4 + of_nat n, take n (drop (unat (4 :: u64)) (contents demo_world)), demo_world)"
  by (rule read_delivers_contents [OF demo_world_wf _ demo_writable]) simp_all

text \<open>C7. A reader that repeats its reads until one returns nothing ends, and has then received
  exactly the contents of the device from its starting position on.\<close>

theorem read_all_reads_everything:
  assumes "dev_wf w" and "user_writable K" and "0 < unat count" and "unat count < 100"
    and "unat f < 2 ^ 62" and "length (contents w) - unat f < fuel"
  shows "read_all K fuel count f w = Inr (drop (unat f) (contents w))"
  by (rule read_all_delivers [OF assms])

theorem read_all_reads_everything_witness:
  "read_all demo_kernel 10 2 1 demo_world = Inr [105, 10, 121, 111, 117, 10, 97, 98]"
  using read_all_reads_everything [OF demo_world_wf demo_writable, of 2 1 10]
  by (simp add: contents_def demo_lines demo_pending)

text \<open>A read whose user memory faults returns \<open>-EFAULT\<close> and leaves the file position and the
  device as they were.\<close>

lemma read_fault_changes_nothing:
  assumes "dev_wf w" and "unat f < length (contents w)" and "0 < unat count" and "unat count < 100"
    and "\<forall>src n. n \<noteq> 0 \<longrightarrow> k_copy_to_user K src n \<noteq> 0"
  shows "\<exists>bs. aesd_read K False count f w = Inr (- EFAULT, f, bs, w)"
proof -
  let ?bs = "read_chunk w (unat f) (unat count)"
  have len: "length ?bs < 100" "?bs \<noteq> []"
    using read_chunk_le [of w "unat f" "unat count"] read_chunk_empty [of w "unat f" "unat count"]
      assms(2-4) by auto
  have f: "unat f < 2 ^ 63" using contents_small [of w] assms(1,2) by (simp add: dev_wf_def)
  from read_faults [OF assms(1) f assms(5) len] show ?thesis .
qed

lemma read_fault_changes_nothing_witness:
  "\<exists>bs. aesd_read (demo_kernel\<lparr>k_copy_to_user := \<lambda>src n. n\<rparr>) False 5 4 demo_world
    = Inr (- EFAULT, 4, bs, demo_world)"
  by (rule read_fault_changes_nothing [OF demo_world_wf])
    (simp_all add: contents_def demo_lines demo_pending)

text \<open>A device that holds one unterminated command of 101 bytes.\<close>

definition long_world :: world where
  "long_world = \<lparr>dev = fresh_dev\<lparr>unterminated_buffptr := 1, unterminated_size := 101\<rparr>,
     heap = [1 \<mapsto> replicate 101 97]\<rparr>"

lemma long_world_wf: "dev_wf long_world"
  by (simp add: dev_wf_def dev_inv_def long_world_def fresh_dev_def init_wf live_init entry_ptrs_def
      pending_ptrs_def pending_ok_def block_of_def kmalloc_limit_def TERMINATOR_CHARACTER_def)

lemma long_segments: "segments long_world = [replicate 101 97]"
  by (simp add: segments_def stored_lines_def pending_def long_world_def fresh_dev_def live_init
      block_of_def)

text \<open>The debug copy of \<open>aesd_read\<close> has no bound either: a read that would deliver more than
  100 bytes of one command writes past the 100-byte array on the kernel stack.\<close>

lemma read_overflows_debug_buffer:
  assumes "dev_wf w" and "locate (map length (segments w)) (unat f) = Some (k, r)"
    and "unat f < 2 ^ 63" and "r + 100 < length (segments w ! k)" and "100 < unat count"
  shows "aesd_read K False count f w = Inl Out_of_bounds"
  using assms by (intro read_overflows) (simp_all add: read_chunk_def)

lemma read_overflows_debug_buffer_witness:
  "aesd_read demo_kernel False 4096 0 long_world = Inl Out_of_bounds"
  by (rule read_overflows_debug_buffer [OF long_world_wf, of _ 0 0]) (simp_all add: long_segments)

section \<open>Every history of operations\<close>

text \<open>The write of which C38 shows the effect: it is let in, and its allocation fails while a command
  is pending.\<close>

definition loses_pending :: "kernel \<Rightarrow> bool \<Rightarrow> u64 \<Rightarrow> world \<Rightarrow> bool" where
  "loses_pending K intr count w \<longleftrightarrow>
     \<not> intr \<and> count \<noteq> 0 \<and> write_unallocated K count w \<and> pending w \<noteq> []"

text \<open>Writes and reads in any order, with any outcome that returns. The Boolean says whether an
  allocation has failed while a command was pending; the list holds the bytes the device
  reported as accepted.\<close>

inductive dev_run :: "kernel \<Rightarrow> world \<Rightarrow> bool \<Rightarrow> byte list \<Rightarrow> world \<Rightarrow> bool" for K w where
  start: "dev_run K w False [] w"
| do_write: "dev_run K w lost acc v \<Longrightarrow> unat count < 2 ^ 63 \<Longrightarrow>
    aesd_write K intr buf count f v = Inr (ret, f', v') \<Longrightarrow>
    dev_run K w (lost \<or> loses_pending K intr count v)
      (acc @ (if sint ret < 0 then [] else take (unat ret) buf)) v'"
| do_read: "dev_run K w lost acc v \<Longrightarrow> aesd_read K intr count f v = Inr (ret, f', bs, v') \<Longrightarrow>
    dev_run K w lost acc v'"

lemma write_returns_unless_lost:
  assumes K: "kernel_ok K" and wf: "dev_wf w" and small: "unat count < 2 ^ 63"
    and kept: "\<not> loses_pending K intr count w"
    and ret: "aesd_write K intr buf count f w = Inr (ret, f', w')"
  shows "dev_wf w' \<and> (unat count \<le> length buf \<and> write_done w (take (unat count) buf) f ret f' w'
    \<or> sint ret < 0 \<and> f' = f \<and> stored_lines w' = stored_lines w \<and> pending w' = pending w)"
proof (cases "\<not> intr \<and> count \<noteq> 0 \<and> write_unallocated K count w")
  case True
  then have "aesd_write K intr buf count f w = Inr (- ENOMEM, f, w)"
    using failed_allocation_harmless [OF K wf _ small] kept by (simp add: loses_pending_def)
  then show ?thesis using ret wf sint_ENOMEM by auto
next
  case False
  show ?thesis
  proof (cases intr)
    case True
    have "sint (- ERESTARTSYS) < 0" by (simp add: ERESTARTSYS_def)
    with True ret wf show ?thesis by (auto simp: aesd_write_def)
  next
    case not_intr: False
    show ?thesis by (rule write_returns [OF K wf small _ ret]) (use False not_intr in blast)
  qed
qed

lemma dev_run_wf:
  assumes "kernel_ok K" and "dev_wf w" and "dev_run K w lost acc v" and "\<not> lost"
  shows "dev_wf v"
  using assms(3,4)
proof (induction rule: dev_run.induct)
  case (do_write lost acc v count intr buf f ret f' v')
  then have "dev_wf v" and "\<not> loses_pending K intr count v" by simp_all
  from write_returns_unless_lost [OF assms(1) this(1) do_write.hyps(2) this(2) do_write.hyps(3)]
  show ?case by blast
qed (use assms(2) read_keeps_device in blast)+

text \<open>C5. The device is a faithful log: after any sequence of writes and reads that return, with
  interruptions, faults, empty and partial writes and failed allocations in it, the device
  invariant holds and the device represents the old history followed by the accepted bytes,
  provided that no allocation has failed while a command was pending. That one write, which
  loses the pending command (C38), is the only one left out.\<close>

theorem device_is_its_history:
  assumes "kernel_ok K" and "dev_wf w" and "represents w history" and "dev_run K w lost acc v"
    and "\<not> lost"
  shows "dev_wf v \<and> represents v (history @ acc)"
  using assms(4,5)
proof (induction rule: dev_run.induct)
  case start
  then show ?case using assms by simp
next
  case (do_read lost acc v intr count f ret f' bs v')
  then show ?case using read_keeps_device by blast
next
  case (do_write lost acc v count intr buf f ret f' v')
  have wf: "dev_wf v" and rep: "represents v (history @ acc)"
    and kept: "\<not> loses_pending K intr count v" using do_write.IH do_write.prems by simp_all
  have "dev_wf v' \<and> (unat count \<le> length buf
        \<and> write_done v (take (unat count) buf) f ret f' v'
      \<or> sint ret < 0 \<and> f' = f \<and> stored_lines v' = stored_lines v \<and> pending v' = pending v)"
    by (rule write_returns_unless_lost [OF assms(1) wf do_write.hyps(2) kept do_write.hyps(3)])
  then show ?case
  proof (elim conjE disjE)
    assume v': "dev_wf v'" "unat count \<le> length buf" "write_done v (take (unat count) buf) f ret f' v'"
    note n = represents_write [OF rep v'(3)]
    have "unat ret = accepted (take (unat count) buf)"
      using n(1,6) by (simp add: unat_of_nat_u64)
    moreover have "0 \<le> sint ret" using write_done_nonneg [OF v'(3)] .
    moreover have "take (accepted (take (unat count) buf)) (take (unat count) buf)
        = take (accepted (take (unat count) buf)) buf"
      using n(5) by (simp add: min_absorb1)
    ultimately show ?thesis using n(3) v'(1) by simp
  qed (use rep in \<open>simp add: represents_def\<close>)
qed

theorem device_is_its_history_witness:
  "\<exists>v. dev_run demo_kernel demo_world False [99, 10] v \<and> dev_wf v
    \<and> represents v ([104, 105, 10, 121, 111, 117, 10, 97, 98] @ [99, 10])"
proof -
  obtain ret f' w' where written: "aesd_write demo_kernel False [99, 10] 2 9 demo_world = Inr (ret, f', w')"
    and d: "write_done demo_world (take (unat (2 :: u64)) [99, 10]) 9 ret f' w'"
    by (rule write_readable [OF demo_kernel_ok demo_world_wf, of 2 "[99, 10]" 9])
      (auto simp: demo_allocates demo_readable)
  have "ret = 2"
    using represents_write(1) [OF demo_represents d] by (simp add: accepted_def TERMINATOR_CHARACTER_def)
  moreover have "\<not> loses_pending demo_kernel False 2 demo_world"
    using demo_allocates [of 2] by (simp add: loses_pending_def)
  moreover have "dev_run demo_kernel demo_world (False \<or> loses_pending demo_kernel False 2 demo_world)
      ([] @ (if sint ret < 0 then [] else take (unat ret) [99, 10])) w'"
    by (rule dev_run.do_write [OF dev_run.start _ written]) simp
  ultimately have run: "dev_run demo_kernel demo_world False [99, 10] w'" by simp
  from run device_is_its_history [OF demo_kernel_ok demo_world_wf demo_represents run]
  show ?thesis by blast
qed

section \<open>Seeking\<close>

text \<open>C25. The ioctl answers every request: an unknown command number and a faulting argument get
  their errors; a seek to a stored command and a byte inside it moves the file to that byte of
  the contents, any other seek is refused with \<open>-EINVAL\<close> and leaves the position.\<close>

theorem ioctl_seeks_to_command:
  assumes "kernel_ok K" and "dev_wf w"
    and "\<forall>a. arg = Some a \<longrightarrow> unat (write_cmd (u64_as_seekto a)) < 256"
  shows "aesd_ioctl K False cmd arg pos w = Inr
    (if cmd \<noteq> AESDCHAR_IOCSEEKTO (k_iowr K) then (- ENOTTY, pos)
     else case arg of None \<Rightarrow> (- EFAULT, pos)
       | Some a \<Rightarrow> (case position_of (map length (stored_lines w))
                       (unat (write_cmd (u64_as_seekto a))) (unat (write_cmd_offset (u64_as_seekto a))) of
            None \<Rightarrow> (- EINVAL, pos) | Some p \<Rightarrow> (of_nat p, of_nat p)))"
  using assms(3) seek_outcome [OF assms(1,2)] by (auto simp: aesd_ioctl_def split: option.splits)

theorem ioctl_seeks_to_command_witness:
  "aesd_ioctl demo_kernel False (AESDCHAR_IOCSEEKTO (k_iowr demo_kernel))
     (Some (seekto_as_u64 (Seekto 1 2))) 0 demo_world = Inr (5, 5)"
  using ioctl_seeks_to_command [OF demo_kernel_ok demo_world_wf,
      of "Some (seekto_as_u64 (Seekto 1 2))" "AESDCHAR_IOCSEEKTO (k_iowr demo_kernel)" 0]
  by (simp add: seekto_overlay demo_lines position_of_def)

text \<open>C8. Seeking to byte \<open>r\<close> of stored command \<open>k\<close> and reading delivers the bytes of that
  command from \<open>r\<close> on, and nothing of the next command.\<close>

theorem seek_then_read:
  assumes "kernel_ok K" and "dev_wf w" and "user_writable K"
    and "k < length (stored_lines w)" and "r < length (stored_lines w ! k)"
    and "0 < unat count" and "unat count < 100"
  shows "\<exists>p. aesd_iocseekto K False (of_nat k) (of_nat r) pos w = Inr (p, p)
    \<and> (let bs = take (unat count) (drop r (stored_lines w ! k))
       in aesd_read K False count p w = Inr (of_nat (length bs), p + of_nat (length bs), bs, w))"
proof -
  let ?ss = "map length (stored_lines w)"
  let ?p = "sum_list (take k ?ss) + r"
  have inv: "dev_inv w" using assms(2) by (simp add: dev_wf_def)
  have k10: "k < 10"
    using assms(4) live_le_10 [OF dev_invD(1) [OF inv]] by (simp add: stored_lines_def)
  have d: "describes (heap w) (live (buffer (dev w)) ! k) (stored_lines w ! k)"
    using assms(4) by (intro describes_entry [OF inv]) (simp add: stored_lines_def)
  have "length (stored_lines w ! k) \<le> kmalloc_limit"
    unfolding describes_length [OF d] using d by (simp only: describes_def)
  then have r: "r < 2 ^ 32" using assms(5) by (simp add: kmalloc_limit_def)
  have pos: "position_of ?ss k r = Some ?p" using assms(4,5) by (simp add: position_of_def)
  have loc: "locate ?ss ?p = Some (k, r)" using assms(4,5) by (intro locate_position) simp_all
  then have loc': "locate (map length (segments w)) ?p = Some (k, r)"
    by (simp add: segments_def locate_append)
  have "?p < sum_list ?ss" by (rule position_of_less [OF pos])
  then have p: "?p < 2 ^ 63" using sizes_total_small [OF inv] by (simp add: sizes_lines [OF inv])
  have up: "unat (of_nat ?p :: u64) = ?p" using p by (intro unat_of_nat_u64) simp
  have seek: "aesd_iocseekto K False (of_nat k) (of_nat r) pos w = Inr (of_nat ?p, of_nat ?p)"
    using seek_outcome [OF assms(1,2), of "of_nat k" "of_nat r" pos] k10 r pos
    by (simp add: unat_of_nat_u32)
  have bs: "read_chunk w (unat (of_nat ?p :: u64)) (unat count)
      = take (unat count) (drop r (stored_lines w ! k))"
    unfolding up using loc' assms(4) by (simp add: read_chunk_def segments_def nth_append)
  note delivered = read_returns [OF assms(2) _ assms(3), of "of_nat ?p" count, unfolded bs]
  have "aesd_read K False count (of_nat ?p) w =
      (let bs = take (unat count) (drop r (stored_lines w ! k))
       in Inr (of_nat (length bs), of_nat ?p + of_nat (length bs), bs, w))"
    unfolding Let_def
  proof (rule delivered)
    show "unat (of_nat ?p :: u64) < 2 ^ 63" unfolding up by (rule p)
    show "length (take (unat count) (drop r (stored_lines w ! k))) < 100" using assms(7) by simp
  qed
  with seek show ?thesis by (intro exI [of _ "of_nat ?p"]) (simp add: Let_def)
qed

theorem seek_then_read_witness:
  "\<exists>p. aesd_iocseekto demo_kernel False (of_nat 1) (of_nat 1) 7 demo_world = Inr (p, p)
    \<and> (let bs = take (unat (50 :: u64)) (drop 1 (stored_lines demo_world ! 1))
       in aesd_read demo_kernel False 50 p demo_world
            = Inr (of_nat (length bs), p + of_nat (length bs), bs, demo_world))"
  by (rule seek_then_read [OF demo_kernel_ok demo_world_wf demo_writable])
    (simp_all add: demo_lines)

text \<open>The command number of a seek is cut to eight bits on its way into the circular buffer:
  command 256, which no device holds, moves the file to the start of the oldest command instead
  of being refused.\<close>

lemma seek_accepts_missing_command:
  assumes "kernel_ok K" and "dev_wf w" and "stored_lines w \<noteq> []"
  shows "aesd_iocseekto K False 256 0 pos w = Inr (0, 0)"
proof -
  have inv: "dev_inv w" using assms(2) by (simp add: dev_wf_def)
  obtain l ls where l: "stored_lines w = l # ls" using assms(3) by (cases "stored_lines w") auto
  obtain e es where e: "live (buffer (dev w)) = e # es" "l = line_bytes (heap w) e"
    using l by (auto simp: stored_lines_def)
  have "l \<noteq> []" using entry_okD(4) [OF dev_invD(6) [OF inv, of e]] e by (simp add: is_line_def)
  then have "position_of (map length (stored_lines w)) 0 0 = Some 0" using l by (simp add: position_of_def)
  then show ?thesis using seek_outcome [OF assms(1,2), of 256 0 pos] by simp
qed

lemma seek_accepts_missing_command_witness:
  "aesd_iocseekto demo_kernel False 256 0 7 demo_world = Inr (0, 0)"
  by (rule seek_accepts_missing_command [OF demo_kernel_ok demo_world_wf]) (simp add: demo_lines)

section \<open>The life of the module\<close>

definition unloaded :: module where
  "unloaded = \<lparr>chrdev_region = None, cdev_added = False, aesd_major = 0,
     aesd_device = \<lparr>dev = fresh_dev, heap = Map.empty\<rparr>\<rparr>"

text \<open>C9. Loading the module, any writes and reads that return, and unloading it give back everything: no
  block stays allocated, none is freed twice, the device is removed and its number is
  unregistered. The use may contain interrupted, faulting and refused calls, and failed allocations
  except one while a command is pending, which loses its block for good (C38).\<close>

theorem module_gives_everything_back:
  assumes "kernel_ok K" and "heap (aesd_device m0) = Map.empty"
    and "k_alloc_chrdev_region K aesd_minor 1 = (0, devno)" and "k_cdev_add K devno = 0"
    and "aesd_init_module K m0 = (r, m)" and "dev_run K (aesd_device m) lost acc v"
    and "\<not> lost"
  shows "r = 0 \<and> (\<exists>m'. aesd_cleanup_module K (m\<lparr>aesd_device := v\<rparr>) = Inr m'
    \<and> heap (aesd_device m') = Map.empty \<and> \<not> cdev_added m' \<and> chrdev_region m' = None)"
proof -
  from init_outcome(1) [OF kernel_okD(6) [OF assms(1)] assms(2-4)] assms(5)
  have m: "r = 0" "dev_wf (aesd_device m)" "contents (aesd_device m) = []"
    "chrdev_region m = Some (k_mkdev K (aesd_major m) aesd_minor)"
    by auto
  have "dev_wf v" using dev_run_wf [OF assms(1) m(2) assms(6,7)] .
  then have "dev_inv (aesd_device (m\<lparr>aesd_device := v\<rparr>))" by (simp add: dev_wf_def)
  from cleanup_frees [OF kernel_okD(2) [OF assms(1)] this] m(1,4) show ?thesis by auto
qed

theorem module_gives_everything_back_witness:
  "\<exists>r m. aesd_init_module demo_kernel unloaded = (r, m) \<and> r = 0
    \<and> (\<exists>m'. aesd_cleanup_module demo_kernel (m\<lparr>aesd_device := aesd_device m\<rparr>) = Inr m'
      \<and> heap (aesd_device m') = Map.empty \<and> \<not> cdev_added m' \<and> chrdev_region m' = None)"
proof -
  obtain r m where rm: "aesd_init_module demo_kernel unloaded = (r, m)" by fastforce
  from module_gives_everything_back [OF demo_kernel_ok _ _ _ rm dev_run.start, of "240 * 2 ^ 20"] rm
  show ?thesis by (auto simp: unloaded_def demo_kernel_def aesd_minor_def)
qed

text \<open>When \<open>cdev_add\<close> fails, loading the module returns its error and unregisters the device
  number again.\<close>

lemma init_failure_unregisters:
  assumes "kernel_ok K" and "heap (aesd_device m) = Map.empty"
    and "k_alloc_chrdev_region K aesd_minor 1 = (0, devno)" and "k_cdev_add K devno \<noteq> 0"
  shows "\<exists>m'. aesd_init_module K m = (k_cdev_add K devno, m') \<and> k_cdev_add K devno < 0
    \<and> chrdev_region m' = None \<and> cdev_added m' = cdev_added m"
  using init_outcome(2) [OF kernel_okD(6) [OF assms(1)] assms(2-4)] .

lemma init_failure_unregisters_witness:
  "\<exists>m'. aesd_init_module (demo_kernel\<lparr>k_cdev_add := \<lambda>d. - 12\<rparr>) unloaded = (- 12, m')
    \<and> (- 12 :: int) < 0 \<and> chrdev_region m' = None \<and> cdev_added m' = cdev_added unloaded"
proof -
  have ok: "kernel_ok (demo_kernel\<lparr>k_cdev_add := \<lambda>d. - 12\<rparr>)"
    using demo_kernel_ok
    by (simp add: kernel_ok_def krealloc_ok_def kfree_ok_def copy_from_user_ok_def
        copy_to_user_ok_def llseek_ok_def chrdev_ok_def)
  show ?thesis
    using init_failure_unregisters [OF ok, of unloaded "240 * 2 ^ 20"]
    by (simp add: unloaded_def demo_kernel_def aesd_minor_def)
qed

end
