(* ===== verification/Aesd_Driver_Calls.thy ===== *)
theory Aesd_Driver_Calls
  imports Aesd_Driver_Seek Aesd_Demo_Kernel
begin

text \<open>
  The driver as its callers see it: the file operations that the table \<open>aesd_fops\<close> of
  \<open>aesd-char-driver/main.c\<close> offers on an open file, one call after the other. On a
  well-formed device every call of fewer than 100 bytes ends with one of the results below.
\<close>

section \<open>Calls on an open file\<close>

datatype file_call =
  Read_call u64
| Write_call "byte list" u64
| Llseek_call u64 u32
| Ioctl_call u32 "u64 option"

text \<open>The result of the call, the bytes delivered to the caller, the file position and the device.
  \<open>intr\<close>: a signal ends the wait for the mutex.\<close>

definition aesd_fops :: "kernel \<Rightarrow> bool \<Rightarrow> file_call \<Rightarrow> u64 \<Rightarrow> world \<Rightarrow> stop + (u64 \<times> byte list \<times> u64 \<times> world)" where
  "aesd_fops K intr call f_pos w =
     (case call of
        Read_call count \<Rightarrow>
          andThen (aesd_read K intr count f_pos w) (\<lambda>(ret, f_pos', bs, w'). Inr (ret, bs, f_pos', w'))
      | Write_call buf count \<Rightarrow>
          andThen (aesd_write K intr buf count f_pos w) (\<lambda>(ret, f_pos', w'). Inr (ret, [], f_pos', w'))
      | Llseek_call offset whence \<Rightarrow>
          (case aesd_llseek K intr offset whence f_pos w of (ret, f_pos') \<Rightarrow> Inr (ret, [], f_pos', w))
      | Ioctl_call cmd arg \<Rightarrow>
          andThen (aesd_ioctl K intr cmd arg f_pos w) (\<lambda>(ret, f_pos'). Inr (ret, [], f_pos', w)))"

fun perform :: "kernel \<Rightarrow> (bool \<times> file_call) list \<Rightarrow> u64 \<Rightarrow> world \<Rightarrow> stop + (u64 list \<times> u64 \<times> world)" where
  "perform K [] f_pos w = Inr ([], f_pos, w)"
| "perform K ((intr, call) # calls) f_pos w =
     andThen (aesd_fops K intr call f_pos w) (\<lambda>(ret, _, f_pos', w').
     andThen (perform K calls f_pos' w') (\<lambda>(rets, r). Inr (ret # rets, r)))"

text \<open>A count or a position, or one of the errors the driver reports.\<close>

definition call_results :: "u64 set" where
  "call_results = {r. 0 \<le> sint r} \<union> {- ERESTARTSYS, - EFAULT, - ENOMEM, - EINVAL, - ENOTTY}"

fun short_call :: "file_call \<Rightarrow> bool" where
  "short_call (Read_call count) \<longleftrightarrow> unat count < 100"
| "short_call (Write_call buf count) \<longleftrightarrow> unat count < 100"
| "short_call _ \<longleftrightarrow> True"

section \<open>Every call ends\<close>

lemma unat_add_le: "unat (a + b) \<le> unat a + unat b" for a b :: "'a :: len word"
  by (simp add: unat_word_ariths)

lemma write_ends:
  assumes K: "kernel_ok K" and wf: "dev_wf w" and short: "unat count < 100"
    and ok: "count \<noteq> 0 \<Longrightarrow> \<not> write_unallocated K count w"
  obtains ret f' w' where "aesd_write K intr buf count f w = Inr (ret, f', w')" and "ret \<in> call_results"
    and "dev_wf w'" and "unat f' \<le> unat f + 100" and "length (pending w') \<le> length (pending w) + 100"
proof -
  consider intr | (empty) "\<not> intr" "count = 0" | (full) "\<not> intr" "count \<noteq> 0" by blast
  then show thesis
  proof cases
    case 1
    then show thesis using wf by (intro that [of "- ERESTARTSYS" f w]) (simp_all add: aesd_write_def call_results_def)
  next
    case empty
    then show thesis
      using write_empty [OF wf, of K buf f] wf by (intro that [of "- ENOMEM" f w]) (simp_all add: call_results_def)
  next
    case full
    have small: "unat count < 2 ^ 63" and inv: "dev_inv (with_lock True w)"
      and alloc: "\<not> write_unallocated K count (with_lock True w)"
      using short wf ok [OF full(2)] by (simp_all add: dev_wf_def)
    obtain r e g v where body: "write_body K buf count f (with_lock True w) = Inr (r, e, g, v)"
      using write_body_ends [OF K inv full(2) short alloc] by blast
    show thesis
    proof (rule write_after_body [OF K wf full(2) small ok [OF full(2)] body])
      fix ret f' w'
      assume call: "aesd_write K False buf count f w = Inr (ret, f', w')" "dev_wf w'"
        and outcome: "unat count \<le> length buf \<and> write_done w (take (unat count) buf) f ret f' w'
          \<or> ret = - EFAULT \<and> f' = f \<and> stored_lines w' = stored_lines w \<and> pending w' = pending w"
      have "ret \<in> call_results \<and> unat f' \<le> unat f + 100 \<and> length (pending w') \<le> length (pending w) + 100"
        using outcome
      proof (elim disjE conjE)
        assume d: "write_done w (take (unat count) buf) f ret f' w'"
        then obtain n where n: "n \<le> unat count" "f' = f + of_nat n"
          "spec_write (stored_lines w) (pending w) (take (unat count) buf) = (stored_lines w', pending w', n)"
          by (auto simp: write_done_def)
        have "unat f' \<le> unat f + n"
          using unat_add_le [of f "of_nat n"] n(1) short by (simp add: n(2) unat_of_nat_u64)
        moreover have "length (pending w') \<le> length (pending w) + unat count"
          using n(3) by (auto simp: spec_write_def Let_def dest!: sym [of "pending w @ take (unat count) buf"] split: if_splits)
        ultimately show ?thesis using write_done_nonneg [OF d] n(1) short by (simp add: call_results_def)
      qed (simp add: call_results_def)
      with call full show thesis by (intro that [of ret f' w']) auto
    qed
  qed
qed

lemma read_ends:
  assumes wf: "dev_wf w" and f: "unat f < 2 ^ 63" and short: "unat count < 100"
  obtains ret f' bs where "aesd_read K intr count f w = Inr (ret, f', bs, w)" and "ret \<in> call_results"
    and "unat f' \<le> unat f + 100"
proof (cases intr)
  case True
  then show thesis by (intro that [of "- ERESTARTSYS" f "[]"]) (simp_all add: aesd_read_def call_results_def)
next
  case live: False
  let ?bs = "read_chunk w (unat f) (unat count)"
  have len: "length ?bs < 100" using read_chunk_le [of w "unat f" "unat count"] short by linarith
  show thesis
  proof (cases "locate (map length (segments w)) (unat f)")
    case None
    then have "length (contents w) \<le> unat f" by (simp only: locate_segments_None)
    with read_at_end [OF wf f this, of K count] live show thesis
      by (intro that [of 0 f "[]"]) (simp_all add: call_results_def)
  next
    case (Some kr)
    obtain k r where loc: "locate (map length (segments w)) (unat f) = Some (k, r)"
      using Some by (cases kr) auto
    obtain src where src: "length ?bs \<le> length src" "aesd_read K False count f w =
        andThen (pdebug_copy src (length ?bs)) (\<lambda>_.
          let error = k_copy_to_user K src (of_nat (length ?bs))
          in if error \<noteq> 0
             then Inr (- EFAULT, f, take (unat (of_nat (length ?bs) - error)) src, w)
             else Inr (of_nat (length ?bs), f + of_nat (length ?bs), ?bs, w))"
      by (rule read_located [OF wf f loc, of count K])
    have "pdebug_copy src (length ?bs) = Inr ()"
      using len by (simp add: pdebug_copy_cases [OF src(1)])
    moreover have "unat (f + of_nat (length ?bs)) \<le> unat f + 100"
      using unat_add_le [of f "of_nat (length ?bs)"] len by (simp add: unat_of_nat_u64)
    moreover have "0 \<le> sint (of_nat (length ?bs) :: u64)"
      using sint_neg_iff [of "of_nat (length ?bs)"] len by (simp add: unat_of_nat_u64)
    ultimately show thesis
      using src(2) live that by (cases "k_copy_to_user K src (of_nat (length ?bs)) = 0") (auto simp: call_results_def)
  qed
qed

text \<open>The documented results of \<open>fixed_size_llseek\<close>, for every value of \<open>whence\<close>.\<close>

definition llseek_bounded :: "kernel \<Rightarrow> bool" where
  "llseek_bounded K \<longleftrightarrow> (\<forall>pos off whence sz. 0 \<le> sint sz \<longrightarrow>
     (case k_fixed_size_llseek K pos off whence sz of (ret, pos') \<Rightarrow>
        (ret = pos' \<or> ret = - EINVAL \<and> pos' = pos) \<and> (pos' = pos \<or> 0 \<le> sint pos' \<and> sint pos' \<le> sint sz)))"

lemma nonneg_result: "unat r < 2 ^ 63 \<Longrightarrow> r \<in> call_results"
  using sint_small [of r] by (simp add: call_results_def)

lemma llseek_ends:
  assumes K: "llseek_bounded K" and wf: "dev_wf w" and f: "unat f < 2 ^ 63"
  obtains ret f' where "aesd_llseek K intr off whence f w = (ret, f')" and "ret \<in> call_results"
    and "f' = f \<or> unat f' < 2 ^ 37"
proof (cases intr)
  case True
  then show thesis by (intro that [of "- ERESTARTSYS" f]) (simp_all add: aesd_llseek_def call_results_def)
next
  case False
  have inv: "dev_inv w" using wf by (simp add: dev_wf_def)
  let ?sz = "aesd_circular_buffer_size (buffer (dev w))"
  have sz: "unat ?sz < 2 ^ 36" using unat_buffer_size [OF inv] sizes_total_small [OF inv] by simp
  then have ssz: "sint ?sz = int (unat ?sz)" by (intro sint_small) simp
  obtain ret f' where call: "k_fixed_size_llseek K f off whence ?sz = (ret, f')" by fastforce
  have "0 \<le> sint ?sz" using ssz by simp
  then have r: "(ret = f' \<or> ret = - EINVAL \<and> f' = f) \<and> (f' = f \<or> 0 \<le> sint f' \<and> sint f' \<le> sint ?sz)"
    using K [unfolded llseek_bounded_def, rule_format, of ?sz f off whence] call by simp
  have small: "unat f' < 2 ^ 37" if "0 \<le> sint f'" "sint f' \<le> sint ?sz"
  proof -
    have "sint f' = int (unat f')" using that(1) sint_neg_iff [of f'] sint_small [of f'] by (simp add: not_le)
    then have "int (unat f') \<le> int (unat ?sz)" using that(2) by (simp only: ssz)
    then have "unat f' \<le> unat ?sz" by (simp only: of_nat_le_iff)
    with sz show ?thesis by simp
  qed
  then have "unat f' < 2 ^ 63" using r f by fastforce
  then have "ret \<in> call_results" using r nonneg_result by (auto simp: call_results_def)
  with r small False call show thesis by (intro that [of ret f']) (auto simp: aesd_llseek_def)
qed

lemma ioctl_ends:
  assumes K: "kernel_ok K" and wf: "dev_wf w"
  obtains ret f' where "aesd_ioctl K intr cmd arg f w = Inr (ret, f')" and "ret \<in> call_results"
    and "f' = f \<or> unat f' < 2 ^ 37"
proof -
  have inv: "dev_inv w" using wf by (simp add: dev_wf_def)
  have "\<exists>ret f'. aesd_iocseekto K intr c off f w = Inr (ret, f') \<and> ret \<in> call_results
    \<and> (f' = f \<or> unat f' < 2 ^ 37)" for c off
  proof (cases intr)
    case False
    show ?thesis
    proof (cases "position_of (map length (stored_lines w)) (unat c mod 256) (unat off)")
      case (Some n)
      have n: "n < 2 ^ 36"
        using position_of_less [OF Some] sizes_total_small [OF inv] by (simp add: sizes_lines [OF inv])
      then have "unat (of_nat n :: u64) = n" by (intro unat_of_nat_u64) simp
      with n Some False seek_outcome [OF K wf, of c off f] nonneg_result [of "of_nat n"] show ?thesis by simp
    qed (use False seek_outcome [OF K wf, of c off f] in \<open>simp add: call_results_def\<close>)
  qed (simp add: aesd_iocseekto_def call_results_def)
  then show thesis
    using that [of "- ENOTTY" f] that [of "- EFAULT" f] that
    by (cases "cmd = AESDCHAR_IOCSEEKTO (k_iowr K)"; cases arg) (fastforce simp: aesd_ioctl_def call_results_def)+
qed

text \<open>Progress and preservation for one call.\<close>

lemma aesd_fops_ends:
  assumes K: "kernel_ok K" "llseek_bounded K" and wf: "dev_wf w" and f: "unat f < 2 ^ 63" and short: "short_call call"
    and ok: "\<And>buf count. call = Write_call buf count \<Longrightarrow> count \<noteq> 0 \<Longrightarrow> \<not> write_unallocated K count w"
  obtains ret bs f' w' where "aesd_fops K intr call f w = Inr (ret, bs, f', w')" and "ret \<in> call_results"
    and "dev_wf w'" and "unat f' \<le> unat f + 100 \<or> unat f' < 2 ^ 37"
    and "length (pending w') \<le> length (pending w) + 100"
proof (cases call)
  case (Read_call count)
  with short have "unat count < 100" by simp
  show thesis
    by (rule read_ends [OF wf f \<open>unat count < 100\<close>, of K intr], rule that)
      (use Read_call wf in \<open>auto simp: aesd_fops_def\<close>)
next
  case (Write_call buf count)
  with short have "unat count < 100" by simp
  show thesis
    by (rule write_ends [OF K(1) wf \<open>unat count < 100\<close> ok [OF Write_call], where intr = intr and buf = buf and f = f],
        assumption, rule that) (use Write_call in \<open>auto simp: aesd_fops_def\<close>)
next
  case (Llseek_call off whence)
  show thesis
    by (rule llseek_ends [OF K(2) wf f, of intr off whence], rule that)
      (use Llseek_call wf in \<open>auto simp: aesd_fops_def\<close>)
next
  case (Ioctl_call cmd arg)
  show thesis
    by (rule ioctl_ends [OF K(1) wf, of intr cmd arg f], rule that)
      (use Ioctl_call wf in \<open>auto simp: aesd_fops_def\<close>)
qed

section \<open>Every sequence of calls ends\<close>

text \<open>The device holds at most eleven blocks.\<close>

lemma held_blocks:
  assumes "dev_wf w"
  shows "card (dom (heap w)) \<le> 11"
proof -
  have inv: "dev_inv w" using assms by (simp add: dev_wf_def)
  note d = dev_invD [OF inv]
  have "card (dom (heap w)) \<le> length (entry_ptrs (dev w) @ pending_ptrs (dev w))"
    unfolding d(3) set_append [symmetric] by (rule card_length)
  also have "\<dots> \<le> 11" using live_le_10 [OF d(1)] by (simp add: entry_ptrs_def pending_ptrs_def)
  finally show ?thesis .
qed

lemma enough_memory:
  assumes "allocates 11 limit (k_krealloc K)" and "dev_wf w" and "length (pending w) + unat count \<le> limit"
  shows "\<not> write_unallocated K count w"
proof -
  have "length (pending w) = unat (unterminated_size (dev w))"
    using assms(2) by (simp add: length_pending dev_wf_def)
  then have "unat (unterminated_size (dev w) + count) \<le> limit"
    using unat_add_le [of "unterminated_size (dev w)" count] assms(3) by simp
  then show ?thesis using assms(1) held_blocks [OF assms(2)] by (simp add: write_unallocated_def allocates_def)
qed

lemma perform_ends:
  assumes K: "kernel_ok K" "llseek_bounded K" and room: "allocates 11 limit (k_krealloc K)"
  shows "dev_wf w \<Longrightarrow> \<forall>c \<in> set calls. short_call (snd c) \<Longrightarrow>
    unat f + 100 * length calls < 2 ^ 63 \<Longrightarrow> 100 * length calls < 2 ^ 62 \<Longrightarrow>
    length (pending w) + 100 * length calls \<le> limit \<Longrightarrow>
    \<exists>rets f' w'. perform K calls f w = Inr (rets, f', w') \<and> length rets = length calls
      \<and> set rets \<subseteq> call_results \<and> dev_wf w'"
proof (induction calls arbitrary: f w)
  case (Cons c calls)
  obtain intr call where c: "c = (intr, call)" by (cases c)
  have f: "unat f < 2 ^ 63" and short: "short_call call" using Cons.prems(2,3) c by simp_all
  have "\<not> write_unallocated K count w" if "call = Write_call buf count" for buf count
    using short Cons.prems(5) that by (intro enough_memory [OF room Cons.prems(1)]) simp
  then show ?case
  proof (rule_tac aesd_fops_ends [OF K Cons.prems(1) f short, of intr])
    fix ret bs f' w'
    assume call: "aesd_fops K intr call f w = Inr (ret, bs, f', w')" "ret \<in> call_results"
      and w': "dev_wf w'" and f': "unat f' \<le> unat f + 100 \<or> unat f' < 2 ^ 37"
      and pend: "length (pending w') \<le> length (pending w) + 100"
    have "unat f' + 100 * length calls < 2 ^ 63" using f' Cons.prems(3,4) by auto
    with Cons.IH [OF w', of f'] Cons.prems(2,4,5) pend
    obtain rets f'' w'' where "perform K calls f' w' = Inr (rets, f'', w'')" "length rets = length calls"
      "set rets \<subseteq> call_results" "dev_wf w''" by auto
    with call c show ?thesis by simp
  qed
qed simp

text \<open>C6. Progress and preservation: on a well-formed device every sequence of reads, writes and
  \<open>ioctl\<close> or \<open>llseek\<close> calls ends and is answered call by call, whatever signals arrive and whatever
  user memory faults. Each answer is a count, a position or one of five errors, no
  call leaves the defined behaviour of C, and the device is well-formed again. The requests are
  shorter than the debug buffer, and there is memory for eleven blocks.\<close>

theorem calls_always_end:
  assumes "kernel_ok K" and "llseek_bounded K" and "allocates 11 limit (k_krealloc K)"
    and "dev_wf w" and "\<forall>c \<in> set calls. short_call (snd c)"
    and "unat f + 100 * length calls < 2 ^ 63" and "100 * length calls < 2 ^ 62"
    and "length (pending w) + 100 * length calls \<le> limit"
  shows "\<exists>rets f' w'. perform K calls f w = Inr (rets, f', w') \<and> length rets = length calls
    \<and> set rets \<subseteq> call_results \<and> dev_wf w'"
  by (rule perform_ends [OF assms])

text \<open>An interrupted write, an empty one, one that faults, one that completes the pending command;
  a seek past the end, a seek to the second command and a read.\<close>

definition demo_calls :: "(bool \<times> file_call) list" where
  "demo_calls =
     [(True, Write_call [99, 10] 2), (False, Write_call [] 0), (False, Write_call [] 5),
      (False, Write_call [99, 10] 2), (False, Llseek_call 99 0), (False, Ioctl_call 0 (Some 1)), (False, Read_call 50)]"

theorem calls_always_end_witness:
  "\<exists>rets f' w'. perform demo_kernel demo_calls 9 demo_world = Inr (rets, f', w') \<and> length rets = length demo_calls
    \<and> set rets \<subseteq> call_results \<and> dev_wf w'"
proof -
  have "allocates 11 2000 (k_krealloc demo_kernel)"
    using simple_realloc_allocates [of kmalloc_limit]
    by (auto simp: demo_kernel_def allocates_def kmalloc_limit_def)
  moreover have "llseek_bounded demo_kernel"
    by (auto simp: llseek_bounded_def demo_kernel_def demo_llseek_def Let_def)
  moreover have "\<forall>c \<in> set demo_calls. short_call (snd c)" "length demo_calls = 7"
    by (simp_all add: demo_calls_def)
  ultimately show ?thesis
    by (intro calls_always_end [OF demo_kernel_ok, of 2000]) (simp_all add: demo_world_wf demo_pending)
qed

end
