(* ===== verification/Server_Node.thy ===== *)
theory Server_Node
  imports Aesd_Prelude
begin

text \<open>
  The list nodes of \<open>server/src/node.c\<close>. A node lives in a heap of nodes; reading or writing a
  field through a pointer stops when the pointer is \<open>NULL\<close> or the node is gone. The address
  \<open>malloc\<close> returns is an argument, \<open>NULL\<close> when it fails.
\<close>

record node =
  tid :: u64
  nxt :: ptr
  prv :: ptr

type_synonym nheap = "ptr \<Rightarrow> node option"

definition node_at :: "nheap \<Rightarrow> ptr \<Rightarrow> stop + node" where
  "node_at h self = (if self = NULL then Inl Null_deref else or_stop Dangling (h self))"

definition node_update :: "nheap \<Rightarrow> ptr \<Rightarrow> (node \<Rightarrow> node) \<Rightarrow> stop + nheap" where
  "node_update h self f = andThen (node_at h self) (\<lambda>n. Inr (h(self \<mapsto> f n)))"

definition node_clear :: "nheap \<Rightarrow> ptr \<Rightarrow> nheap" where
  "node_clear h self = h(self \<mapsto> \<lparr>tid = 0, nxt = NULL, prv = NULL\<rparr>)"

definition node_initialize :: "nheap \<Rightarrow> ptr \<Rightarrow> bool \<times> nheap" where
  "node_initialize h self = (True, node_clear h self)"

definition node_finalize :: "nheap \<Rightarrow> ptr \<Rightarrow> nheap" where
  "node_finalize h self = h"

definition node_new :: "ptr \<Rightarrow> nheap \<Rightarrow> ptr \<times> nheap" where
  "node_new malloc_result h =
     (if malloc_result = NULL then (NULL, h)
      else let (ok, h') = node_initialize h malloc_result
           in if ok then (malloc_result, h') else (NULL, h'(malloc_result := None)))"

definition node_destroy :: "nheap \<Rightarrow> ptr \<Rightarrow> stop + nheap" where
  "node_destroy h self =
     (let h' = node_finalize h self
      in if self = NULL then Inr h' else if h' self = None then Inl Bad_free
         else Inr (h'(self := None)))"

definition node_set :: "nheap \<Rightarrow> ptr \<Rightarrow> u64 \<Rightarrow> stop + nheap" where
  "node_set h self t = node_update h self (\<lambda>n. n\<lparr>tid := t\<rparr>)"

definition node_get :: "nheap \<Rightarrow> ptr \<Rightarrow> stop + u64" where
  "node_get h self = andThen (node_at h self) (\<lambda>n. Inr (tid n))"

definition node_next :: "nheap \<Rightarrow> ptr \<Rightarrow> stop + ptr" where
  "node_next h self = andThen (node_at h self) (\<lambda>n. Inr (nxt n))"

definition node_prev :: "nheap \<Rightarrow> ptr \<Rightarrow> stop + ptr" where
  "node_prev h self = andThen (node_at h self) (\<lambda>n. Inr (prv n))"

definition node_link_next :: "nheap \<Rightarrow> ptr \<Rightarrow> ptr \<Rightarrow> stop + nheap" where
  "node_link_next h self next = node_update h self (\<lambda>n. n\<lparr>nxt := next\<rparr>)"

definition node_link_prev :: "nheap \<Rightarrow> ptr \<Rightarrow> ptr \<Rightarrow> stop + nheap" where
  "node_link_prev h self prev = node_update h self (\<lambda>n. n\<lparr>prv := prev\<rparr>)"

definition node_unlink_next :: "nheap \<Rightarrow> ptr \<Rightarrow> stop + nheap" where
  "node_unlink_next h self = node_update h self (\<lambda>n. n\<lparr>nxt := NULL\<rparr>)"

definition node_unlink_prev :: "nheap \<Rightarrow> ptr \<Rightarrow> stop + nheap" where
  "node_unlink_prev h self = node_update h self (\<lambda>n. n\<lparr>prv := NULL\<rparr>)"

definition node_has_next :: "nheap \<Rightarrow> ptr \<Rightarrow> stop + bool" where
  "node_has_next h self = andThen (node_at h self) (\<lambda>n. Inr (nxt n \<noteq> NULL))"

definition node_has_prev :: "nheap \<Rightarrow> ptr \<Rightarrow> stop + bool" where
  "node_has_prev h self = andThen (node_at h self) (\<lambda>n. Inr (prv n \<noteq> NULL))"

lemmas [node_unfold] =
  node_clear_def node_initialize_def node_finalize_def node_new_def node_destroy_def
  node_update_def node_set_def node_get_def node_next_def node_prev_def node_link_next_def
  node_link_prev_def node_unlink_next_def node_unlink_prev_def

lemma node_at_held [simp]: "p \<noteq> NULL \<Longrightarrow> h p = Some n \<Longrightarrow> node_at h p = Inr n"
  by (simp add: node_at_def)

lemma node_at_NULL [simp]: "node_at h NULL = Inl Null_deref"
  by (simp add: node_at_def)

end
