(* ===== verification/Server_List.thy ===== *)
theory Server_List
  imports Server_Node
begin

text \<open>
  The doubly linked list of \<open>server/src/doubly_linked_list.c\<close>, function by function, on the
  list structure together with the heap of its nodes. Every \<open>assert\<close> is a branch. The functions
  that allocate take the address \<open>malloc\<close> returns as their first argument.
\<close>

record doubly_linked_list =
  head :: ptr
  tail :: ptr
  dsize :: u64
  nodes :: nheap

section \<open>Size, clearing\<close>

definition doubly_linked_list_clear :: "doubly_linked_list \<Rightarrow> doubly_linked_list" where
  "doubly_linked_list_clear self = self\<lparr>head := NULL, tail := NULL, dsize := 0\<rparr>"

definition doubly_linked_list_size :: "doubly_linked_list \<Rightarrow> u64" where
  "doubly_linked_list_size self = dsize self"

definition doubly_linked_list_is_empty :: "doubly_linked_list \<Rightarrow> bool" where
  "doubly_linked_list_is_empty self \<longleftrightarrow> doubly_linked_list_size self = 0"

definition doubly_linked_list_initialize :: "doubly_linked_list \<Rightarrow> bool \<times> doubly_linked_list" where
  "doubly_linked_list_initialize self = (True, doubly_linked_list_clear self)"

definition doubly_linked_list_finalize :: "doubly_linked_list \<Rightarrow> stop + unit" where
  "doubly_linked_list_finalize self = c_assert (doubly_linked_list_is_empty self)"

text \<open>The structure before \<open>memset\<close> is an argument: it is uninitialised memory.\<close>

definition doubly_linked_list_new ::
  "doubly_linked_list option \<Rightarrow> doubly_linked_list option" where
  "doubly_linked_list_new malloc_result =
     (case malloc_result of
        None \<Rightarrow> None
      | Some raw \<Rightarrow> (let (ok, l) = doubly_linked_list_initialize raw in if ok then Some l else None))"

definition doubly_linked_list_destroy :: "doubly_linked_list \<Rightarrow> stop + unit" where
  "doubly_linked_list_destroy self = andThen (doubly_linked_list_finalize self) (\<lambda>_. Inr ())"

section \<open>Finding a node\<close>

fun walk :: "(ptr \<Rightarrow> stop + ptr) \<Rightarrow> nat \<Rightarrow> ptr \<Rightarrow> stop + ptr" where
  "walk step 0 current = Inr current"
| "walk step (Suc n) current = andThen (step current) (walk step n)"

definition doubly_linked_list_get_node_from_head :: "doubly_linked_list \<Rightarrow> u64 \<Rightarrow> stop + ptr" where
  "doubly_linked_list_get_node_from_head self pos =
     andThen (c_assert (pos < doubly_linked_list_size self)) (\<lambda>_.
       walk (node_next (nodes self)) (unat pos) (head self))"

text \<open>The walk towards the front starts at \<open>self->head\<close>, as the code has it.\<close>

definition doubly_linked_list_get_node_from_tail :: "doubly_linked_list \<Rightarrow> u64 \<Rightarrow> stop + ptr" where
  "doubly_linked_list_get_node_from_tail self pos =
     andThen (c_assert (pos < doubly_linked_list_size self)) (\<lambda>_.
       walk (node_prev (nodes self)) (unat (doubly_linked_list_size self - 1) - unat pos) (head self))"

definition doubly_linked_list_get_node :: "doubly_linked_list \<Rightarrow> u64 \<Rightarrow> stop + ptr" where
  "doubly_linked_list_get_node self pos =
     andThen (c_assert (pos < doubly_linked_list_size self)) (\<lambda>_.
       if pos = 0 then Inr (head self)
       else if pos = doubly_linked_list_size self then Inr (tail self)
       else if pos < doubly_linked_list_size self div 2
       then doubly_linked_list_get_node_from_head self pos
       else doubly_linked_list_get_node_from_tail self pos)"

section \<open>Linking nodes\<close>

definition doubly_linked_list_insert_node_when_empty ::
  "doubly_linked_list \<Rightarrow> ptr \<Rightarrow> stop + doubly_linked_list" where
  "doubly_linked_list_insert_node_when_empty self new_node =
     andThen (c_assert (doubly_linked_list_is_empty self)) (\<lambda>_.
       Inr (self\<lparr>head := new_node, tail := new_node, dsize := 1\<rparr>))"

definition doubly_linked_list_insert_node_in_head ::
  "doubly_linked_list \<Rightarrow> ptr \<Rightarrow> stop + doubly_linked_list" where
  "doubly_linked_list_insert_node_in_head self new_node =
     andThen (c_assert (\<not> doubly_linked_list_is_empty self)) (\<lambda>_.
     andThen (node_link_next (nodes self) new_node (head self)) (\<lambda>h1.
     andThen (node_link_prev h1 (head self) new_node) (\<lambda>h2.
       Inr (self\<lparr>head := new_node, dsize := dsize self + 1, nodes := h2\<rparr>))))"

definition doubly_linked_list_insert_node_in_tail ::
  "doubly_linked_list \<Rightarrow> ptr \<Rightarrow> stop + doubly_linked_list" where
  "doubly_linked_list_insert_node_in_tail self new_node =
     andThen (c_assert (\<not> doubly_linked_list_is_empty self)) (\<lambda>_.
     andThen (node_link_prev (nodes self) new_node (tail self)) (\<lambda>h1.
     andThen (node_link_next h1 (tail self) new_node) (\<lambda>h2.
       Inr (self\<lparr>tail := new_node, dsize := dsize self + 1, nodes := h2\<rparr>))))"

definition doubly_linked_list_insert_middle_node ::
  "doubly_linked_list \<Rightarrow> u64 \<Rightarrow> ptr \<Rightarrow> stop + doubly_linked_list" where
  "doubly_linked_list_insert_middle_node self pos new_node =
     andThen (c_assert (0 < pos \<and> pos < doubly_linked_list_size self)) (\<lambda>_.
     andThen (doubly_linked_list_get_node self pos) (\<lambda>node_in_pos.
     andThen (node_prev (nodes self) node_in_pos) (\<lambda>before.
     andThen (node_link_prev (nodes self) new_node before) (\<lambda>h1.
     andThen (node_link_next h1 new_node node_in_pos) (\<lambda>h2.
     andThen (node_prev h2 node_in_pos) (\<lambda>before'.
     andThen (node_link_next h2 before' new_node) (\<lambda>h3.
     andThen (node_link_prev h3 node_in_pos new_node) (\<lambda>h4.
       Inr (self\<lparr>dsize := dsize self + 1, nodes := h4\<rparr>)))))))))"

section \<open>Unlinking nodes\<close>

definition doubly_linked_list_remove_last_node ::
  "doubly_linked_list \<Rightarrow> stop + (ptr \<times> doubly_linked_list)" where
  "doubly_linked_list_remove_last_node self =
     andThen (c_assert (doubly_linked_list_size self = 1)) (\<lambda>_.
       Inr (head self, self\<lparr>head := NULL, tail := NULL, dsize := 0\<rparr>))"

definition doubly_linked_list_remove_head_node ::
  "doubly_linked_list \<Rightarrow> stop + (ptr \<times> doubly_linked_list)" where
  "doubly_linked_list_remove_head_node self =
     andThen (c_assert (1 < doubly_linked_list_size self)) (\<lambda>_.
     andThen (node_next (nodes self) (head self)) (\<lambda>new_head.
     andThen (node_unlink_prev (nodes self) new_head) (\<lambda>h1.
       Inr (head self, self\<lparr>head := new_head, dsize := dsize self - 1, nodes := h1\<rparr>))))"

definition doubly_linked_list_remove_tail_node ::
  "doubly_linked_list \<Rightarrow> stop + (ptr \<times> doubly_linked_list)" where
  "doubly_linked_list_remove_tail_node self =
     andThen (c_assert (1 < doubly_linked_list_size self)) (\<lambda>_.
     andThen (node_prev (nodes self) (tail self)) (\<lambda>new_tail.
     andThen (node_unlink_next (nodes self) new_tail) (\<lambda>h1.
       Inr (tail self, self\<lparr>tail := new_tail, dsize := dsize self - 1, nodes := h1\<rparr>))))"

definition doubly_linked_list_remove_middle_node ::
  "doubly_linked_list \<Rightarrow> u64 \<Rightarrow> stop + (ptr \<times> doubly_linked_list)" where
  "doubly_linked_list_remove_middle_node self pos =
     andThen (c_assert (0 < pos \<and> pos < doubly_linked_list_size self - 1)) (\<lambda>_.
     andThen (doubly_linked_list_get_node self pos) (\<lambda>old_node.
     andThen (node_prev (nodes self) old_node) (\<lambda>before.
     andThen (node_next (nodes self) old_node) (\<lambda>after.
     andThen (node_link_next (nodes self) before after) (\<lambda>h1.
     andThen (node_next h1 old_node) (\<lambda>after'.
     andThen (node_prev h1 old_node) (\<lambda>before'.
     andThen (node_link_prev h1 after' before') (\<lambda>h2.
       Inr (old_node, self\<lparr>dsize := dsize self - 1, nodes := h2\<rparr>)))))))))"

section \<open>Access\<close>

definition doubly_linked_list_set ::
  "doubly_linked_list \<Rightarrow> u64 \<Rightarrow> u64 \<Rightarrow> stop + doubly_linked_list" where
  "doubly_linked_list_set self pos t =
     andThen (c_assert (pos < doubly_linked_list_size self)) (\<lambda>_.
     andThen (doubly_linked_list_get_node self pos) (\<lambda>p.
     andThen (node_set (nodes self) p t) (\<lambda>h. Inr (self\<lparr>nodes := h\<rparr>))))"

definition doubly_linked_list_set_head ::
  "doubly_linked_list \<Rightarrow> u64 \<Rightarrow> stop + doubly_linked_list" where
  "doubly_linked_list_set_head self t =
     andThen (c_assert (\<not> doubly_linked_list_is_empty self)) (\<lambda>_.
     andThen (node_set (nodes self) (head self) t) (\<lambda>h. Inr (self\<lparr>nodes := h\<rparr>)))"

definition doubly_linked_list_set_tail ::
  "doubly_linked_list \<Rightarrow> u64 \<Rightarrow> stop + doubly_linked_list" where
  "doubly_linked_list_set_tail self t =
     andThen (c_assert (\<not> doubly_linked_list_is_empty self)) (\<lambda>_.
     andThen (node_set (nodes self) (tail self) t) (\<lambda>h. Inr (self\<lparr>nodes := h\<rparr>)))"

definition doubly_linked_list_get :: "doubly_linked_list \<Rightarrow> u64 \<Rightarrow> stop + u64" where
  "doubly_linked_list_get self pos =
     andThen (c_assert (pos < doubly_linked_list_size self)) (\<lambda>_.
     andThen (doubly_linked_list_get_node self pos) (node_get (nodes self)))"

definition doubly_linked_list_get_head :: "doubly_linked_list \<Rightarrow> stop + u64" where
  "doubly_linked_list_get_head self =
     andThen (c_assert (\<not> doubly_linked_list_is_empty self)) (\<lambda>_. node_get (nodes self) (head self))"

definition doubly_linked_list_get_tail :: "doubly_linked_list \<Rightarrow> stop + u64" where
  "doubly_linked_list_get_tail self =
     andThen (c_assert (\<not> doubly_linked_list_is_empty self)) (\<lambda>_. node_get (nodes self) (tail self))"

section \<open>Insertion\<close>

text \<open>\<open>node_new\<close> and \<open>node_set\<close>, then one of the linking functions; \<open>False\<close> when there is no
  memory.\<close>

definition insert_new_node ::
  "ptr \<Rightarrow> doubly_linked_list \<Rightarrow> u64 \<Rightarrow> (doubly_linked_list \<Rightarrow> ptr \<Rightarrow> stop + doubly_linked_list)
    \<Rightarrow> stop + (bool \<times> doubly_linked_list)" where
  "insert_new_node malloc_result self t link =
     (let (new_node, h) = node_new malloc_result (nodes self)
      in if new_node = NULL then Inr (False, self\<lparr>nodes := h\<rparr>)
         else andThen (node_set h new_node t) (\<lambda>h'.
              andThen (link (self\<lparr>nodes := h'\<rparr>) new_node) (\<lambda>self'. Inr (True, self'))))"

definition doubly_linked_list_insert ::
  "ptr \<Rightarrow> doubly_linked_list \<Rightarrow> u64 \<Rightarrow> u64 \<Rightarrow> stop + (bool \<times> doubly_linked_list)" where
  "doubly_linked_list_insert malloc_result self pos t =
     andThen (c_assert (pos \<le> doubly_linked_list_size self)) (\<lambda>_.
       insert_new_node malloc_result self t (\<lambda>l new_node.
         if doubly_linked_list_is_empty l then doubly_linked_list_insert_node_when_empty l new_node
         else if pos = 0 then doubly_linked_list_insert_node_in_head l new_node
         else if pos = doubly_linked_list_size l then doubly_linked_list_insert_node_in_tail l new_node
         else doubly_linked_list_insert_middle_node l pos new_node))"

definition doubly_linked_list_insert_head ::
  "ptr \<Rightarrow> doubly_linked_list \<Rightarrow> u64 \<Rightarrow> stop + (bool \<times> doubly_linked_list)" where
  "doubly_linked_list_insert_head malloc_result self t =
     insert_new_node malloc_result self t (\<lambda>l new_node.
       if doubly_linked_list_is_empty l then doubly_linked_list_insert_node_when_empty l new_node
       else doubly_linked_list_insert_node_in_head l new_node)"

definition doubly_linked_list_insert_tail ::
  "ptr \<Rightarrow> doubly_linked_list \<Rightarrow> u64 \<Rightarrow> stop + (bool \<times> doubly_linked_list)" where
  "doubly_linked_list_insert_tail malloc_result self t =
     insert_new_node malloc_result self t (\<lambda>l new_node.
       if doubly_linked_list_is_empty l then doubly_linked_list_insert_node_when_empty l new_node
       else doubly_linked_list_insert_node_in_tail l new_node)"

section \<open>Removal\<close>

text \<open>The end of every removal: read the thread id of the unlinked node, then free it.\<close>

definition take_and_destroy ::
  "ptr \<times> doubly_linked_list \<Rightarrow> stop + (u64 \<times> doubly_linked_list)" where
  "take_and_destroy r =
     (case r of (old_node, self) \<Rightarrow>
        andThen (node_get (nodes self) old_node) (\<lambda>t.
        andThen (if old_node \<noteq> NULL then node_destroy (nodes self) old_node else Inr (nodes self))
          (\<lambda>h. Inr (t, self\<lparr>nodes := h\<rparr>))))"

definition doubly_linked_list_remove ::
  "doubly_linked_list \<Rightarrow> u64 \<Rightarrow> stop + (u64 \<times> doubly_linked_list)" where
  "doubly_linked_list_remove self pos =
     andThen (c_assert (pos < doubly_linked_list_size self)) (\<lambda>_.
     andThen
       (if doubly_linked_list_is_empty self then doubly_linked_list_remove_last_node self
        else if pos = 0 then doubly_linked_list_remove_head_node self
        else if pos = doubly_linked_list_size self then doubly_linked_list_remove_tail_node self
        else doubly_linked_list_remove_middle_node self pos)
       take_and_destroy)"

definition doubly_linked_list_remove_head ::
  "doubly_linked_list \<Rightarrow> stop + (u64 \<times> doubly_linked_list)" where
  "doubly_linked_list_remove_head self =
     andThen (c_assert (\<not> doubly_linked_list_is_empty self)) (\<lambda>_.
     andThen
       (if doubly_linked_list_size self = 1 then doubly_linked_list_remove_last_node self
        else doubly_linked_list_remove_head_node self)
       take_and_destroy)"

definition doubly_linked_list_remove_tail ::
  "doubly_linked_list \<Rightarrow> stop + (u64 \<times> doubly_linked_list)" where
  "doubly_linked_list_remove_tail self =
     andThen (c_assert (\<not> doubly_linked_list_is_empty self)) (\<lambda>_.
     andThen
       (if doubly_linked_list_size self = 1 then doubly_linked_list_remove_last_node self
        else doubly_linked_list_remove_tail_node self)
       take_and_destroy)"

end
