(* ===== verification/Server_List_Inv.thy ===== *)
theory Server_List_Inv
  imports Server_List
begin

text \<open>
  The representation of a sequence of thread ids by the doubly linked list: a segment of nodes
  linked in both directions, whose addresses are exactly the ones of the node heap (no node
  leaks, none is shared). The lemmas give the effect of each operation on the sequence.
\<close>

section \<open>Linked segments\<close>

definition first_or :: "ptr \<Rightarrow> ptr list \<Rightarrow> ptr" where
  "first_or z ps = (if ps = [] then z else hd ps)"

definition last_or :: "ptr \<Rightarrow> ptr list \<Rightarrow> ptr" where
  "last_or a ps = (if ps = [] then a else last ps)"

lemma first_or_simps [simp]: "first_or z [] = z" "first_or z (p # ps) = p"
  "first_or z (ps @ qs) = first_or (first_or z qs) ps"
  by (simp_all add: first_or_def)

lemma last_or_simps [simp]: "last_or a [] = a" "last_or a (ps @ [p]) = p"
  "last_or a (p # ps) = last_or p ps" "last_or a (ps @ qs) = last_or (last_or a ps) qs"
  by (simp_all add: last_or_def)

fun dseg :: "nheap \<Rightarrow> ptr \<Rightarrow> ptr list \<Rightarrow> u64 list \<Rightarrow> ptr \<Rightarrow> bool" where
  "dseg h a [] ts z \<longleftrightarrow> ts = []"
| "dseg h a (p # ps) [] z \<longleftrightarrow> False"
| "dseg h a (p # ps) (t # ts) z \<longleftrightarrow> p \<noteq> NULL
     \<and> h p = Some \<lparr>tid = t, nxt = first_or z ps, prv = a\<rparr> \<and> dseg h p ps ts z"

lemma dseg_length: "dseg h a ps ts z \<Longrightarrow> length ts = length ps"
  by (induction h a ps ts z rule: dseg.induct) auto

lemma dseg_held: "dseg h a ps ts z \<Longrightarrow> p \<in> set ps \<Longrightarrow> p \<noteq> NULL \<and> h p \<noteq> None"
  by (induction h a ps ts z rule: dseg.induct) auto

lemma dseg_frame: "\<forall>p \<in> set ps. h' p = h p \<Longrightarrow> dseg h' a ps ts z = dseg h a ps ts z"
  by (induction h a ps ts z rule: dseg.induct) auto

lemma dseg_upd [simp]: "p \<notin> set ps \<Longrightarrow> dseg (h(p := x)) a ps ts z = dseg h a ps ts z"
  by (rule dseg_frame) auto

lemma dseg_append:
  "length ps = length ts \<Longrightarrow> dseg h a (ps @ qs) (ts @ us) z
    \<longleftrightarrow> dseg h a ps ts (first_or z qs) \<and> dseg h (last_or a ps) qs us z"
  by (induction ps ts arbitrary: a rule: list_induct2) auto

lemma dseg_split:
  assumes "dseg h a (ps @ qs) ts z"
  obtains us vs where "ts = us @ vs" and "length us = length ps" and "length vs = length qs"
    and "dseg h a ps us (first_or z qs)" and "dseg h (last_or a ps) qs vs z"
proof -
  have len: "length ts = length ps + length qs" using dseg_length [OF assms] by simp
  let ?us = "take (length ps) ts" and ?vs = "drop (length ps) ts"
  have "dseg h a ps ?us (first_or z qs) \<and> dseg h (last_or a ps) qs ?vs z"
    using assms len dseg_append [of ps ?us h a qs ?vs z] by simp
  then show thesis using len by (intro that [of ?us ?vs]) simp_all
qed

lemma dseg_nth:
  "dseg h a ps ts z \<Longrightarrow> i < length ps \<Longrightarrow> ps ! i \<noteq> NULL \<and>
     h (ps ! i) = Some \<lparr>tid = ts ! i, nxt = (if Suc i < length ps then ps ! Suc i else z),
                        prv = (if i = 0 then a else ps ! (i - 1))\<rparr>"
proof (induction h a ps ts z arbitrary: i rule: dseg.induct)
  case (3 h a p ps t ts z)
  show ?case
  proof (cases i)
    case 0
    then show ?thesis using 3 by (cases ps) auto
  next
    case (Suc j)
    then show ?thesis using 3 by (cases j) auto
  qed
qed auto

section \<open>The list invariant\<close>

definition dll_repr :: "doubly_linked_list \<Rightarrow> ptr list \<Rightarrow> u64 list \<Rightarrow> bool" where
  "dll_repr l ps ts \<longleftrightarrow> dseg (nodes l) NULL ps ts NULL \<and> distinct ps \<and> dom (nodes l) = set ps
     \<and> head l = first_or NULL ps \<and> tail l = last_or NULL ps \<and> dsize l = of_nat (length ps)"

text \<open>The same without the condition on the heap, for a list whose next node is allocated but
  not linked yet.\<close>

definition dll_linked :: "doubly_linked_list \<Rightarrow> ptr list \<Rightarrow> u64 list \<Rightarrow> bool" where
  "dll_linked l ps ts \<longleftrightarrow> dseg (nodes l) NULL ps ts NULL \<and> distinct ps
     \<and> head l = first_or NULL ps \<and> tail l = last_or NULL ps \<and> dsize l = of_nat (length ps)"

definition represents_list :: "doubly_linked_list \<Rightarrow> u64 list \<Rightarrow> bool" where
  "represents_list l ts \<longleftrightarrow> (\<exists>ps. dll_repr l ps ts)"

definition fresh_node :: "doubly_linked_list \<Rightarrow> ptr \<Rightarrow> bool" where
  "fresh_node l p \<longleftrightarrow> p \<noteq> NULL \<and> nodes l p = None"

lemma dll_reprD:
  assumes "dll_repr l ps ts"
  shows "dseg (nodes l) NULL ps ts NULL" and "distinct ps" and "dom (nodes l) = set ps"
    and "head l = first_or NULL ps" and "tail l = last_or NULL ps"
    and "dsize l = of_nat (length ps)" and "length ts = length ps"
  using assms dseg_length by (auto simp: dll_repr_def)

lemma repr_linked: "dll_repr l ps ts \<longleftrightarrow> dll_linked l ps ts \<and> dom (nodes l) = set ps"
  by (auto simp: dll_repr_def dll_linked_def)

lemma dll_linkedD:
  assumes "dll_linked l ps ts"
  shows "dseg (nodes l) NULL ps ts NULL" and "distinct ps" and "head l = first_or NULL ps"
    and "tail l = last_or NULL ps" and "dsize l = of_nat (length ps)" and "length ts = length ps"
  using assms dseg_length by (auto simp: dll_linked_def)

lemma linked_upd: "p \<notin> set ps \<Longrightarrow> dll_linked (l\<lparr>nodes := (nodes l)(p := x)\<rparr>) ps ts = dll_linked l ps ts"
  by (simp add: dll_linked_def)

lemma linked_size:
  assumes "dll_linked l ps ts"
  shows "unat (doubly_linked_list_size l) = length ts"
proof -
  have "NULL \<notin> set ps" using dseg_held [OF dll_linkedD(1) [OF assms]] by blast
  then have "length ps < 2 ^ 64" using distinct_ptrs_bounded [OF dll_linkedD(2) [OF assms]] by blast
  then show ?thesis
    using dll_linkedD(5,6) [OF assms] by (simp add: doubly_linked_list_size_def unat_of_nat_u64)
qed

lemma repr_size: "dll_repr l ps ts \<Longrightarrow> unat (doubly_linked_list_size l) = length ts"
  using linked_size repr_linked by blast

lemma repr_empty: "dll_repr l ps ts \<Longrightarrow> doubly_linked_list_is_empty l \<longleftrightarrow> ts = []"
  using repr_size [of l ps ts] by (simp add: doubly_linked_list_is_empty_def unat_eq_zero)
    (metis length_0_conv unat_eq_zero)

lemma repr_one: "dll_repr l ps ts \<Longrightarrow> doubly_linked_list_size l = 1 \<longleftrightarrow> length ts = 1"
  using repr_size [of l ps ts] by (metis unat_1 unsigned_word_eqI)

lemma repr_many: "dll_repr l ps ts \<Longrightarrow> 1 < doubly_linked_list_size l \<longleftrightarrow> 1 < length ts"
  using repr_size [of l ps ts] by (simp add: word_less_nat_alt)

lemma repr_fresh: "dll_repr l ps ts \<Longrightarrow> fresh_node l p \<Longrightarrow> p \<noteq> NULL \<and> p \<notin> set ps"
  using dll_reprD(3) [of l ps ts] by (auto simp: fresh_node_def)

lemma clear_repr:
  "nodes l = Map.empty \<Longrightarrow> dll_repr (doubly_linked_list_clear l) [] []"
  by (simp add: dll_repr_def doubly_linked_list_clear_def)

section \<open>Insertion at the ends\<close>

lemma new_node_linked:
  assumes "fresh_node l p"
  shows "insert_new_node p l t link =
    andThen (link (l\<lparr>nodes := (nodes l)(p \<mapsto> \<lparr>tid = t, nxt = NULL, prv = NULL\<rparr>)\<rparr>) p)
      (\<lambda>l'. Inr (True, l'))"
  using assms by (simp add: insert_new_node_def fresh_node_def node_unfold)

lemma insert_head_repr:
  assumes repr: "dll_repr l ps ts" and fresh: "fresh_node l p"
  shows "\<exists>l'. doubly_linked_list_insert_head p l t = Inr (True, l') \<and> dll_repr l' (p # ps) (t # ts)"
proof -
  note p = repr_fresh [OF repr fresh] and r = dll_reprD [OF repr]
  let ?h = "(nodes l)(p \<mapsto> \<lparr>tid = t, nxt = NULL, prv = NULL\<rparr>)"
  show ?thesis
  proof (cases ps)
    case Nil
    then have "ts = []" using r(7) by simp
    then have "doubly_linked_list_is_empty l" using repr_empty [OF repr] by simp
    then show ?thesis
      using Nil p r \<open>ts = []\<close>
      by (simp add: doubly_linked_list_insert_head_def new_node_linked [OF fresh] dll_repr_def
          doubly_linked_list_insert_node_when_empty_def doubly_linked_list_is_empty_def
          doubly_linked_list_size_def)
  next
    case (Cons q qs)
    then obtain u us where ts: "ts = u # us" using r(7) by (cases ts) auto
    then have "\<not> doubly_linked_list_is_empty l" using repr_empty [OF repr] by simp
    moreover have "q \<noteq> NULL" "nodes l q = Some \<lparr>tid = u, nxt = first_or NULL qs, prv = NULL\<rparr>"
      "q \<noteq> p" "q \<notin> set qs" "p \<notin> set qs"
      using r(1,2) p Cons ts by auto
    ultimately show ?thesis
      using Cons p r ts
      by (auto simp: doubly_linked_list_insert_head_def new_node_linked [OF fresh] dll_repr_def
          doubly_linked_list_insert_node_in_head_def doubly_linked_list_is_empty_def
          doubly_linked_list_size_def node_unfold)
  qed
qed

lemma insert_tail_repr:
  assumes repr: "dll_repr l ps ts" and fresh: "fresh_node l p"
  shows "\<exists>l'. doubly_linked_list_insert_tail p l t = Inr (True, l') \<and> dll_repr l' (ps @ [p]) (ts @ [t])"
proof -
  note p = repr_fresh [OF repr fresh] and r = dll_reprD [OF repr]
  show ?thesis
  proof (cases ps rule: rev_cases)
    case Nil
    then have "ts = []" using r(7) by simp
    then have "doubly_linked_list_is_empty l" using repr_empty [OF repr] by simp
    then show ?thesis
      using Nil p r \<open>ts = []\<close>
      by (simp add: doubly_linked_list_insert_tail_def new_node_linked [OF fresh] dll_repr_def
          doubly_linked_list_insert_node_when_empty_def doubly_linked_list_is_empty_def
          doubly_linked_list_size_def)
  next
    case (snoc qs q)
    then obtain us u where ts: "ts = us @ [u]" using r(7) by (cases ts rule: rev_cases) auto
    have len: "length qs = length us" using snoc ts r(7) by simp
    have "\<not> doubly_linked_list_is_empty l" using ts repr_empty [OF repr] by simp
    moreover have "q \<noteq> NULL" "nodes l q = Some \<lparr>tid = u, nxt = NULL, prv = last_or NULL qs\<rparr>"
      "q \<noteq> p" "q \<notin> set qs" "p \<notin> set qs" "dseg (nodes l) NULL qs us q"
      using r(1,2) p snoc ts len by (auto simp: dseg_append)
    ultimately show ?thesis
      using snoc p r ts len
      by (auto simp: doubly_linked_list_insert_tail_def new_node_linked [OF fresh] dll_repr_def
          doubly_linked_list_insert_node_in_tail_def doubly_linked_list_is_empty_def
          doubly_linked_list_size_def node_unfold dseg_append)
  qed
qed

section \<open>Removal at the ends\<close>

lemma delete_only_key: "dom h = {p} \<Longrightarrow> h(p := None) = Map.empty"
  by (auto simp: fun_eq_iff dom_def)

lemma remove_head_repr:
  assumes repr: "dll_repr l (p # ps) (t # ts)"
  shows "\<exists>l'. doubly_linked_list_remove_head l = Inr (t, l') \<and> dll_repr l' ps ts"
proof -
  note r = dll_reprD [OF repr]
  have ne: "\<not> doubly_linked_list_is_empty l" using repr_empty [OF repr] by simp
  show ?thesis
  proof (cases ps)
    case Nil
    then have "ts = []" using r(7) by simp
    then have "doubly_linked_list_size l = 1" using repr_one [OF repr] by simp
    then show ?thesis
      using ne Nil r \<open>ts = []\<close>
      by (auto simp: doubly_linked_list_remove_head_def doubly_linked_list_remove_last_node_def
          take_and_destroy_def node_unfold dll_repr_def delete_only_key)
  next
    case (Cons q qs)
    then obtain u us where ts: "ts = u # us" using r(7) by (cases ts) auto
    then have many: "1 < doubly_linked_list_size l" using repr_many [OF repr] by simp
    have "q \<noteq> NULL" "nodes l q = Some \<lparr>tid = u, nxt = first_or NULL qs, prv = p\<rparr>"
      "q \<noteq> p" "q \<notin> set qs" "p \<notin> set qs" "p \<noteq> NULL" "dseg (nodes l) q qs us NULL"
      using r(1,2) Cons ts by auto
    then show ?thesis
      using ne many Cons r ts
      by (auto simp: doubly_linked_list_remove_head_def doubly_linked_list_remove_head_node_def
          take_and_destroy_def node_unfold dll_repr_def)
  qed
qed

lemma remove_tail_repr:
  assumes repr: "dll_repr l (ps @ [p]) (ts @ [t])"
  shows "\<exists>l'. doubly_linked_list_remove_tail l = Inr (t, l') \<and> dll_repr l' ps ts"
proof -
  note r = dll_reprD [OF repr]
  have ne: "\<not> doubly_linked_list_is_empty l" using repr_empty [OF repr] by simp
  show ?thesis
  proof (cases ps rule: rev_cases)
    case Nil
    then have "ts = []" using r(7) by simp
    then have "doubly_linked_list_size l = 1" using repr_one [OF repr] by simp
    then show ?thesis
      using ne Nil r \<open>ts = []\<close>
      by (auto simp: doubly_linked_list_remove_tail_def doubly_linked_list_remove_last_node_def
          take_and_destroy_def node_unfold dll_repr_def delete_only_key)
  next
    case (snoc qs q)
    then obtain us u where ts: "ts = us @ [u]" using r(7) by (cases ts rule: rev_cases) auto
    have len: "length qs = length us" using snoc ts r(7) by simp
    have many: "1 < doubly_linked_list_size l" using ts repr_many [OF repr] by simp
    have "q \<noteq> NULL" "nodes l q = Some \<lparr>tid = u, nxt = p, prv = last_or NULL qs\<rparr>"
      "nodes l p = Some \<lparr>tid = t, nxt = NULL, prv = q\<rparr>"
      "q \<noteq> p" "q \<notin> set qs" "p \<notin> set qs" "p \<noteq> NULL" "dseg (nodes l) NULL qs us q"
      using r(1,2) snoc ts len by (auto simp: dseg_append)
    then show ?thesis
      using ne many snoc r ts len
      by (auto simp: doubly_linked_list_remove_tail_def doubly_linked_list_remove_tail_node_def
          take_and_destroy_def node_unfold dll_repr_def dseg_append)
  qed
qed

section \<open>Access by position\<close>

lemma walk_next_nth:
  assumes "dll_linked l ps ts"
  shows "i + n < length ps \<Longrightarrow> walk (node_next (nodes l)) n (ps ! i) = Inr (ps ! (i + n))"
proof (induction n arbitrary: i)
  case (Suc n)
  then have "node_next (nodes l) (ps ! i) = Inr (ps ! Suc i)"
    using dseg_nth [OF dll_linkedD(1) [OF assms], of i] by (simp add: node_next_def node_at_def)
  with Suc.IH [of "Suc i"] Suc.prems show ?case by simp
qed simp

lemma get_node_from_head_nth:
  assumes "dll_linked l ps ts" and "unat pos < length ts"
  shows "doubly_linked_list_get_node_from_head l pos = Inr (ps ! unat pos)"
proof -
  have "pos < doubly_linked_list_size l" using assms linked_size by (simp add: word_less_nat_alt)
  moreover have "head l = ps ! 0"
    using dll_linkedD(3,6) [OF assms(1)] assms(2) by (cases ps) simp_all
  ultimately show ?thesis
    using walk_next_nth [OF assms(1), of 0 "unat pos"] dll_linkedD(6) [OF assms(1)] assms(2)
    by (simp add: doubly_linked_list_get_node_from_head_def)
qed

text \<open>The positions of the first half are found; position 0 always is.\<close>

definition first_half :: "u64 \<Rightarrow> u64 list \<Rightarrow> bool" where
  "first_half pos ts \<longleftrightarrow> ts \<noteq> [] \<and> (pos = 0 \<or> unat pos < length ts div 2)"

lemma first_half_less: "first_half pos ts \<Longrightarrow> unat pos < length ts"
  by (auto simp: first_half_def)

lemma get_node_first_half:
  assumes "dll_linked l ps ts" and "first_half pos ts"
  shows "doubly_linked_list_get_node l pos = Inr (ps ! unat pos)"
proof -
  have pos: "pos < doubly_linked_list_size l"
    using first_half_less [OF assms(2)] linked_size [OF assms(1)] by (simp add: word_less_nat_alt)
  have "head l = ps ! 0"
    using dll_linkedD(3,6) [OF assms(1)] assms(2) by (cases ps) (simp_all add: first_half_def)
  moreover have "pos < doubly_linked_list_size l div 2 \<longleftrightarrow> unat pos < length ts div 2"
    using linked_size [OF assms(1)] by (simp add: word_less_nat_alt unat_div)
  ultimately show ?thesis
    using pos assms(2) get_node_from_head_nth [OF assms(1) first_half_less [OF assms(2)]]
    by (auto simp: doubly_linked_list_get_node_def first_half_def)
qed

lemma get_first_half:
  assumes "dll_linked l ps ts" and "first_half pos ts"
  shows "doubly_linked_list_get l pos = Inr (ts ! unat pos)"
proof -
  have pos: "pos < doubly_linked_list_size l"
    using first_half_less [OF assms(2)] linked_size [OF assms(1)] by (simp add: word_less_nat_alt)
  have "unat pos < length ps" using first_half_less [OF assms(2)] dll_linkedD(6) [OF assms(1)] by simp
  with dseg_nth [OF dll_linkedD(1) [OF assms(1)], of "unat pos"]
  show ?thesis
    using pos get_node_first_half [OF assms]
    by (simp add: doubly_linked_list_get_def node_get_def node_at_def)
qed

lemma last_or_last: "ps \<noteq> [] \<Longrightarrow> last_or a ps = last ps"
  by (simp add: last_or_def)

section \<open>The second half\<close>

text \<open>The walk from the tail starts at the head: one step back from there is \<open>NULL\<close>.\<close>

lemma walk_prev_from_head:
  assumes "dll_linked l ps ts" and "ts \<noteq> []"
  shows "walk (node_prev (nodes l)) 0 (head l) = Inr (ps ! 0)"
    and "walk (node_prev (nodes l)) 1 (head l) = Inr NULL"
    and "walk (node_prev (nodes l)) (Suc (Suc n)) (head l) = Inl Null_deref"
proof -
  have h: "head l = ps ! 0" "0 < length ps"
    using dll_linkedD(3,6) [OF assms(1)] assms(2) by (cases ps; simp)+
  then have "node_prev (nodes l) (ps ! 0) = Inr NULL"
    using dseg_nth [OF dll_linkedD(1) [OF assms(1)], of 0] by (simp add: node_prev_def node_at_def)
  moreover have "node_prev (nodes l) NULL = Inl Null_deref" by (simp add: node_prev_def)
  ultimately show "walk (node_prev (nodes l)) 0 (head l) = Inr (ps ! 0)"
    and "walk (node_prev (nodes l)) 1 (head l) = Inr NULL"
    and "walk (node_prev (nodes l)) (Suc (Suc n)) (head l) = Inl Null_deref"
    using h by simp_all
qed

lemma get_node_second_half:
  assumes "dll_linked l ps ts" and "0 < unat pos" and "length ts div 2 \<le> unat pos" and "unat pos < length ts"
  shows "doubly_linked_list_get_node l pos
    = walk (node_prev (nodes l)) (length ts - 1 - unat pos) (head l)"
proof -
  let ?n = "doubly_linked_list_size l"
  have size: "unat ?n = length ts" by (rule linked_size [OF assms(1)])
  have pos: "pos < ?n" "pos \<noteq> 0" "pos \<noteq> ?n" using assms(2,4) size by (auto simp: word_less_nat_alt)
  have "unat (?n - 1) = length ts - 1"
    using size assms(4) by (subst unat_minus_one) auto
  moreover have "\<not> pos < ?n div 2" using assms(3) size by (simp add: word_less_nat_alt unat_div)
  ultimately show ?thesis
    using pos by (simp add: doubly_linked_list_get_node_def doubly_linked_list_get_node_from_tail_def)
qed

section \<open>Insertion and removal inside the first half\<close>

lemma split_inner:
  assumes "dll_linked l ps ts" and "0 < i" and "i < length ts"
  obtains xs b q ys us v w vs where "ps = xs @ b # q # ys" and "ts = us @ v # w # vs"
    and "i = Suc (length xs)" and "length us = length xs" and "ps ! i = q"
    and "dseg (nodes l) NULL xs us b" and "dseg (nodes l) q ys vs NULL"
    and "nodes l b = Some \<lparr>tid = v, nxt = q, prv = last_or NULL xs\<rparr>"
    and "nodes l q = Some \<lparr>tid = w, nxt = first_or NULL ys, prv = b\<rparr>" and "b \<noteq> NULL" and "q \<noteq> NULL"
proof -
  note r = dll_linkedD [OF assms(1)]
  have i: "i < length ps" "i - 1 < length ps" using assms r(6) by simp_all
  let ?xs = "take (i - 1) ps" and ?ys = "drop (Suc i) ps"
  have "drop (i - 1) ps = ps ! (i - 1) # ps ! i # ?ys"
    using i assms(2) by (metis Cons_nth_drop_Suc Suc_diff_1)
  then have ps: "ps = ?xs @ ps ! (i - 1) # ps ! i # ?ys" by (metis append_take_drop_id)
  from dseg_split [of "nodes l" NULL ?xs "ps ! (i - 1) # ps ! i # ?ys" ts NULL] r(1) ps
  obtain us rest where us: "ts = us @ rest" "length us = length ?xs"
    "length rest = Suc (Suc (length ?ys))" "dseg (nodes l) NULL ?xs us (ps ! (i - 1))"
    "dseg (nodes l) (last_or NULL ?xs) (ps ! (i - 1) # ps ! i # ?ys) rest NULL"
    by (metis first_or_simps(2) length_Cons)
  then obtain v w vs where rest: "rest = v # w # vs" by (metis Suc_length_conv)
  show thesis
    by (rule that [OF ps, of us v w vs]) (use us rest assms(2) i in auto)
qed

lemma insert_inner_repr:
  assumes repr: "dll_repr l ps ts" and fresh: "fresh_node l p"
    and pos: "first_half pos ts" "pos \<noteq> 0"
  shows "\<exists>l'. doubly_linked_list_insert p l pos t = Inr (True, l')
    \<and> dll_repr l' (take (unat pos) ps @ p # drop (unat pos) ps)
        (take (unat pos) ts @ t # drop (unat pos) ts)"
proof -
  let ?l = "l\<lparr>nodes := (nodes l)(p \<mapsto> \<lparr>tid = t, nxt = NULL, prv = NULL\<rparr>)\<rparr>"
  note p = repr_fresh [OF repr fresh] and r = dll_reprD [OF repr]
  have linked: "dll_linked l ps ts" using repr by (simp add: repr_linked)
  then have linked': "dll_linked ?l ps ts" using p by (simp add: linked_upd)
  have less: "unat pos < length ts" by (rule first_half_less [OF pos(1)])
  have i: "0 < unat pos" using pos(2) by (simp add: unat_gt_0)
  obtain xs b q ys us v w vs where s: "ps = xs @ b # q # ys" "ts = us @ v # w # vs"
    "unat pos = Suc (length xs)" "length us = length xs" "ps ! unat pos = q"
    and d: "dseg (nodes l) NULL xs us b" "dseg (nodes l) q ys vs NULL"
    "nodes l b = Some \<lparr>tid = v, nxt = q, prv = last_or NULL xs\<rparr>"
    "nodes l q = Some \<lparr>tid = w, nxt = first_or NULL ys, prv = b\<rparr>" "b \<noteq> NULL" "q \<noteq> NULL"
    by (rule split_inner [OF linked i less])
  have dist: "b \<noteq> q" "b \<notin> set xs" "b \<notin> set ys" "q \<notin> set xs" "q \<notin> set ys"
    "p \<noteq> b" "p \<noteq> q" "p \<notin> set xs" "p \<notin> set ys"
    using r(2) p s(1) by auto
  have get: "doubly_linked_list_get_node ?l pos = Inr q"
    using get_node_first_half [OF linked' pos(1)] s(5) by simp
  have guards: "\<not> doubly_linked_list_is_empty ?l" "pos < doubly_linked_list_size ?l"
    "pos \<noteq> doubly_linked_list_size ?l" "pos \<le> doubly_linked_list_size l" "0 < pos"
    using linked_size [OF linked] less pos(2)
    by (auto simp: doubly_linked_list_is_empty_def doubly_linked_list_size_def word_less_nat_alt
        word_le_nat_alt word_neq_0_conv)
  let ?h = "(nodes l)(p \<mapsto> \<lparr>tid = t, nxt = q, prv = b\<rparr>,
      b \<mapsto> \<lparr>tid = v, nxt = p, prv = last_or NULL xs\<rparr>,
      q \<mapsto> \<lparr>tid = w, nxt = first_or NULL ys, prv = p\<rparr>)"
  have "doubly_linked_list_insert_middle_node ?l pos p
      = Inr (l\<lparr>dsize := dsize l + 1, nodes := ?h\<rparr>)"
    using get guards d dist p
    by (simp add: doubly_linked_list_insert_middle_node_def doubly_linked_list_size_def node_unfold
        fun_upd_twist)
  then have "doubly_linked_list_insert p l pos t
      = Inr (True, l\<lparr>dsize := dsize l + 1, nodes := ?h\<rparr>)"
    using guards pos(2) by (simp add: doubly_linked_list_insert_def new_node_linked [OF fresh])
  moreover have "dll_repr (l\<lparr>dsize := dsize l + 1, nodes := ?h\<rparr>)
      (xs @ b # p # q # ys) (us @ v # t # w # vs)"
    using r s d dist p by (auto simp: dll_repr_def dseg_append)
  moreover have "take (unat pos) ps @ p # drop (unat pos) ps = xs @ b # p # q # ys"
    "take (unat pos) ts @ t # drop (unat pos) ts = us @ v # t # w # vs"
    using s by simp_all
  ultimately show ?thesis by (simp only:) blast
qed

lemma remove_inner_repr:
  assumes repr: "dll_repr l ps ts" and pos: "first_half pos ts" "pos \<noteq> 0" "Suc (unat pos) < length ts"
  shows "\<exists>l'. doubly_linked_list_remove l pos = Inr (ts ! unat pos, l')
    \<and> represents_list l' (take (unat pos) ts @ drop (Suc (unat pos)) ts)"
proof -
  note r = dll_reprD [OF repr]
  have linked: "dll_linked l ps ts" using repr by (simp add: repr_linked)
  have less: "unat pos < length ts" by (rule first_half_less [OF pos(1)])
  have i: "0 < unat pos" using pos(2) by (simp add: unat_gt_0)
  obtain xs b q ys us v w vs where s: "ps = xs @ b # q # ys" "ts = us @ v # w # vs"
    "unat pos = Suc (length xs)" "length us = length xs" "ps ! unat pos = q"
    and d: "dseg (nodes l) NULL xs us b" "dseg (nodes l) q ys vs NULL"
    "nodes l b = Some \<lparr>tid = v, nxt = q, prv = last_or NULL xs\<rparr>"
    "nodes l q = Some \<lparr>tid = w, nxt = first_or NULL ys, prv = b\<rparr>" "b \<noteq> NULL" "q \<noteq> NULL"
    by (rule split_inner [OF linked i less])
  obtain y yt x xt where y: "ys = y # yt" "vs = x # xt"
    using d(2) s pos(3) r(7) by (cases ys; cases vs) auto
  have dist: "b \<noteq> q" "b \<notin> set xs" "b \<notin> set ys" "q \<notin> set xs" "q \<notin> set ys"
    "y \<noteq> b" "y \<noteq> q" "y \<notin> set xs" "y \<notin> set yt"
    using r(2) s(1) y by auto
  have at_y: "y \<noteq> NULL" "nodes l y = Some \<lparr>tid = x, nxt = first_or NULL yt, prv = q\<rparr>"
    "dseg (nodes l) y yt xt NULL"
    using d(2) y by auto
  have get: "doubly_linked_list_get_node l pos = Inr q"
    using get_node_first_half [OF linked pos(1)] s(5) by simp
  have size: "unat (doubly_linked_list_size l) = length ts" by (rule linked_size [OF linked])
  have "unat (doubly_linked_list_size l - 1) = length ts - 1"
    using size less by (subst unat_minus_one) auto
  then have guards: "\<not> doubly_linked_list_is_empty l" "pos < doubly_linked_list_size l"
    "pos \<noteq> doubly_linked_list_size l" "0 < pos" "pos < doubly_linked_list_size l - 1"
    using size less pos(2,3)
    by (auto simp: doubly_linked_list_is_empty_def word_less_nat_alt word_neq_0_conv)
  let ?g = "(nodes l)(b \<mapsto> \<lparr>tid = v, nxt = y, prv = last_or NULL xs\<rparr>,
      y \<mapsto> \<lparr>tid = x, nxt = first_or NULL yt, prv = b\<rparr>)"
  let ?l = "l\<lparr>dsize := dsize l - 1, nodes := ?g(q := None)\<rparr>"
  have "doubly_linked_list_remove_middle_node l pos = Inr (q, l\<lparr>dsize := dsize l - 1, nodes := ?g\<rparr>)"
    using get guards d(3-6) dist y at_y
    by (simp add: doubly_linked_list_remove_middle_node_def node_unfold)
  moreover have "take_and_destroy (q, l\<lparr>dsize := dsize l - 1, nodes := ?g\<rparr>) = Inr (w, ?l)"
    using d(4,6) dist by (simp add: take_and_destroy_def node_unfold)
  ultimately have "doubly_linked_list_remove l pos = Inr (w, ?l)"
    using guards pos(2) by (simp add: doubly_linked_list_remove_def)
  moreover have "dll_repr ?l (xs @ b # ys) (us @ v # vs)"
    using r s d dist y at_y by (auto simp: dll_repr_def dseg_append)
  moreover have "take (unat pos) ts @ drop (Suc (unat pos)) ts = us @ v # vs" "ts ! unat pos = w"
    using s by (simp_all add: nth_append)
  ultimately show ?thesis unfolding represents_list_def by auto
qed

end
