(* ===== verification/Server_Queue.thy ===== *)
theory Server_Queue
  imports Server_List_Inv
begin

text \<open>
  The queue of \<open>server/src/queue.c\<close> on top of the doubly linked list, and the contract the
  server relies on when it keeps its threads in it: the locale \<open>fifo_queue\<close>, with the loop that
  empties a queue as its client. The second half states the properties of the list and of the
  queue.
\<close>

section \<open>The contract of a queue\<close>

text \<open>The loop \<open>while (!queue_is_empty (q)) act (queue_dequeue (q))\<close>.\<close>

fun drain ::
  "('s \<Rightarrow> bool) \<Rightarrow> ('s \<Rightarrow> stop + ('e \<times> 's)) \<Rightarrow> ('e \<Rightarrow> 'w \<Rightarrow> 'w) \<Rightarrow> nat \<Rightarrow> 's \<Rightarrow> 'w \<Rightarrow> stop + ('s \<times> 'w)" where
  "drain is_empty deq act 0 s w = (if is_empty s then Inr (s, w) else Inl No_return)"
| "drain is_empty deq act (Suc n) s w =
     (if is_empty s then Inr (s, w)
      else andThen (deq s) (\<lambda>(x, s'). drain is_empty deq act n s' (act x w)))"

locale fifo_queue =
  fixes holds :: "'s \<Rightarrow> 'e list \<Rightarrow> bool"
    and is_empty :: "'s \<Rightarrow> bool"
    and room :: "'a \<Rightarrow> 's \<Rightarrow> bool"
    and enq :: "'a \<Rightarrow> 's \<Rightarrow> 'e \<Rightarrow> stop + (bool \<times> 's)"
    and deq :: "'s \<Rightarrow> stop + ('e \<times> 's)"
  assumes empty_iff: "holds s xs \<Longrightarrow> is_empty s \<longleftrightarrow> xs = []"
    and enq_adds: "holds s xs \<Longrightarrow> room a s \<Longrightarrow> \<exists>s'. enq a s x = Inr (True, s') \<and> holds s' (xs @ [x])"
    and deq_takes: "holds s (x # xs) \<Longrightarrow> \<exists>s'. deq s = Inr (x, s') \<and> holds s' xs"
begin

lemma drain_in_order:
  "holds s xs \<Longrightarrow> length xs \<le> fuel \<Longrightarrow>
     \<exists>s'. drain is_empty deq act fuel s w = Inr (s', fold act xs w) \<and> holds s' []"
proof (induction xs arbitrary: s w fuel)
  case Nil
  then show ?case using empty_iff [OF Nil(1)] by (cases fuel) auto
next
  case (Cons x xs)
  obtain n where n: "fuel = Suc n" using Cons.prems(2) by (cases fuel) auto
  obtain s' where s': "deq s = Inr (x, s')" "holds s' xs" using deq_takes [OF Cons.prems(1)] by blast
  from Cons.IH [OF s'(2), of n "act x w"] Cons.prems(2) n obtain s'' where
    "drain is_empty deq act n s' (act x w) = Inr (s'', fold act xs (act x w))" "holds s'' []"
    by auto
  then show ?case using n s'(1) empty_iff [OF Cons.prems(1)] by simp
qed

lemma enq_not_empty: "holds s xs \<Longrightarrow> enq a s x = Inr (True, s') \<Longrightarrow> room a s \<Longrightarrow> \<not> is_empty s'"
  using enq_adds [of s xs a x] empty_iff [of s' "xs @ [x]"] by auto

end

section \<open>The queue\<close>

definition queue_initialize :: "doubly_linked_list \<Rightarrow> bool \<times> doubly_linked_list" where
  "queue_initialize self = doubly_linked_list_initialize self"

definition queue_finalize :: "doubly_linked_list \<Rightarrow> stop + unit" where
  "queue_finalize self = doubly_linked_list_finalize self"

definition queue_new :: "doubly_linked_list option \<Rightarrow> doubly_linked_list option" where
  "queue_new malloc_result = doubly_linked_list_new malloc_result"

definition queue_destroy :: "doubly_linked_list \<Rightarrow> stop + unit" where
  "queue_destroy self = doubly_linked_list_destroy self"

definition queue_is_empty :: "doubly_linked_list \<Rightarrow> bool" where
  "queue_is_empty self = doubly_linked_list_is_empty self"

definition queue_enqueue :: "ptr \<Rightarrow> doubly_linked_list \<Rightarrow> u64 \<Rightarrow> stop + (bool \<times> doubly_linked_list)" where
  "queue_enqueue malloc_result self t = doubly_linked_list_insert_head malloc_result self t"

definition queue_dequeue :: "doubly_linked_list \<Rightarrow> stop + (u64 \<times> doubly_linked_list)" where
  "queue_dequeue self = doubly_linked_list_remove_tail self"

text \<open>The queue holds \<open>xs\<close>, the oldest element first: the list has them in reverse.\<close>

definition queue_holds :: "doubly_linked_list \<Rightarrow> u64 list \<Rightarrow> bool" where
  "queue_holds q xs \<longleftrightarrow> represents_list q (rev xs)"

definition fresh_for_queue :: "ptr \<Rightarrow> doubly_linked_list \<Rightarrow> bool" where
  "fresh_for_queue p q \<longleftrightarrow> fresh_node q p"

lemma queue_enqueue_holds:
  "queue_holds q xs \<Longrightarrow> fresh_for_queue p q \<Longrightarrow>
     \<exists>q'. queue_enqueue p q t = Inr (True, q') \<and> queue_holds q' (xs @ [t])"
proof -
  assume q: "queue_holds q xs" and p: "fresh_for_queue p q"
  obtain ps where "dll_repr q ps (rev xs)" using q by (auto simp: queue_holds_def represents_list_def)
  from insert_head_repr [OF this, of p t] p
  obtain q' where "queue_enqueue p q t = Inr (True, q')" "dll_repr q' (p # ps) (t # rev xs)"
    by (auto simp: queue_enqueue_def fresh_for_queue_def)
  then show ?thesis by (auto simp: queue_holds_def represents_list_def)
qed

lemma queue_dequeue_holds:
  assumes "queue_holds q (t # xs)"
  shows "\<exists>q'. queue_dequeue q = Inr (t, q') \<and> queue_holds q' xs"
proof -
  obtain ps where ps: "dll_repr q ps (rev xs @ [t])"
    using assms by (auto simp: queue_holds_def represents_list_def)
  then have "ps \<noteq> []" using dll_reprD(7) [OF ps] by auto
  then obtain ps' p where "ps = ps' @ [p]" by (cases ps rule: rev_cases) auto
  with ps remove_tail_repr [of q ps' p "rev xs" t] show ?thesis
    by (auto simp: queue_holds_def represents_list_def queue_dequeue_def)
qed

lemma queue_empty_holds: "queue_holds q xs \<Longrightarrow> queue_is_empty q \<longleftrightarrow> xs = []"
  using repr_empty [of q _ "rev xs"] by (auto simp: queue_holds_def represents_list_def queue_is_empty_def)

interpretation tq: fifo_queue queue_holds queue_is_empty fresh_for_queue queue_enqueue queue_dequeue
  by unfold_locales (simp_all add: queue_empty_holds queue_enqueue_holds queue_dequeue_holds)

lemma queue_new_holds:
  "nodes raw = Map.empty \<Longrightarrow> \<exists>q. queue_new (Some raw) = Some q \<and> queue_holds q []"
  using clear_repr [of raw]
  by (auto simp: queue_new_def doubly_linked_list_new_def doubly_linked_list_initialize_def
      queue_holds_def represents_list_def)

lemma queue_emptied:
  assumes "queue_holds q []"
  shows "nodes q = Map.empty \<and> queue_destroy q = Inr ()"
proof -
  obtain ps where ps: "dll_repr q ps []" using assms by (auto simp: queue_holds_def represents_list_def)
  then have "dom (nodes q) = {}" using dll_reprD(3,7) [OF ps] by simp
  then show ?thesis
    using repr_empty [OF ps]
    by (simp add: queue_destroy_def doubly_linked_list_destroy_def doubly_linked_list_finalize_def)
qed

section \<open>Concrete lists\<close>

text \<open>A list of four threads.\<close>

definition demo_list :: doubly_linked_list where
  "demo_list = \<lparr>head = 1, tail = 4, dsize = 4, nodes =
     [1 \<mapsto> \<lparr>tid = 11, nxt = 2, prv = NULL\<rparr>, 2 \<mapsto> \<lparr>tid = 12, nxt = 3, prv = 1\<rparr>,
      3 \<mapsto> \<lparr>tid = 13, nxt = 4, prv = 2\<rparr>, 4 \<mapsto> \<lparr>tid = 14, nxt = NULL, prv = 3\<rparr>]\<rparr>"

lemma demo_list_repr: "dll_repr demo_list [1, 2, 3, 4] [11, 12, 13, 14]"
  by (auto simp: dll_repr_def demo_list_def)

lemma demo_list_represents: "represents_list demo_list [11, 12, 13, 14]"
  using demo_list_repr by (auto simp: represents_list_def)

lemma demo_queue_holds: "queue_holds demo_list [14, 13, 12, 11]"
  using demo_list_represents by (simp add: queue_holds_def)

lemma demo_fresh: "fresh_node demo_list 5" "fresh_for_queue 5 demo_list"
  by (simp_all add: fresh_for_queue_def fresh_node_def demo_list_def)

end
