(* ===== verification/Server_Os.thy ===== *)
theory Server_Os
  imports Server_Queue Aesd_Ioctl Aesd_Memory
begin

text \<open>
  What \<open>server/src/aesdsocket.c\<close> runs on: the state of the process and the system calls.

  The system calls are the fields of the record \<open>os\<close>, over an environment of any type \<open>'e\<close>: the
  kernel, the peer, the other threads. Each takes the environment and gives a new one. A call whose
  failure is reported by \<open>-1\<close> and \<open>errno\<close> has a result of type \<open>io\<close>; calls on files and
  sockets can also fail to come back (\<open>Inl No_return\<close>) or run into undefined behaviour of the
  driver behind the file.
\<close>

section \<open>Results of system calls\<close>

text \<open>The result of a call, \<open>-1\<close> with \<open>EINTR\<close>, \<open>-1\<close> with another error.\<close>

datatype 'a io = Done 'a | Interrupted | Failed

text \<open>The loop of \<open>TRYC_RETRY_ON_EINTR\<close>: the call is repeated while a signal interrupts it;
  \<open>None\<close> is the jump to \<open>done\<close>. The fuel bounds the number of calls.\<close>

fun retry_on_eintr ::
  "nat \<Rightarrow> ('e \<Rightarrow> stop + ('a io \<times> 'e)) \<Rightarrow> 'e \<Rightarrow> stop + ('a option \<times> 'e)" where
  "retry_on_eintr 0 call e = Inl No_return"
| "retry_on_eintr (Suc n) call e =
     andThen (call e) (\<lambda>(r, e').
       case r of
         Done x \<Rightarrow> Inr (Some x, e')
       | Interrupted \<Rightarrow> retry_on_eintr n call e'
       | Failed \<Rightarrow> Inr (None, e'))"

text \<open>\<open>TRYC_ERRNO\<close>: an interrupted call is a failed one.\<close>

definition try_errno :: "stop + ('a io \<times> 'e) \<Rightarrow> stop + ('a option \<times> 'e)" where
  "try_errno call =
     andThen call (\<lambda>(r, e). Inr (case r of Done x \<Rightarrow> (Some x, e) | _ \<Rightarrow> (None, e)))"

lemma try_errno_simps [simp]:
  "try_errno (Inr (Done x, e)) = Inr (Some x, e)"
  "try_errno (Inr (Interrupted, e)) = Inr (None, e)"
  "try_errno (Inr (Failed, e)) = Inr (None, e)"
  by (simp_all add: try_errno_def)

section \<open>The process\<close>

text \<open>The argument of a thread. The program has one monitor, so the field \<open>file_monitor\<close>, and
  the parameter of that name, are left out.\<close>

record aesdsocket_thread_arg =
  conn_sockfd :: int
  filename :: ptr
  remote_name :: ptr
  seekto_command :: "byte list"

text \<open>\<open>mem\<close> holds the allocated strings, \<open>args\<close> the allocated thread arguments.\<close>

record 'e proc =
  env :: 'e
  mem :: kheap
  args :: "ptr \<Rightarrow> aesdsocket_thread_arg option"
  termination_flag :: bool
  timestamp_flag :: bool

datatype monitor_op = Start_reading | Stop_reading | Start_writing | Stop_writing

text \<open>Every \<open>open\<close> of the server adds \<open>O_APPEND | O_CREAT\<close> and the same permissions, apart
  from that of \<open>/dev/null\<close>.\<close>

datatype access = O_RDONLY | O_WRONLY | O_RDWR

record tm =
  tm_sec :: int  tm_min :: int  tm_hour :: int  tm_mday :: int  tm_mon :: int
  tm_year :: int  tm_wday :: int  tm_yday :: int  tm_isdst :: int

text \<open>A socket address by its family.\<close>

datatype sockaddr = Sockaddr_in "byte list" | Sockaddr_in6 "byte list" | Sockaddr_other nat

record 'e os =
  os_realloc :: "kheap \<Rightarrow> ptr \<Rightarrow> u64 \<Rightarrow> ptr \<times> kheap"
  os_signal :: "'e \<Rightarrow> int option \<times> 'e"
  os_recv :: "int \<Rightarrow> nat \<Rightarrow> 'e \<Rightarrow> stop + (byte list io \<times> 'e)"
  os_send :: "int \<Rightarrow> byte list \<Rightarrow> 'e \<Rightarrow> stop + (u64 io \<times> 'e)"
  os_read :: "int \<Rightarrow> nat \<Rightarrow> 'e \<Rightarrow> stop + (byte list io \<times> 'e)"
  os_write :: "int \<Rightarrow> byte list \<Rightarrow> 'e \<Rightarrow> stop + (u64 io \<times> 'e)"
  os_open :: "byte list \<Rightarrow> access \<Rightarrow> 'e \<Rightarrow> stop + (int io \<times> 'e)"
  os_close :: "int \<Rightarrow> 'e \<Rightarrow> 'e"
  os_ioctl_seekto :: "int \<Rightarrow> aesd_seekto \<Rightarrow> 'e \<Rightarrow> stop + (int io \<times> 'e)"
  os_monitor :: "monitor_op \<Rightarrow> 'e \<Rightarrow> stop + 'e"
  os_clock :: "'e \<Rightarrow> stop + (int io \<times> 'e)"
  os_localtime :: "int \<Rightarrow> tm option"
  os_strftime :: "byte list \<Rightarrow> nat \<Rightarrow> tm \<Rightarrow> byte list"

section \<open>Signals\<close>

definition SIGINT :: int where "SIGINT = 2"
definition SIGALRM :: int where "SIGALRM = 14"
definition SIGTERM :: int where "SIGTERM = 15"

definition aesdsocket_terminate_handler :: "int \<Rightarrow> 'e proc \<Rightarrow> 'e proc" where
  "aesdsocket_terminate_handler signo p =
     (if signo = SIGTERM \<or> signo = SIGINT then p\<lparr>termination_flag := True\<rparr> else p)"

definition aesdsocket_timestamp_handler :: "int \<Rightarrow> 'e proc \<Rightarrow> 'e proc" where
  "aesdsocket_timestamp_handler signo p =
     (if signo = SIGALRM then p\<lparr>timestamp_flag := True\<rparr> else p)"

text \<open>The flags are volatile: before each reading of one, the environment may have delivered a
  signal to the process, which has run its handler.\<close>

definition deliver_signal :: "'e os \<Rightarrow> 'e proc \<Rightarrow> 'e proc" where
  "deliver_signal S p =
     (let (sig, e) = os_signal S (env p); p1 = p\<lparr>env := e\<rparr>
      in case sig of
           None \<Rightarrow> p1
         | Some signo \<Rightarrow> aesdsocket_timestamp_handler signo (aesdsocket_terminate_handler signo p1))"

text \<open>A process to which no signal comes reads its flags as they are.\<close>

lemma deliver_none:
  "os_signal S (env p) = (None, env p) \<Longrightarrow> deliver_signal S p = p"
  by (simp add: deliver_signal_def)

lemma termination_is_sticky: "termination_flag p \<Longrightarrow> termination_flag (deliver_signal S p)"
  by (auto simp: deliver_signal_def Let_def aesdsocket_terminate_handler_def
      aesdsocket_timestamp_handler_def
      split: prod.splits option.splits)

lemma retry_on_eintr_done:
  "call e = Inr (Done x, e') \<Longrightarrow> retry_on_eintr (Suc n) call e = Inr (Some x, e')"
  by simp

lemma retry_on_eintr_failed:
  "call e = Inr (Failed, e') \<Longrightarrow> retry_on_eintr (Suc n) call e = Inr (None, e')"
  by simp

text \<open>More fuel does not change the result.\<close>

lemma retry_on_eintr_mono:
  "retry_on_eintr n call e = r \<Longrightarrow> r \<noteq> Inl No_return \<Longrightarrow> n \<le> n' \<Longrightarrow>
    retry_on_eintr n' call e = r"
proof (induction n arbitrary: e n')
  case 0
  then show ?case by simp
next
  case (Suc n)
  obtain m where m: "n' = Suc m" and nm: "n \<le> m" using Suc.prems(3) by (cases n') auto
  show ?case
  proof (cases "call e")
    case (Inl s)
    then show ?thesis using Suc.prems(1) m by simp
  next
    case (Inr y)
    obtain x e' where y: "y = (x, e')" by (cases y)
    show ?thesis
      using Suc.prems Suc.IH [of e' m] nm unfolding m
      by (cases x) (simp_all add: Inr y)
  qed
qed

end
