(* ===== verification/Server_Socket.thy ===== *)
theory Server_Socket
  imports Server_Os Aesd_Cstring
begin

text \<open>
  The line handling of \<open>server/src/aesdsocket.c\<close>: receiving a line from the socket, reading one
  from the file, writing and sending one, sending the whole file, the seek request a line may
  hold, serving a connection and the thread that does it, and taking a timestamp.

  Loops take fuel; \<open>Inl No_return\<close> is a call that has not come back with that much of it. The
  results start with the \<open>bool\<close> the function returns. Sizes are natural numbers where the code
  only adds to them, and \<open>u64\<close> where it subtracts what a system call returned.
\<close>

definition BUFFSIZE :: nat where "BUFFSIZE = 1024"

definition newline :: byte where "newline = 10"

section \<open>Collecting a line\<close>

text \<open>The part that \<open>aesdsocket_recv_line\<close> and \<open>aesdsocket_read_line\<close> share, after
  \<open>bytes_read\<close> bytes have come into the buffer: find the end of the line in the whole buffer,
  grow the line and append the useful bytes. The results are whether memory sufficed, \<open>eol\<close>,
  \<open>line_buffer\<close> and \<open>line_buffer_size\<close>.\<close>

definition append_chunk ::
  "'e os \<Rightarrow> byte list \<Rightarrow> nat \<Rightarrow> ptr \<Rightarrow> nat \<Rightarrow> 'e proc \<Rightarrow> stop + (bool \<times> bool \<times> ptr \<times> nat \<times> 'e proc)" where
  "append_chunk S buffer bytes_read line_buffer line_buffer_size p =
     andThen (c_strchr buffer newline) (\<lambda>newline_pointer.
       let (eol, useful_bytes) =
             (case newline_pointer of Some i \<Rightarrow> (True, i + 1) | None \<Rightarrow> (False, bytes_read))
       in if 0 < useful_bytes
          then andThen (c_realloc (os_realloc S) (mem p) line_buffer
                         (of_nat (line_buffer_size + useful_bytes + 1))) (\<lambda>(q, h).
               if q = NULL then Inr (False, eol, NULL, line_buffer_size, p\<lparr>mem := h\<rparr>)
               else andThen (deref h q) (\<lambda>block.
                    andThen (c_strncpy block line_buffer_size buffer useful_bytes) (\<lambda>block'.
                      Inr (True, eol, q, line_buffer_size + useful_bytes,
                           p\<lparr>mem := h(q \<mapsto> block')\<rparr>))))
          else Inr (True, eol, line_buffer, line_buffer_size, p))"

text \<open>The \<open>BUFFSIZE\<close> bytes of the buffer after a call that stored \<open>bs\<close> at its start.\<close>

definition fill :: "byte list \<Rightarrow> byte list \<Rightarrow> stop + byte list" where
  "fill buffer bs =
     (if length bs \<le> length buffer then Inr (bs @ drop (length bs) buffer) else Inl Out_of_bounds)"

section \<open>Receiving a line\<close>

fun recv_loop ::
  "'e os \<Rightarrow> int \<Rightarrow> nat \<Rightarrow> byte list \<Rightarrow> ptr \<Rightarrow> nat \<Rightarrow> 'e proc \<Rightarrow> stop + (bool \<times> ptr \<times> nat \<times> 'e proc)" where
  "recv_loop S socket_fd 0 buffer line_buffer line_buffer_size p = Inl No_return"
| "recv_loop S socket_fd (Suc n) buffer line_buffer line_buffer_size p =
     (let p1 = deliver_signal S p
      in if termination_flag p1 then Inr (True, line_buffer, line_buffer_size, p1)
         else andThen (os_recv S socket_fd BUFFSIZE (env p1)) (\<lambda>(r, e).
           let p2 = p1\<lparr>env := e\<rparr>
           in case r of
                Failed \<Rightarrow> Inr (False, line_buffer, line_buffer_size, p2)
              | Interrupted \<Rightarrow> recv_loop S socket_fd n buffer line_buffer line_buffer_size p2
              | Done bs \<Rightarrow>
                  andThen (fill buffer bs) (\<lambda>buffer'.
                    if bs = [] then recv_loop S socket_fd n buffer' line_buffer line_buffer_size p2
                    else andThen (append_chunk S buffer' (length bs) line_buffer line_buffer_size p2)
                      (\<lambda>(allocated, eol, line_buffer', line_buffer_size', p3).
                        if \<not> allocated then Inr (False, line_buffer', line_buffer_size', p3)
                        else if eol then Inr (True, line_buffer', line_buffer_size', p3)
                        else recv_loop S socket_fd n buffer' line_buffer' line_buffer_size' p3))))"

text \<open>From the end of the loop to \<open>return\<close>: the terminating NUL, or the clean-up of a failure.
  The results are \<open>ok\<close> and \<open>*line\<close>.\<close>

definition finish_line ::
  "bool \<Rightarrow> ptr \<Rightarrow> nat \<Rightarrow> ptr \<Rightarrow> 'e proc \<Rightarrow> stop + (bool \<times> ptr \<times> 'e proc)" where
  "finish_line ok line_buffer line_buffer_size line p =
     (if ok
      then andThen (if line_buffer \<noteq> NULL then c_store (mem p) line_buffer line_buffer_size 0
                    else Inr (mem p)) (\<lambda>h. Inr (True, line_buffer, p\<lparr>mem := h\<rparr>))
      else andThen (if line = NULL \<and> line_buffer \<noteq> NULL then c_free (mem p) line_buffer
                    else Inr (mem p)) (\<lambda>h. Inr (False, line, p\<lparr>mem := h\<rparr>)))"

definition aesdsocket_recv_line ::
  "'e os \<Rightarrow> nat \<Rightarrow> int \<Rightarrow> ptr \<Rightarrow> 'e proc \<Rightarrow> stop + (bool \<times> ptr \<times> 'e proc)" where
  "aesdsocket_recv_line S fuel socket_fd line p =
     andThen (recv_loop S socket_fd fuel (replicate BUFFSIZE 0) line 0 p)
       (\<lambda>(ok, line_buffer, line_buffer_size, p1).
         finish_line ok line_buffer line_buffer_size line p1)"

section \<open>Writing and sending a line\<close>

text \<open>\<open>line + strlen (line) - n\<close>, for \<open>n\<close> bytes from there.\<close>

definition last_bytes :: "byte list \<Rightarrow> u64 \<Rightarrow> stop + byte list" where
  "last_bytes line n =
     andThen (c_strlen line) (\<lambda>len.
       if unat n \<le> len then Inr (take (unat n) (drop (len - unat n) line)) else Inl Out_of_bounds)"

fun write_loop ::
  "'e os \<Rightarrow> int \<Rightarrow> nat \<Rightarrow> byte list \<Rightarrow> u64 \<Rightarrow> 'e \<Rightarrow> stop + (bool \<times> 'e)" where
  "write_loop S file_fd 0 line bytes_to_write e =
     (if bytes_to_write = 0 then Inr (True, e) else Inl No_return)"
| "write_loop S file_fd (Suc n) line bytes_to_write e =
     (if bytes_to_write = 0 then Inr (True, e)
      else andThen (last_bytes line bytes_to_write) (\<lambda>bs.
           andThen (retry_on_eintr (Suc n) (os_write S file_fd bs) e) (\<lambda>(r, e1).
             case r of
               None \<Rightarrow> Inr (False, e1)
             | Some bytes_written \<Rightarrow>
                 write_loop S file_fd n line (bytes_to_write - bytes_written) e1)))"

definition aesdsocket_write_line ::
  "'e os \<Rightarrow> nat \<Rightarrow> int \<Rightarrow> byte list \<Rightarrow> 'e proc \<Rightarrow> stop + (bool \<times> 'e proc)" where
  "aesdsocket_write_line S fuel file_fd line p =
     andThen (c_strlen line) (\<lambda>len.
     andThen (os_monitor S Start_writing (env p)) (\<lambda>e.
     andThen (write_loop S file_fd fuel line (of_nat len) e) (\<lambda>(ok, e1).
       if ok then andThen (os_monitor S Stop_writing e1) (\<lambda>e2. Inr (True, p\<lparr>env := e2\<rparr>))
       else Inr (False, p\<lparr>env := e1\<rparr>))))"

fun send_loop ::
  "'e os \<Rightarrow> int \<Rightarrow> nat \<Rightarrow> byte list \<Rightarrow> u64 \<Rightarrow> 'e proc \<Rightarrow> stop + (bool \<times> 'e proc)" where
  "send_loop S socket_fd 0 line bytes_to_send p =
     (if bytes_to_send = 0 then Inr (True, p) else Inl No_return)"
| "send_loop S socket_fd (Suc n) line bytes_to_send p =
     (if bytes_to_send = 0 then Inr (True, p)
      else let p1 = deliver_signal S p
        in if termination_flag p1 then Inr (True, p1)
           else andThen (last_bytes line bytes_to_send) (\<lambda>bs.
                andThen (retry_on_eintr (Suc n) (os_send S socket_fd bs) (env p1)) (\<lambda>(r, e).
                  case r of
                    None \<Rightarrow> Inr (False, p1\<lparr>env := e\<rparr>)
                  | Some bytes_sent \<Rightarrow>
                      send_loop S socket_fd n line (bytes_to_send - bytes_sent) (p1\<lparr>env := e\<rparr>))))"

definition aesdsocket_send_line ::
  "'e os \<Rightarrow> nat \<Rightarrow> int \<Rightarrow> byte list \<Rightarrow> 'e proc \<Rightarrow> stop + (bool \<times> 'e proc)" where
  "aesdsocket_send_line S fuel socket_fd line p =
     andThen (c_strlen line) (\<lambda>len. send_loop S socket_fd fuel line (of_nat len) p)"

section \<open>Reading a line of the file\<close>

text \<open>The results are \<open>ok\<close>, \<open>eof_local\<close>, \<open>line_buffer\<close> and \<open>line_buffer_size\<close>. A false
  \<open>ok\<close> is the jump to \<open>done\<close>, past \<open>monitor_stop_reading\<close>.\<close>

fun read_loop ::
  "'e os \<Rightarrow> int \<Rightarrow> nat \<Rightarrow> byte list \<Rightarrow> ptr \<Rightarrow> nat \<Rightarrow> 'e proc \<Rightarrow>
     stop + (bool \<times> bool \<times> ptr \<times> nat \<times> 'e proc)" where
  "read_loop S file_fd 0 buffer line_buffer line_buffer_size p = Inl No_return"
| "read_loop S file_fd (Suc n) buffer line_buffer line_buffer_size p =
     andThen (retry_on_eintr (Suc n) (os_read S file_fd BUFFSIZE) (env p)) (\<lambda>(r, e).
       let p1 = p\<lparr>env := e\<rparr>
       in case r of
            None \<Rightarrow> Inr (False, False, line_buffer, line_buffer_size, p1)
          | Some bs \<Rightarrow>
              andThen (fill buffer bs) (\<lambda>buffer'.
                if bs = [] then Inr (True, True, line_buffer, line_buffer_size, p1)
                else andThen (append_chunk S buffer' (length bs) line_buffer line_buffer_size p1)
                  (\<lambda>(allocated, eol, line_buffer', line_buffer_size', p2).
                    if \<not> allocated then Inr (False, False, line_buffer', line_buffer_size', p2)
                    else if eol then Inr (True, False, line_buffer', line_buffer_size', p2)
                    else read_loop S file_fd n buffer' line_buffer' line_buffer_size' p2)))"

text \<open>The results are \<open>ok\<close>, \<open>*line\<close> and \<open>*eof\<close>, which a failure leaves as it was: false.\<close>

definition aesdsocket_read_line ::
  "'e os \<Rightarrow> nat \<Rightarrow> int \<Rightarrow> ptr \<Rightarrow> 'e proc \<Rightarrow> stop + (bool \<times> ptr \<times> bool \<times> 'e proc)" where
  "aesdsocket_read_line S fuel file_fd line p =
     andThen (os_monitor S Start_reading (env p)) (\<lambda>e.
     andThen (read_loop S file_fd fuel (replicate BUFFSIZE 0) line 0 (p\<lparr>env := e\<rparr>))
       (\<lambda>(ok, eof_local, line_buffer, line_buffer_size, p1).
         andThen (if ok then os_monitor S Stop_reading (env p1) else Inr (env p1)) (\<lambda>e1.
         andThen (finish_line ok line_buffer line_buffer_size line (p1\<lparr>env := e1\<rparr>))
           (\<lambda>(ok', line', p2). Inr (ok', line', ok' \<and> eof_local, p2)))))"

section \<open>Sending the whole file\<close>

fun send_file_loop ::
  "'e os \<Rightarrow> nat \<Rightarrow> int \<Rightarrow> int \<Rightarrow> nat \<Rightarrow> ptr \<Rightarrow> 'e proc \<Rightarrow> stop + (bool \<times> ptr \<times> 'e proc)" where
  "send_file_loop S fuel socket_fd file_fd 0 line p = Inl No_return"
| "send_file_loop S fuel socket_fd file_fd (Suc n) line p =
     andThen (aesdsocket_read_line S fuel file_fd line p) (\<lambda>(ok, line', eof, p1).
       if \<not> ok then Inr (False, line', p1)
       else andThen
         (if line' = NULL then Inr (True, p1)
          else andThen (deref (mem p1) line') (\<lambda>block.
               andThen (c_strlen block) (\<lambda>len.
                 if len = 0 then Inr (True, p1)
                 else aesdsocket_send_line S fuel socket_fd block p1)))
         (\<lambda>(sent, p2).
           if \<not> sent then Inr (False, line', p2)
           else if eof then Inr (True, line', p2)
           else send_file_loop S fuel socket_fd file_fd n line' p2))"

definition aesdsocket_read_and_send_file ::
  "'e os \<Rightarrow> nat \<Rightarrow> int \<Rightarrow> int \<Rightarrow> 'e proc \<Rightarrow> stop + (bool \<times> 'e proc)" where
  "aesdsocket_read_and_send_file S fuel socket_fd file_fd p =
     andThen (send_file_loop S fuel socket_fd file_fd fuel NULL p) (\<lambda>(ok, line, p1).
     andThen (c_free (mem p1) line) (\<lambda>h. Inr (ok, p1\<lparr>mem := h\<rparr>)))"

end
