(* ===== verification/Server_Seekto.thy ===== *)
theory Server_Seekto
  imports Server_Socket
begin

text \<open>
  The seek request in a line, as \<open>aesdsocket_serve\<close> of \<open>server/src/aesdsocket.c\<close> parses it: the
  number after the first colon up to the next comma, and the number from there to the end of the
  line, each copied into a fixed buffer and read with \<open>atoi\<close>.
\<close>

section \<open>Reading a number\<close>

text \<open>\<open>atoi\<close>: white space, an optional sign, digits. A value that is no \<open>int\<close> is undefined
  behaviour in C.\<close>

definition is_space :: "byte \<Rightarrow> bool" where
  "is_space b \<longleftrightarrow> b = 32 \<or> 9 \<le> b \<and> b \<le> 13"

definition is_digit :: "byte \<Rightarrow> bool" where
  "is_digit b \<longleftrightarrow> 48 \<le> b \<and> b \<le> 57"

fun digits_value :: "byte list \<Rightarrow> int \<Rightarrow> stop + int" where
  "digits_value [] acc = Inl Out_of_bounds"
| "digits_value (b # bs) acc =
     (if is_digit b then digits_value bs (acc * 10 + (uint b - 48)) else Inr acc)"

fun c_atoi :: "byte list \<Rightarrow> stop + int" where
  "c_atoi [] = Inl Out_of_bounds"
| "c_atoi (b # bs) =
     (if is_space b then c_atoi bs
      else andThen
        (if b = 45 then andThen (digits_value bs 0) (\<lambda>v. Inr (- v))
         else if b = 43 then digits_value bs 0
         else digits_value (b # bs) 0)
        (\<lambda>v. if - (2 ^ 31) \<le> v \<and> v < 2 ^ 31 then Inr v else Inl Int_overflow))"

section \<open>Parsing the request\<close>

text \<open>\<open>strncpy (command_buffer, src, n); command_buffer[n] = 0; atoi (command_buffer)\<close>: the
  number and the buffer.\<close>

definition field_value :: "byte list \<Rightarrow> byte list \<Rightarrow> nat \<Rightarrow> stop + (int \<times> byte list)" where
  "field_value command_buffer src n =
     andThen (c_strncpy command_buffer 0 src n) (\<lambda>b.
     if n < length b
     then andThen (c_atoi (b[n := 0])) (\<lambda>v. Inr (v, b[n := 0]))
     else Inl Out_of_bounds)"

text \<open>\<open>None\<close>: one of the three separators is missing.\<close>

definition parse_seekto :: "byte list \<Rightarrow> stop + aesd_seekto option" where
  "parse_seekto line =
     andThen (c_strchr line 58) (\<lambda>colon.
       case colon of
         None \<Rightarrow> Inr None
       | Some i \<Rightarrow>
           let command_ptr = drop (i + 1) line
           in andThen (c_strchr command_ptr 44) (\<lambda>comma.
             case comma of
               None \<Rightarrow> Inr None
             | Some command_size \<Rightarrow>
                 let command_offset_ptr = drop (command_size + 1) command_ptr
                 in andThen (c_strchr command_offset_ptr newline) (\<lambda>end_ptr.
                   case end_ptr of
                     None \<Rightarrow> Inr None
                   | Some command_offset_size \<Rightarrow>
                       andThen (field_value (replicate BUFFSIZE 0) command_ptr command_size)
                         (\<lambda>(cmd, command_buffer).
                       andThen (field_value command_buffer command_offset_ptr command_offset_size)
                         (\<lambda>(offset, _).
                         Inr (Some (Seekto (of_int cmd) (of_int offset))))))))"

section \<open>Printing numbers\<close>

text \<open>The decimal digits of a number, least significant last.\<close>

fun decimal :: "nat \<Rightarrow> byte list" where
  "decimal n = (if n < 10 then [] else decimal (n div 10)) @ [of_nat (48 + n mod 10)]"

declare decimal.simps [simp del]

lemma digit_byte:
  assumes "d < 10"
  shows "is_digit (of_nat (48 + d))" and "uint (of_nat (48 + d) :: byte) = int (48 + d)"
proof -
  have u: "unat (of_nat (48 + d) :: byte) = 48 + d" using assms by (intro unat_of_nat_u8) simp
  then show "is_digit (of_nat (48 + d))"
    using assms unfolding is_digit_def word_le_nat_alt u by simp
  show "uint (of_nat (48 + d) :: byte) = int (48 + d)" using u by (simp only: uint_nat)
qed

lemma is_digit_not: "is_digit b \<Longrightarrow> b \<noteq> 0 \<and> b \<noteq> 10 \<and> b \<noteq> 43 \<and> b \<noteq> 44 \<and> b \<noteq> 45 \<and> b \<noteq> 58 \<and> \<not> is_space b"
  by (auto simp: is_digit_def is_space_def word_le_nat_alt)

lemma decimal_digits: "b \<in> set (decimal n) \<Longrightarrow> is_digit b"
proof (induction n rule: decimal.induct)
  case (1 n)
  show ?case
    using 1 digit_byte(1) [of "n mod 10"]
    by (subst (asm) (2) decimal.simps) (auto split: if_splits)
qed

lemma decimal_nonempty: "decimal n \<noteq> []"
  by (subst decimal.simps) simp

lemma digits_value_append:
  "(\<And>b. b \<in> set ds \<Longrightarrow> is_digit b) \<Longrightarrow>
    digits_value (ds @ rest) acc = digits_value rest (fold (\<lambda>b v. v * 10 + (uint b - 48)) ds acc)"
  by (induction ds arbitrary: acc) auto

lemma decimal_value: "fold (\<lambda>b v. v * 10 + (uint b - 48)) (decimal n) 0 = int n"
proof (induction n rule: decimal.induct)
  case (1 n)
  have last: "uint (of_nat (48 + n mod 10) :: byte) = int (48 + n mod 10)"
    by (rule digit_byte(2)) simp
  show ?case
  proof (cases "n < 10")
    case True
    then show ?thesis using last by (subst decimal.simps) simp
  next
    case False
    have "int (n div 10) * 10 + int (n mod 10) = int n"
      by (metis div_mult_mod_eq of_nat_add of_nat_mult of_nat_numeral)
    with False 1 last show ?thesis by (subst decimal.simps) simp
  qed
qed

lemma atoi_decimal:
  assumes "n < 2 ^ 31" and "\<not> is_digit c"
  shows "c_atoi (decimal n @ c # rest) = Inr (int n)"
proof -
  obtain d ds where ds: "decimal n = d # ds" using decimal_nonempty [of n] by (cases "decimal n") auto
  then have d: "is_digit d" using decimal_digits [of d n] by simp
  have "digits_value (decimal n @ c # rest) 0 = Inr (int n)"
    using digits_value_append [of "decimal n" "c # rest" 0] decimal_digits [of _ n] assms(2)
    by (simp add: decimal_value)
  moreover have "int n < 2 ^ 31" using assms(1) by (simp flip: of_nat_less_iff)
  ultimately show ?thesis using is_digit_not [OF d] ds by simp
qed

lemma decimal_length: "n < 10 ^ Suc k \<Longrightarrow> length (decimal n) \<le> Suc k"
proof (induction k arbitrary: n)
  case 0
  then show ?case by (subst decimal.simps) simp
next
  case (Suc k)
  have "n div 10 < 10 ^ Suc k" using Suc.prems by (simp add: less_mult_imp_div_less)
  from Suc.IH [OF this] show ?case by (subst decimal.simps) simp
qed

section \<open>Evaluation\<close>

definition seek_line :: "byte list \<Rightarrow> byte list \<Rightarrow> byte list \<Rightarrow> byte list" where
  "seek_line kw cmd offset = kw @ 58 # cmd @ 44 # offset @ [newline]"

lemma parse_seekto_fields:
  assumes "58 \<notin> set kw" and "44 \<notin> set cmd" and "newline \<notin> set offset"
    and "0 \<notin> set kw" and "0 \<notin> set cmd" and "0 \<notin> set offset"
  shows "parse_seekto (seek_line kw cmd offset @ rest) =
    andThen (field_value (replicate BUFFSIZE 0) (cmd @ 44 # offset @ newline # rest) (length cmd))
      (\<lambda>(v, b). andThen (field_value b (offset @ newline # rest) (length offset))
        (\<lambda>(w, _). Inr (Some (Seekto (of_int v) (of_int w)))))"
proof -
  let ?fields = "cmd @ 44 # offset @ newline # rest"
  have line: "seek_line kw cmd offset @ rest = kw @ 58 # ?fields" by (simp add: seek_line_def)
  have colon: "c_strchr (kw @ 58 # ?fields) 58 = Inr (Some (length kw))"
    by (rule c_strchr_found [OF assms(1,4)])
  have comma: "c_strchr ?fields 44 = Inr (Some (length cmd))"
    by (rule c_strchr_found [OF assms(2,5)])
  have lf: "c_strchr (offset @ newline # rest) newline = Inr (Some (length offset))"
    by (rule c_strchr_found [OF assms(3,6)])
  have past: "drop (length kw + 1) (kw @ 58 # ?fields) = ?fields"
    "drop (length cmd + 1) ?fields = offset @ newline # rest" by simp_all
  show ?thesis
    unfolding line parse_seekto_def colon andThen.simps option.case Let_def past comma lf
    by simp
qed

lemma field_value_decimal:
  assumes "n < 2 ^ 31" and "length (decimal n) < length b"
  shows "\<exists>b'. field_value b (decimal n @ rest) (length (decimal n)) = Inr (int n, b')
    \<and> length b' = length b"
proof -
  let ?k = "length (decimal n)"
  let ?b' = "decimal n @ 0 # drop (Suc ?k) b"
  have no_nul: "0 \<notin> set (decimal n)" using decimal_digits is_digit_not by blast
  have copied: "c_strncpy b 0 (decimal n @ rest) ?k = Inr (decimal n @ drop ?k b)"
    using c_strncpy_text [of ?k "decimal n @ rest" 0 b] no_nul assms(2) by simp
  have "drop ?k b = b ! ?k # drop (Suc ?k) b" using Cons_nth_drop_Suc [OF assms(2)] by simp
  then have ended: "(decimal n @ drop ?k b)[?k := 0] = ?b'" by (simp add: list_update_append)
  have "\<not> is_digit 0" by (simp add: is_digit_def word_le_nat_alt)
  then have "c_atoi ?b' = Inr (int n)" by (rule atoi_decimal [OF assms(1)])
  moreover have "length ?b' = length b" using assms(2) by simp
  moreover have "?k < length (decimal n @ drop ?k b)" using assms(2) by simp
  ultimately show ?thesis
    unfolding field_value_def copied andThen.simps if_P [OF \<open>?k < length (decimal n @ drop ?k b)\<close>] ended
    by simp
qed

lemma field_value_overflow:
  assumes "length b \<le> n" and "n \<le> length src" and "0 \<notin> set (take n src)"
  shows "field_value b src n = Inl Out_of_bounds"
proof (cases "n = length b")
  case True
  then have "c_strncpy b 0 src n = Inr (take n src)"
    using c_strncpy_text [of n src 0 b] assms(2,3) by simp
  then show ?thesis using True assms(2) by (simp add: field_value_def)
next
  case False
  then have "c_strncpy b 0 src n = Inl Out_of_bounds"
    using c_strncpy_overflow [of b 0 n src] assms(1) by simp
  then show ?thesis by (simp add: field_value_def)
qed

lemma parse_seekto_printed:
  assumes "58 \<notin> set kw" and "0 \<notin> set kw" and "cmd < 2 ^ 31" and "offset < 2 ^ 31"
  shows "parse_seekto (seek_line kw (decimal cmd) (decimal offset) @ rest)
    = Inr (Some (Seekto (of_nat cmd) (of_nat offset)))"
proof -
  have short: "length (decimal n) < BUFFSIZE" if "n < 2 ^ 31" for n
  proof -
    have "n < 10 ^ Suc 9" using that by simp
    from decimal_length [OF this] show ?thesis by (simp add: BUFFSIZE_def)
  qed
  have clean: "44 \<notin> set (decimal n)" "newline \<notin> set (decimal n)" "0 \<notin> set (decimal n)" for n
    using decimal_digits [of _ n] is_digit_not by (auto simp: newline_def)
  obtain b where b: "field_value (replicate BUFFSIZE 0)
      (decimal cmd @ 44 # decimal offset @ newline # rest) (length (decimal cmd)) = Inr (int cmd, b)"
    "length b = BUFFSIZE"
    using field_value_decimal [OF assms(3), of "replicate BUFFSIZE 0" "44 # decimal offset @ newline # rest"]
      short [OF assms(3)] by auto
  moreover obtain b' where "field_value b (decimal offset @ newline # rest) (length (decimal offset))
      = Inr (int offset, b')"
    using field_value_decimal [OF assms(4), of b "newline # rest"] short [OF assms(4)] b(2) by auto
  ultimately show ?thesis
    using parse_seekto_fields [OF assms(1) clean(1,2) assms(2) clean(3,3), of cmd offset rest] by simp
qed

end
