(* ===== verification/Server_Serve.thy ===== *)
theory Server_Serve
  imports Server_Seekto
begin

text \<open>
  Serving a connection: \<open>aesdsocket_serve\<close>, the thread \<open>aesdsocket_start_thread\<close> that runs it,
  and \<open>aesdsocket_take_timestamp\<close> of \<open>server/src/aesdsocket.c\<close>. File names and the name of the
  seek command are arrays of bytes that include their terminator.
\<close>

section \<open>The received line\<close>

text \<open>From \<open>if (line)\<close> on, for a line that is there: a seek request goes to the driver and leaves
  the file open; any other line is appended to the file, which is opened again. The results are
  false for the jump to \<open>done\<close>, and \<open>file_fd\<close>.\<close>

definition serve_line ::
  "'e os \<Rightarrow> nat \<Rightarrow> byte list \<Rightarrow> byte list \<Rightarrow> byte list \<Rightarrow> int \<Rightarrow> 'e proc \<Rightarrow> stop + (bool \<times> int \<times> 'e proc)" where
  "serve_line S fuel line name seekto file_fd p =
     andThen (c_strlen seekto) (\<lambda>len.
     andThen (c_strncmp_eq line seekto len) (\<lambda>is_seek.
       if is_seek
       then andThen (parse_seekto line) (\<lambda>request.
              case request of
                None \<Rightarrow> Inr (True, file_fd, p)
              | Some seekto_arg \<Rightarrow>
                  andThen (try_errno (os_ioctl_seekto S file_fd seekto_arg (env p))) (\<lambda>(r, e).
                    Inr (r \<noteq> None, file_fd, p\<lparr>env := e\<rparr>)))
       else andThen (aesdsocket_write_line S fuel file_fd line p) (\<lambda>(written, p1).
              if \<not> written then Inr (False, file_fd, p1)
              else andThen (try_errno (os_open S name O_RDONLY (os_close S file_fd (env p1))))
                (\<lambda>(r, e). case r of
                   None \<Rightarrow> Inr (False, - 1, p1\<lparr>env := e\<rparr>)
                 | Some fd \<Rightarrow> Inr (True, fd, p1\<lparr>env := e\<rparr>)))))"

definition close_fd :: "'e os \<Rightarrow> int \<Rightarrow> 'e proc \<Rightarrow> 'e proc" where
  "close_fd S fd p = (if fd \<noteq> - 1 then p\<lparr>env := os_close S fd (env p)\<rparr> else p)"

definition aesdsocket_serve ::
  "'e os \<Rightarrow> nat \<Rightarrow> int \<Rightarrow> byte list \<Rightarrow> byte list \<Rightarrow> 'e proc \<Rightarrow> stop + (bool \<times> 'e proc)" where
  "aesdsocket_serve S fuel socket_fd name seekto p =
     andThen (try_errno (os_open S name O_RDWR (env p))) (\<lambda>(r, e).
       let p1 = p\<lparr>env := e\<rparr>
       in case r of
            None \<Rightarrow> Inr (False, p1)
          | Some file_fd \<Rightarrow>
              andThen (aesdsocket_recv_line S fuel socket_fd NULL p1) (\<lambda>(received, line, p2).
              andThen
                (if \<not> received then Inr (False, file_fd, p2)
                 else andThen
                   (if line = NULL then Inr (True, file_fd, p2)
                    else andThen (deref (mem p2) line) (\<lambda>block.
                         serve_line S fuel block name seekto file_fd p2))
                   (\<lambda>(go, file_fd', p3).
                     if \<not> go then Inr (False, file_fd', p3)
                     else andThen (aesdsocket_read_and_send_file S fuel socket_fd file_fd' p3)
                       (\<lambda>(sent, p4). Inr (sent, file_fd', p4))))
                (\<lambda>(ok, file_fd', p5).
                  andThen (c_free (mem p5) line) (\<lambda>h.
                    Inr (ok, close_fd S file_fd' (p5\<lparr>mem := h\<rparr>))))))"

section \<open>The thread\<close>

text \<open>The log lines read \<open>remote_name\<close> as a string. The result \<open>NULL\<close> of the thread function
  is left out; the Boolean is what \<open>aesdsocket_serve\<close> returned.\<close>

definition aesdsocket_start_thread ::
  "'e os \<Rightarrow> nat \<Rightarrow> ptr \<Rightarrow> 'e proc \<Rightarrow> stop + (bool \<times> 'e proc)" where
  "aesdsocket_start_thread S fuel arg p =
     andThen (if arg = NULL then Inl Null_deref else or_stop Dangling (args p arg)) (\<lambda>thread_arg.
       let p1 = p\<lparr>args := (args p)(arg := None)\<rparr>;
           name = filename thread_arg;
           remote = remote_name thread_arg
       in andThen (deref (mem p1) remote) (\<lambda>remote_block.
          andThen (c_strlen remote_block) (\<lambda>_.
          andThen (deref (mem p1) name) (\<lambda>name_block.
          andThen (aesdsocket_serve S fuel (conn_sockfd thread_arg) name_block
                    (seekto_command thread_arg) p1) (\<lambda>(ok, p2).
            let p3 = close_fd S (conn_sockfd thread_arg) p2
            in andThen (deref (mem p3) remote) (\<lambda>remote_block.
               andThen (c_strlen remote_block) (\<lambda>_.
               andThen (c_free (mem p3) name) (\<lambda>h.
               andThen (c_free h remote) (\<lambda>h'. Inr (ok, p3\<lparr>mem := h'\<rparr>))))))))))"

section \<open>Timestamps\<close>

text \<open>The stamp in its buffer: what \<open>strftime\<close> placed there, the line feed over its terminator
  and a terminator after it. Both stores index the array of \<open>BUFFSIZE\<close> bytes.\<close>

definition stamp_line :: "byte list \<Rightarrow> stop + byte list" where
  "stamp_line stamp =
     (if length stamp + 1 < BUFFSIZE
      then Inr (stamp @ newline # replicate (BUFFSIZE - length stamp - 1) 0)
      else Inl Out_of_bounds)"

definition aesdsocket_take_timestamp ::
  "'e os \<Rightarrow> nat \<Rightarrow> byte list \<Rightarrow> byte list \<Rightarrow> 'e proc \<Rightarrow> stop + (bool \<times> 'e proc)" where
  "aesdsocket_take_timestamp S fuel timestamp_format name p =
     andThen (try_errno (os_open S name O_WRONLY (env p))) (\<lambda>(opened, e).
       let p1 = p\<lparr>env := e\<rparr>
       in case opened of
            None \<Rightarrow> Inr (False, p1)
          | Some file_fd \<Rightarrow>
              andThen (try_errno (os_clock S (env p1))) (\<lambda>(seconds, e1).
              let p2 = p1\<lparr>env := e1\<rparr>;
                  local_timestamp = Option.bind seconds (os_localtime S);
                  stamp = (case local_timestamp of None \<Rightarrow> []
                           | Some t \<Rightarrow> os_strftime S timestamp_format BUFFSIZE t)
              in andThen
                   (if stamp = [] then Inr (False, p2)
                    else andThen (stamp_line stamp) (\<lambda>timestamp_buffer.
                         aesdsocket_write_line S fuel file_fd timestamp_buffer p2))
                   (\<lambda>(ok, p3). Inr (ok, close_fd S file_fd p3))))"

end
