(* ===== verification/Server_Lines.thy ===== *)
theory Server_Lines
  imports Server_Socket
begin

text \<open>
  The line a stream of bytes starts with, and how the two collecting loops of
  \<open>Server_Socket\<close> build it in the heap: the text collected so far, one chunk appended to it, and
  the string it becomes.
\<close>

section \<open>Lines\<close>

definition line_of :: "byte list \<Rightarrow> byte list" where
  "line_of bs = (if newline \<in> set bs then takeWhile ((\<noteq>) newline) bs @ [newline] else bs)"

definition after_line :: "byte list \<Rightarrow> byte list" where
  "after_line bs = drop (length (line_of bs)) bs"

lemma line_of_split: "newline \<notin> set u \<Longrightarrow> line_of (u @ newline # v) = u @ [newline]"
  by (auto simp: line_of_def takeWhile_append)

lemma line_of_none [simp]: "newline \<notin> set bs \<Longrightarrow> line_of bs = bs"
  by (simp add: line_of_def)

lemma line_of_append: "newline \<notin> set u \<Longrightarrow> line_of (u @ v) = u @ line_of v"
  by (auto simp: line_of_def takeWhile_append)

lemma line_then_rest: "line_of bs @ after_line bs = bs"
proof (cases "newline \<in> set bs")
  case True
  then obtain u v where "bs = u @ newline # v" and "newline \<notin> set u" by (metis split_list_first)
  then show ?thesis by (simp add: after_line_def line_of_split)
qed (simp add: after_line_def)

lemma line_of_nonempty: "bs \<noteq> [] \<Longrightarrow> line_of bs \<noteq> []"
  by (simp add: line_of_def)

lemma line_of_length: "length (line_of bs) \<le> length bs"
  using arg_cong [OF line_then_rest, of length bs] by simp

lemma after_line_append: "newline \<notin> set u \<Longrightarrow> after_line (u @ v) = after_line v"
  by (simp add: after_line_def line_of_append)

lemma after_line_shorter: "bs \<noteq> [] \<Longrightarrow> length (after_line bs) < length bs"
  using line_of_nonempty [of bs] by (simp add: after_line_def)

lemma line_of_set: "set (line_of bs) \<subseteq> set bs" and after_line_set: "set (after_line bs) \<subseteq> set bs"
  using arg_cong [OF line_then_rest, of set bs] by auto

section \<open>Text in the heap\<close>

text \<open>Memory that never runs short for what the server asks: \<open>realloc\<close> behaves as documented,
  and serves requests up to \<open>limit\<close> while few blocks are held.\<close>

definition memory_ok :: "'e os \<Rightarrow> nat \<Rightarrow> nat \<Rightarrow> bool" where
  "memory_ok S blocks limit \<longleftrightarrow> limit < 2 ^ 64 \<and> (\<exists>bound. realloc_ok bound (os_realloc S))
     \<and> allocates blocks limit (os_realloc S)"

text \<open>The block at \<open>q\<close> starts with the text collected so far and has room for one byte more;
  \<open>base\<close> is the rest of the heap.\<close>

definition collecting :: "kheap \<Rightarrow> ptr \<Rightarrow> byte list \<Rightarrow> kheap \<Rightarrow> bool" where
  "collecting base q acc h \<longleftrightarrow> h(q := None) = base \<and> h NULL = None
     \<and> (if q = NULL then acc = []
        else \<exists>block. h q = Some block \<and> take (length acc) block = acc \<and> length acc < length block)"

definition string_at :: "kheap \<Rightarrow> ptr \<Rightarrow> byte list \<Rightarrow> kheap \<Rightarrow> bool" where
  "string_at base q t h \<longleftrightarrow> q \<noteq> NULL \<and> h(q := None) = base \<and> h NULL = None
     \<and> (\<exists>rest. h q = Some (t @ 0 # rest))"

lemma collecting_NULL: "h NULL = None \<Longrightarrow> collecting h NULL [] h"
  by (auto simp: collecting_def)

lemma string_at_restart: "string_at base q t h \<Longrightarrow> collecting base q [] h"
  by (auto simp: collecting_def string_at_def)

lemma collecting_blocks: "collecting base q acc h \<Longrightarrow> card (dom h) \<le> Suc (card (dom base))"
proof -
  assume "collecting base q acc h"
  then have "dom h \<subseteq> insert q (dom base)" by (auto simp: collecting_def split: if_splits)
  then have "card (dom h) \<le> card (insert q (dom base))" by (intro card_mono) auto
  also have "\<dots> \<le> Suc (card (dom base))" by (rule card_insert_le_m1) auto
  finally show ?thesis .
qed

lemma realloc_collects:
  assumes "memory_ok S blocks limit" and "card (dom base) < blocks" and "collecting base q acc h"
    and "0 < n" and "length acc + n + 1 \<le> limit"
  shows "\<exists>q' block. c_realloc (os_realloc S) h q (of_nat (length acc + n + 1)) = Inr (q', base(q' \<mapsto> block))
    \<and> q' \<noteq> NULL \<and> base q' = None \<and> take (length acc) block = acc \<and> length acc + n < length block"
proof -
  let ?n = "of_nat (length acc + n + 1) :: u64"
  have small: "length acc + n + 1 < 2 ^ 64" using assms(1,5) by (simp add: memory_ok_def)
  then have n: "unat ?n = length acc + n + 1" by (rule unat_of_nat_u64)
  then have "?n \<noteq> 0" by (metis add_is_0 unat_0 zero_neq_one)
  obtain bound where ok: "realloc_ok bound (os_realloc S)" using assms(1) by (auto simp: memory_ok_def)
  have h: "h NULL = None" "q = NULL \<or> h q \<noteq> None"
    using assms(3) by (auto simp: collecting_def split: if_splits)
  obtain q' h' where call: "os_realloc S h q ?n = (q', h')" by fastforce
  have "card (dom h) \<le> blocks" using collecting_blocks [OF assms(3)] assms(2) by simp
  then have "fst (os_realloc S h q ?n) \<noteq> NULL"
    using assms(1,5) n by (simp add: memory_ok_def allocates_def)
  then have q': "q' \<noteq> NULL" using call by simp
  show ?thesis
  proof (rule realloc_returns [OF ok h \<open>?n \<noteq> 0\<close> call q'])
    fix block
    assume place: "q' = q \<or> h q' = None" and h': "h' = (h(q := None))(q' \<mapsto> block)"
      and size: "unat ?n \<le> length block"
      and kept: "\<And>old m. h q = Some old \<Longrightarrow> m \<le> length old \<Longrightarrow> m \<le> unat ?n \<Longrightarrow> take m block = take m old"
    have base: "h(q := None) = base" using assms(3) by (simp add: collecting_def)
    have "take (length acc) block = acc"
    proof (cases "q = NULL")
      case True
      then show ?thesis using assms(3) by (simp add: collecting_def)
    next
      case False
      then obtain old where "h q = Some old" "take (length acc) old = acc" "length acc < length old"
        using assms(3) by (auto simp: collecting_def)
      then show ?thesis using kept [of old "length acc"] n by simp
    qed
    moreover have "base q' = None" using place base by auto
    moreover have "c_realloc (os_realloc S) h q ?n = Inr (q', base(q' \<mapsto> block))"
      unfolding c_realloc_def using call h(2) h' base by auto
    moreover have "length acc + n < length block" using size n by simp
    ultimately show ?thesis using q' by blast
  qed
qed

lemma append_chunk_collects:
  assumes "memory_ok S blocks limit" and "card (dom base) < blocks"
    and "collecting base q acc (mem p)" and "c_strchr buffer newline = Inr found"
    and "useful = (case found of Some i \<Rightarrow> i + 1 | None \<Rightarrow> m)" and "0 < useful"
    and "useful \<le> length buffer" and "0 \<notin> set (take useful buffer)"
    and "length acc + useful + 1 \<le> limit"
  shows "\<exists>q' h. append_chunk S buffer m q (length acc) p
      = Inr (True, found \<noteq> None, q', length acc + useful, p\<lparr>mem := h\<rparr>)
    \<and> q' \<noteq> NULL \<and> collecting base q' (acc @ take useful buffer) h"
proof -
  from realloc_collects [OF assms(1-3,6,9)] obtain q' block where
    call: "c_realloc (os_realloc S) (mem p) q (of_nat (length acc + useful + 1)) = Inr (q', base(q' \<mapsto> block))"
    and q': "q' \<noteq> NULL" "base q' = None" and acc: "take (length acc) block = acc"
    and size: "length acc + useful < length block" by blast
  let ?block = "acc @ take useful buffer @ drop (length acc + useful) block"
  have copied: "c_strncpy block (length acc) buffer useful = Inr ?block"
    using c_strncpy_text [OF assms(7,8), of "length acc" block] size acc by simp
  have NULLs: "base NULL = None" using assms(3) by (auto simp: collecting_def)
  have "collecting base q' (acc @ take useful buffer) (base(q' \<mapsto> ?block))"
    using q' NULLs assms(7) size by (auto simp: collecting_def fun_upd_idem)
  moreover have "append_chunk S buffer m q (length acc) p
      = Inr (True, found \<noteq> None, q', length acc + useful, p\<lparr>mem := base(q' \<mapsto> ?block)\<rparr>)"
    using assms(5,6) call copied q'
    unfolding append_chunk_def assms(4) by (cases found) (simp_all add: Let_def)
  ultimately show ?thesis using q' by blast
qed

lemma finish_line_string:
  assumes "collecting base q acc (mem p)" and "q \<noteq> NULL"
  shows "\<exists>h. finish_line True q (length acc) line p = Inr (True, q, p\<lparr>mem := h\<rparr>)
    \<and> string_at base q acc h"
proof -
  obtain block where block: "mem p q = Some block" "take (length acc) block = acc"
    "length acc < length block"
    using assms by (auto simp: collecting_def)
  let ?block = "block[length acc := 0]"
  have "?block = acc @ 0 # drop (Suc (length acc)) block"
    using block by (simp add: upd_conv_take_nth_drop)
  then have "string_at base q acc ((mem p)(q \<mapsto> ?block))"
    using assms by (auto simp: string_at_def collecting_def)
  then show ?thesis
    using assms(2) c_store_held [where h = "mem p", OF assms(2) block(1,3)] by (auto simp: finish_line_def)
qed

lemma finish_line_NULL: "finish_line True NULL n line p = Inr (True, NULL, p)"
  by (simp add: finish_line_def)

lemma string_freed: "string_at base q t h \<Longrightarrow> c_free h q = Inr base"
  by (auto simp: string_at_def)

end
