(* ===== verification/Server_Streams.thy ===== *)
theory Server_Streams
  imports Server_Lines
begin

text \<open>
  The contracts of the calls that deliver bytes, and the two loops of \<open>Server_Socket\<close> as their
  clients. A \<open>byte_source\<close> may split its bytes anywhere and be interrupted; a \<open>line_source\<close>
  delivers nothing after the end of a line together with that line. The second is what
  \<open>aesdsocket_read_line\<close> needs, since it throws away what follows a newline in its buffer.
\<close>

section \<open>Contracts\<close>

locale byte_source =
  fixes get :: "'e \<Rightarrow> stop + (byte list io \<times> 'e)"
    and ahead :: "'e \<Rightarrow> byte list \<Rightarrow> nat \<Rightarrow> bool"
  assumes delivers: "ahead e bs k \<Longrightarrow> bs \<noteq> [] \<Longrightarrow>
      (\<exists>e' k'. get e = Inr (Interrupted, e') \<and> k' < k \<and> ahead e' bs k')
      \<or> (\<exists>e' k' u v. get e = Inr (Done u, e') \<and> k' \<le> k \<and> bs = u @ v \<and> u \<noteq> [] \<and> ahead e' v k'
            \<and> (length u < BUFFSIZE \<or> length u = BUFFSIZE \<and> newline \<in> set u))"
    and ends: "ahead e [] k \<Longrightarrow>
      (\<exists>e' k'. get e = Inr (Interrupted, e') \<and> k' < k \<and> ahead e' [] k')
      \<or> (\<exists>e' k'. get e = Inr (Done [], e') \<and> k' \<le> k \<and> ahead e' [] k')"

locale line_source = byte_source +
  assumes whole_lines: "ahead e bs k \<Longrightarrow> get e = Inr (Done u, e') \<Longrightarrow> newline \<notin> set (butlast u)"

section \<open>Scanning a chunk\<close>

text \<open>The receive buffer between two calls: no newline in it, and a NUL at its end.\<close>

definition clean :: "byte list \<Rightarrow> bool" where
  "clean buffer \<longleftrightarrow> length buffer = BUFFSIZE \<and> newline \<notin> set buffer \<and> last buffer = 0"

lemma clean_start: "clean (replicate BUFFSIZE 0)"
  by (simp add: clean_def BUFFSIZE_def newline_def)

lemma scan_chunk:
  assumes "clean buffer" and "u \<noteq> []" and "0 \<notin> set u"
    and "length u < BUFFSIZE \<or> length u = BUFFSIZE \<and> newline \<in> set u"
  obtains buffer' found where "fill buffer u = Inr buffer'" and "length buffer' = BUFFSIZE"
    and "c_strchr buffer' newline = Inr found" and "found \<noteq> None \<longleftrightarrow> newline \<in> set u"
    and "take (case found of Some i \<Rightarrow> i + 1 | None \<Rightarrow> length u) buffer' = line_of u"
    and "(case found of Some i \<Rightarrow> i + 1 | None \<Rightarrow> length u) = length (line_of u)"
    and "newline \<notin> set u \<Longrightarrow> clean buffer'"
proof -
  let ?b = "u @ drop (length u) buffer"
  have len: "length u \<le> length buffer" using assms(1,4) by (auto simp: clean_def)
  then have fill: "fill buffer u = Inr ?b" and size: "length ?b = BUFFSIZE"
    using assms(1) by (auto simp: fill_def clean_def)
  show thesis
  proof (cases "newline \<in> set u")
    case True
    then obtain s t where u: "u = s @ newline # t" and s: "newline \<notin> set s" by (metis split_list_first)
    have "0 \<notin> set s" using assms(3) u by simp
    with s have "c_strchr ?b newline = Inr (Some (length s))"
      using c_strchr_found [of newline s "t @ drop (length u) buffer"] u by simp
    from that [OF fill size this] True show ?thesis by (simp add: u line_of_split [OF s])
  next
    case False
    with assms(4) have short: "length u < length buffer" using assms(1) by (auto simp: clean_def)
    then have rest: "last ?b = 0" using assms(1) by (auto simp: clean_def)
    have "?b \<noteq> []" using short by auto
    then have "0 \<in> set ?b" using rest by (metis last_in_set)
    moreover have "newline \<notin> set ?b" using False assms(1) by (auto simp: clean_def dest: in_set_dropD)
    ultimately have "c_strchr ?b newline = Inr None" and "clean ?b"
      using size rest by (auto simp: c_strchr_none clean_def)
    from that [OF fill size this(1)] this(2) False show ?thesis by simp
  qed
qed

lemma chunk_step:
  assumes "memory_ok S blocks limit" and "card (dom base) < blocks"
    and "collecting base q acc (mem p)" and "clean buffer" and "u \<noteq> []" and "0 \<notin> set u"
    and "length u < BUFFSIZE \<or> length u = BUFFSIZE \<and> newline \<in> set u"
    and "length acc + length u + 1 \<le> limit"
  obtains buffer' q' h where "fill buffer u = Inr buffer'"
    and "append_chunk S buffer' (length u) q (length acc) p
      = Inr (True, newline \<in> set u, q', length (acc @ line_of u), p\<lparr>mem := h\<rparr>)"
    and "q' \<noteq> NULL" and "collecting base q' (acc @ line_of u) h" and "newline \<notin> set u \<Longrightarrow> clean buffer'"
proof (rule scan_chunk [OF assms(4-7)])
  fix buffer' found
  let ?useful = "case found of Some i \<Rightarrow> i + 1 | None \<Rightarrow> length u"
  assume fill: "fill buffer u = Inr buffer'" and size: "length buffer' = BUFFSIZE"
    and found: "c_strchr buffer' newline = Inr found" "found \<noteq> None \<longleftrightarrow> newline \<in> set u"
    and useful: "take ?useful buffer' = line_of u" "?useful = length (line_of u)"
    and clean: "newline \<notin> set u \<Longrightarrow> clean buffer'"
  have nonempty: "0 < ?useful" using useful(2) line_of_nonempty [OF assms(5)] by simp
  have "length (line_of u) \<le> length u" by (rule line_of_length)
  then have le: "?useful \<le> length buffer'" "length acc + ?useful + 1 \<le> limit"
    using useful(2) size assms(7,8) by auto
  have "0 \<notin> set (take ?useful buffer')" using useful(1) line_of_set [of u] assms(6) by auto
  from append_chunk_collects [OF assms(1-3) found(1) refl nonempty le(1) this le(2)]
  obtain q' h where "append_chunk S buffer' (length u) q (length acc) p
      = Inr (True, found \<noteq> None, q', length acc + ?useful, p\<lparr>mem := h\<rparr>)"
    "q' \<noteq> NULL" "collecting base q' (acc @ take ?useful buffer') h" by blast
  with that [OF fill] clean found(2) useful show thesis by simp
qed

section \<open>The collecting loops\<close>

text \<open>No signal is on its way to the process.\<close>

definition quiet :: "'e os \<Rightarrow> bool" where
  "quiet S \<longleftrightarrow> (\<forall>e. os_signal S e = (None, e))"

lemma quiet_deliver [simp]: "quiet S \<Longrightarrow> deliver_signal S p = p"
  by (simp add: quiet_def deliver_none)

context byte_source
begin

lemma delivery:
  assumes "ahead e bs k" and "bs \<noteq> []"
  obtains (interrupted) e' k' where "get e = Inr (Interrupted, e')" and "k' < k" and "ahead e' bs k'"
  | (chunk) e' k' u v where "get e = Inr (Done u, e')" and "k' \<le> k" and "bs = u @ v" and "u \<noteq> []"
      and "ahead e' v k'" and "length u < BUFFSIZE \<or> length u = BUFFSIZE \<and> newline \<in> set u"
  using delivers [OF assms] by blast

lemma recv_loop_line:
  assumes "os_recv S fd BUFFSIZE = get" and "quiet S" and "memory_ok S blocks limit"
    and "card (dom base) < blocks"
  shows "ahead (env p) bs k \<Longrightarrow> collecting base q acc (mem p) \<Longrightarrow> clean buffer \<Longrightarrow>
    0 \<notin> set bs \<Longrightarrow> newline \<in> set bs \<Longrightarrow> \<not> termination_flag p \<Longrightarrow>
    length acc + length bs + 1 \<le> limit \<Longrightarrow> length bs + k < fuel \<Longrightarrow>
    \<exists>q' e h bs' k'. recv_loop S fd fuel buffer q (length acc) p
        = Inr (True, q', length (acc @ line_of bs), p\<lparr>env := e, mem := h\<rparr>)
      \<and> q' \<noteq> NULL \<and> collecting base q' (acc @ line_of bs) h \<and> ahead e bs' k' \<and> k' \<le> k"
proof (induction fuel arbitrary: p bs k q acc buffer)
  case 0
  then show ?case by simp
next
  case (Suc n)
  have "bs \<noteq> []" using Suc.prems(5) by auto
  with Suc.prems(1) show ?case
  proof (cases rule: delivery)
    case step: (interrupted e' k')
    obtain q' e h bs' k'' where
      "recv_loop S fd n buffer q (length acc) (p\<lparr>env := e'\<rparr>)
        = Inr (True, q', length (acc @ line_of bs), p\<lparr>env := e'\<rparr>\<lparr>env := e, mem := h\<rparr>)"
      "q' \<noteq> NULL" "collecting base q' (acc @ line_of bs) h" "ahead e bs' k''" "k'' \<le> k'"
      using Suc.IH [of "p\<lparr>env := e'\<rparr>" bs k' q acc buffer] Suc.prems step by auto
    then show ?thesis
      using step Suc.prems(6) assms(2)
      by (intro exI [of _ q'] exI [of _ e] exI [of _ h] exI [of _ bs'] exI [of _ k''])
        (simp add: assms(1) Let_def)
  next
    case step: (chunk e' k' u v)
    let ?p = "p\<lparr>env := e'\<rparr>"
    have u: "0 \<notin> set u" "length acc + length u + 1 \<le> limit" using Suc.prems(4,7) step(3) by auto
    have c: "collecting base q acc (mem ?p)" using Suc.prems(2) by simp
    show ?thesis
    proof (rule chunk_step [OF assms(3,4) c Suc.prems(3) step(4) u(1) step(6) u(2)])
      fix buffer' q' h
      assume chunk: "fill buffer u = Inr buffer'"
        "append_chunk S buffer' (length u) q (length acc) ?p
          = Inr (True, newline \<in> set u, q', length (acc @ line_of u), ?p\<lparr>mem := h\<rparr>)"
        "q' \<noteq> NULL" "collecting base q' (acc @ line_of u) h" "newline \<notin> set u \<Longrightarrow> clean buffer'"
      show ?thesis
      proof (cases "newline \<in> set u")
        case True
        then obtain s t where "u = s @ newline # t" "newline \<notin> set s" by (metis split_list_first)
        then have "line_of bs = line_of u" using step(3) by (simp add: line_of_split)
        then show ?thesis
          using True chunk step Suc.prems(6) assms(2)
          by (intro exI [of _ q'] exI [of _ e'] exI [of _ h] exI [of _ v] exI [of _ k'])
            (simp add: assms(1) Let_def)
      next
        case False
        have v: "0 \<notin> set v" "newline \<in> set v" "length bs = length u + length v"
          using Suc.prems(4,5) step(3) False by auto
        have line: "line_of bs = u @ line_of v" using step(3) False by (simp add: line_of_append)
        have "length v + k' < n" using Suc.prems(8) step(2,3,4) by (cases u) auto
        then obtain q'' e h' bs' k'' where
          "recv_loop S fd n buffer' q' (length (acc @ u)) (?p\<lparr>mem := h\<rparr>)
            = Inr (True, q'', length ((acc @ u) @ line_of v), ?p\<lparr>mem := h\<rparr>\<lparr>env := e, mem := h'\<rparr>)"
          "q'' \<noteq> NULL" "collecting base q'' ((acc @ u) @ line_of v) h'" "ahead e bs' k''" "k'' \<le> k'"
          using Suc.IH [of "?p\<lparr>mem := h\<rparr>" v k' q' "acc @ u" buffer'] Suc.prems(6,7) chunk(4,5) False step(5) v
          by auto
        then show ?thesis
          using False chunk step Suc.prems(6) assms(2) line
          by (intro exI [of _ q''] exI [of _ e] exI [of _ h'] exI [of _ bs'] exI [of _ k''])
            (simp add: assms(1) Let_def)
      qed
    qed
  qed
qed

lemma recv_line_receives:
  assumes "os_recv S fd BUFFSIZE = get" and "quiet S" and "memory_ok S blocks limit"
    and "card (dom (mem p)) < blocks" and "mem p NULL = None" and "\<not> termination_flag p"
    and "ahead (env p) bs k" and "0 \<notin> set bs" and "newline \<in> set bs"
    and "length bs + 1 \<le> limit" and "length bs + k < fuel"
  shows "\<exists>q e h bs' k'. aesdsocket_recv_line S fuel fd NULL p = Inr (True, q, p\<lparr>env := e, mem := h\<rparr>)
    \<and> string_at (mem p) q (line_of bs) h \<and> ahead e bs' k'"
proof -
  have "length ([] :: byte list) + length bs + 1 \<le> limit" using assms(10) by simp
  from recv_loop_line [OF assms(1-4,7) collecting_NULL [of "mem p", OF assms(5)] clean_start assms(8,9,6) this assms(11)]
  obtain q e h bs' k' where
    loop: "recv_loop S fd fuel (replicate BUFFSIZE 0) NULL 0 p
      = Inr (True, q, length (line_of bs), p\<lparr>env := e, mem := h\<rparr>)"
    and q: "q \<noteq> NULL" "collecting (mem p) q (line_of bs) h" and rest: "ahead e bs' k'" by auto
  let ?p = "p\<lparr>env := e, mem := h\<rparr>"
  have "collecting (mem p) q (line_of bs) (mem ?p)" using q(2) by simp
  from finish_line_string [OF this q(1), of NULL] obtain h' where
    "finish_line True q (length (line_of bs)) NULL ?p = Inr (True, q, ?p\<lparr>mem := h'\<rparr>)"
    "string_at (mem p) q (line_of bs) h'" by blast
  with loop rest show ?thesis
    by (intro exI [of _ q] exI [of _ e] exI [of _ h'] exI [of _ bs'] exI [of _ k'])
      (simp add: aesdsocket_recv_line_def)
qed

text \<open>A peer that closes the connection before the end of a line is waited for forever: \<open>recv\<close>
  returns zero again and again.\<close>

lemma recv_loop_closed:
  assumes "os_recv S fd BUFFSIZE = get" and "quiet S" and "memory_ok S blocks limit"
    and "card (dom base) < blocks"
  shows "ahead (env p) bs k \<Longrightarrow> collecting base q acc (mem p) \<Longrightarrow> clean buffer \<Longrightarrow>
    0 \<notin> set bs \<Longrightarrow> newline \<notin> set bs \<Longrightarrow> \<not> termination_flag p \<Longrightarrow>
    length acc + length bs + 1 \<le> limit \<Longrightarrow>
    recv_loop S fd fuel buffer q (length acc) p = Inl No_return"
proof (induction fuel arbitrary: p bs k q acc buffer)
  case 0
  then show ?case by simp
next
  case (Suc n)
  let ?r = "recv_loop S fd (Suc n) buffer q (length acc) p = Inl No_return"
  have again: ?r if "get (env p) = Inr (Interrupted, e')" and "ahead e' bs k'" for e' k'
    using Suc.IH [of "p\<lparr>env := e'\<rparr>" bs k' q acc buffer] Suc.prems that assms(2)
    by (simp add: assms(1) Let_def)
  show ?case
  proof (cases "bs = []")
    case True
    with Suc.prems(1) ends [of "env p" k] again
    consider ?r | e' k' where "get (env p) = Inr (Done [], e')" "ahead e' [] k'" by blast
    then show ?thesis
    proof cases
      case 1
      then show ?thesis .
    next
      case 2
      then show ?thesis
        using Suc.IH [of "p\<lparr>env := e'\<rparr>" "[]" k' q acc buffer] Suc.prems assms(2) True
        by (simp add: assms(1) Let_def fill_def)
    qed
  next
    case False
    from Suc.prems(1) False show ?thesis
    proof (cases rule: delivery)
      case (interrupted e' k')
      then show ?thesis using again by blast
    next
      case step: (chunk e' k' u v)
      let ?p = "p\<lparr>env := e'\<rparr>"
      have u: "0 \<notin> set u" "length acc + length u + 1 \<le> limit" "newline \<notin> set u"
        using Suc.prems(4,5,7) step(3) by auto
      have c: "collecting base q acc (mem ?p)" using Suc.prems(2) by simp
      show ?thesis
      proof (rule chunk_step [OF assms(3,4) c Suc.prems(3) step(4) u(1) step(6) u(2)])
        fix buffer' q' h
        assume chunk: "fill buffer u = Inr buffer'"
          "append_chunk S buffer' (length u) q (length acc) ?p
            = Inr (True, newline \<in> set u, q', length (acc @ line_of u), ?p\<lparr>mem := h\<rparr>)"
          "q' \<noteq> NULL" "collecting base q' (acc @ line_of u) h" "newline \<notin> set u \<Longrightarrow> clean buffer'"
        have "recv_loop S fd n buffer' q' (length (acc @ u)) (?p\<lparr>mem := h\<rparr>) = Inl No_return"
          using Suc.IH [of "?p\<lparr>mem := h\<rparr>" v k' q' "acc @ u" buffer'] Suc.prems(4-7) chunk(4,5) u(3) step(3,5)
          by auto
        then show ?thesis
          using chunk u(3) step Suc.prems(6) assms(2) by (simp add: assms(1) Let_def)
      qed
    qed
  qed
qed

end

context line_source
begin

lemma retry_reads:
  "ahead e bs k \<Longrightarrow> k < n \<Longrightarrow> \<exists>u v e' k'. retry_on_eintr n get e = Inr (Some u, e') \<and> k' \<le> k
     \<and> bs = u @ v \<and> ahead e' v k' \<and> (bs \<noteq> [] \<longrightarrow> u \<noteq> []) \<and> newline \<notin> set (butlast u)
     \<and> (length u < BUFFSIZE \<or> length u = BUFFSIZE \<and> newline \<in> set u)"
proof (induction n arbitrary: e k)
  case 0
  then show ?case by simp
next
  case (Suc n)
  have interrupted: ?case if step: "get e = Inr (Interrupted, e')" "k' < k" "ahead e' bs k'" for e' k'
  proof -
    have "k' < n" using step(2) Suc.prems(2) by simp
    from Suc.IH [OF step(3) this] obtain u v e'' k'' where
      "retry_on_eintr n get e' = Inr (Some u, e'')" "k'' \<le> k'" "bs = u @ v" "ahead e'' v k''"
      "bs \<noteq> [] \<longrightarrow> u \<noteq> []" "newline \<notin> set (butlast u)"
      "length u < BUFFSIZE \<or> length u = BUFFSIZE \<and> newline \<in> set u" by blast
    then show ?thesis
      using step(1,2) by (intro exI [of _ u] exI [of _ v] exI [of _ e''] exI [of _ k'']) simp
  qed
  have chunk: ?case if "get e = Inr (Done u, e')" and "k' \<le> k" and "bs = u @ v" and "ahead e' v k'"
    and "bs \<noteq> [] \<longrightarrow> u \<noteq> []" and "length u < BUFFSIZE \<or> length u = BUFFSIZE \<and> newline \<in> set u" for e' k' u v
    using that whole_lines [OF Suc.prems(1) that(1)]
    by (intro exI [of _ u] exI [of _ v] exI [of _ e'] exI [of _ k']) simp
  show ?case
  proof (cases "bs = []")
    case True
    then show ?thesis
      using Suc.prems(1) ends [of e k] interrupted chunk [of "[]"] by (auto simp: BUFFSIZE_def)
  next
    case False
    then show ?thesis using delivers [OF Suc.prems(1)] interrupted chunk by blast
  qed
qed

lemma read_loop_line:
  assumes "os_read S fd BUFFSIZE = get" and "memory_ok S blocks limit" and "card (dom base) < blocks"
  shows "ahead (env p) bs k \<Longrightarrow> collecting base q acc (mem p) \<Longrightarrow> clean buffer \<Longrightarrow>
    0 \<notin> set bs \<Longrightarrow> length acc + length bs + 1 \<le> limit \<Longrightarrow> length bs + k < fuel \<Longrightarrow>
    \<exists>q' e h k'. read_loop S fd fuel buffer q (length acc) p
        = Inr (True, newline \<notin> set bs, q', length (acc @ line_of bs), p\<lparr>env := e, mem := h\<rparr>)
      \<and> collecting base q' (acc @ line_of bs) h \<and> ahead e (after_line bs) k' \<and> k' \<le> k"
proof (induction fuel arbitrary: p bs k q acc buffer)
  case 0
  then show ?case by simp
next
  case (Suc n)
  have "k < Suc n" using Suc.prems(6) by simp
  from retry_reads [OF Suc.prems(1) this] obtain u v e' k' where
    step: "retry_on_eintr (Suc n) get (env p) = Inr (Some u, e')" "k' \<le> k" "bs = u @ v" "ahead e' v k'"
      "bs \<noteq> [] \<longrightarrow> u \<noteq> []" "newline \<notin> set (butlast u)"
    and bound: "length u < BUFFSIZE \<or> length u = BUFFSIZE \<and> newline \<in> set u" by blast
  let ?p = "p\<lparr>env := e'\<rparr>"
  show ?case
  proof (cases "u = []")
    case True
    then have "bs = []" using step(5) by blast
    then have "v = []" using step(3) by (metis append_is_Nil_conv)
    note empty = \<open>bs = []\<close> this
    have "read_loop S fd (Suc n) buffer q (length acc) p = Inr (True, True, q, length acc, ?p)"
      unfolding read_loop.simps assms(1) step(1) True andThen.simps Let_def by (simp add: fill_def)
    then show ?thesis
      using Suc.prems(2) step(2,4) unfolding empty
      by (intro exI [of _ q] exI [of _ e'] exI [of _ "mem p"] exI [of _ k']) (simp add: after_line_def)
  next
    case False
    have u: "0 \<notin> set u" "length acc + length u + 1 \<le> limit" using Suc.prems(4,5) step(3) by auto
    have c: "collecting base q acc (mem ?p)" using Suc.prems(2) by simp
    show ?thesis
    proof (rule chunk_step [OF assms(2,3) c Suc.prems(3) False u(1) bound u(2)])
      fix buffer' q' h
      assume chunk: "fill buffer u = Inr buffer'"
        "append_chunk S buffer' (length u) q (length acc) ?p
          = Inr (True, newline \<in> set u, q', length (acc @ line_of u), ?p\<lparr>mem := h\<rparr>)"
        "q' \<noteq> NULL" "collecting base q' (acc @ line_of u) h" "newline \<notin> set u \<Longrightarrow> clean buffer'"
      have loop: "read_loop S fd (Suc n) buffer q (length acc) p =
          (if newline \<in> set u then Inr (True, False, q', length (acc @ line_of u), ?p\<lparr>mem := h\<rparr>)
           else read_loop S fd n buffer' q' (length (acc @ line_of u)) (?p\<lparr>mem := h\<rparr>))"
        unfolding read_loop.simps assms(1) step(1) andThen.simps Let_def
        using False chunk(1,2) by simp
      show ?thesis
      proof (cases "newline \<in> set u")
        case True
        have "newline \<in> set (butlast u @ [last u])" using True False by simp
        with step(6) have "last u = newline" by auto
        then have "u = butlast u @ [newline]" using False by (metis append_butlast_last_id)
        then have u: "line_of (u @ w) = u" for w
          using line_of_split [OF step(6), of w] by (metis append.assoc append_Cons append_Nil)
        then have "line_of bs = u" "after_line bs = v" "line_of u = u"
          using step(3) u [of "[]"] by (simp_all add: after_line_def)
        then show ?thesis
          using True loop chunk(4) step(2-4)
          by (intro exI [of _ q'] exI [of _ e'] exI [of _ h] exI [of _ k']) simp
      next
        case no_lf: False
        have line: "line_of bs = u @ line_of v" "after_line bs = after_line v"
          using step(3) no_lf by (simp_all add: line_of_append after_line_append)
        have "length v + k' < n" using Suc.prems(6) step(2,3) False by (cases u) auto
        then obtain q'' e h' k'' where
          "read_loop S fd n buffer' q' (length (acc @ u)) (?p\<lparr>mem := h\<rparr>)
            = Inr (True, newline \<notin> set v, q'', length ((acc @ u) @ line_of v),
                ?p\<lparr>mem := h\<rparr>\<lparr>env := e, mem := h'\<rparr>)"
          "collecting base q'' ((acc @ u) @ line_of v) h'" "ahead e (after_line v) k''" "k'' \<le> k'"
          using Suc.IH [of "?p\<lparr>mem := h\<rparr>" v k' q' "acc @ u" buffer'] Suc.prems(4,5) chunk(4,5) no_lf step(3,4)
          by auto
        then show ?thesis
          using no_lf loop step(2,3) line
          by (intro exI [of _ q''] exI [of _ e] exI [of _ h'] exI [of _ k'']) simp
      qed
    qed
  qed
qed

end

section \<open>Delivering bytes\<close>

text \<open>A sink takes at least one of the bytes it is offered, or is interrupted; \<open>admits out data\<close>
  says what it may be offered after it took \<open>out\<close>.\<close>

locale byte_sink =
  fixes put :: "byte list \<Rightarrow> 'e \<Rightarrow> stop + (u64 io \<times> 'e)"
    and admits :: "byte list \<Rightarrow> byte list \<Rightarrow> bool"
    and took :: "'e \<Rightarrow> byte list \<Rightarrow> nat \<Rightarrow> bool"
  assumes takes: "took e out k \<Longrightarrow> admits out data \<Longrightarrow> data \<noteq> [] \<Longrightarrow>
      (\<exists>e' k'. put data e = Inr (Interrupted, e') \<and> k' < k \<and> took e' out k')
      \<or> (\<exists>e' k' n. put data e = Inr (Done (of_nat n), e') \<and> k' \<le> k \<and> 0 < n \<and> n \<le> length data
            \<and> (n < length data \<longrightarrow> admits (out @ take n data) (drop n data)) \<and> took e' (out @ take n data) k')"
begin

lemma retry_puts:
  "took e out k \<Longrightarrow> k < n \<Longrightarrow> admits out data \<Longrightarrow> data \<noteq> [] \<Longrightarrow>
    \<exists>m e' k'. retry_on_eintr n (put data) e = Inr (Some (of_nat m), e') \<and> k' \<le> k \<and> 0 < m
      \<and> m \<le> length data \<and> (m < length data \<longrightarrow> admits (out @ take m data) (drop m data)) \<and> took e' (out @ take m data) k'"
proof (induction n arbitrary: e k)
  case 0
  then show ?case by simp
next
  case (Suc n)
  from takes [OF Suc.prems(1,3,4)]
  consider (interrupted) e' k' where "put data e = Inr (Interrupted, e')" "k' < k" "took e' out k'"
    | (taken) e' k' m where "put data e = Inr (Done (of_nat m), e')" "k' \<le> k" "0 < m" "m \<le> length data"
        "m < length data \<longrightarrow> admits (out @ take m data) (drop m data)" "took e' (out @ take m data) k'" by blast
  then show ?case
  proof cases
    case (interrupted e' k')
    have "k' < n" using interrupted(2) Suc.prems(2) by simp
    from Suc.IH [OF interrupted(3) this Suc.prems(3,4)] obtain m e'' k'' where
      "retry_on_eintr n (put data) e' = Inr (Some (of_nat m), e'')" "k'' \<le> k'" "0 < m"
      "m \<le> length data" "m < length data \<longrightarrow> admits (out @ take m data) (drop m data)" "took e'' (out @ take m data) k''"
      by blast
    with interrupted(1,2) show ?thesis by (intro exI [of _ m] exI [of _ e''] exI [of _ k'']) simp
  next
    case (taken e' k' m)
    then show ?thesis by (intro exI [of _ m] exI [of _ e'] exI [of _ k']) simp
  qed
qed

end

lemma last_bytes_text:
  assumes "0 \<notin> set t" and "m \<le> length t" and "length t < 2 ^ 64"
  shows "last_bytes (t @ 0 # rest) (of_nat m) = Inr (drop (length t - m) t)"
proof -
  have "unat (of_nat m :: u64) = m" using assms(2,3) by (intro unat_of_nat_u64) simp
  then show ?thesis using assms by (simp add: last_bytes_def)
qed

end
