(* ===== verification/Server_Transfer.thy ===== *)
theory Server_Transfer
  imports Server_Streams
begin

text \<open>
  Writing, sending and the transfer of a whole file, as clients of the contracts of
  \<open>Server_Streams\<close>. The locale \<open>file_transfer\<close> is what \<open>aesdsocket_read_and_send_file\<close> relies on: a
  file that delivers whole lines while the monitor is held, a socket that takes bytes, a monitor
  that lets the reader in.
\<close>

lemma proc_swap: "p\<lparr>mem := h, env := e\<rparr> = p\<lparr>env := e, mem := h\<rparr>" for p :: "'e proc"
  by simp

section \<open>Writing and sending a string\<close>

context byte_sink
begin

lemma offered:
  assumes "m \<noteq> 0" and "m \<le> length t" and "length t < 2 ^ 64"
  shows "(of_nat m :: u64) \<noteq> 0" and "drop (length t - m) t \<noteq> []"
    and "length (drop (length t - m) t) = m"
proof -
  have "unat (of_nat m :: u64) = m" using assms(2,3) by (intro unat_of_nat_u64) simp
  then show "(of_nat m :: u64) \<noteq> 0" using assms(1) by (metis unat_0)
qed (use assms in auto)

lemma sent_rest:
  assumes "m \<le> length t" and "j \<le> m"
  shows "(of_nat m :: u64) - of_nat j = of_nat (m - j)"
    and "drop j (drop (length t - m) t) = drop (length t - (m - j)) t"
proof -
  show "drop j (drop (length t - m) t) = drop (length t - (m - j)) t"
    using assms by (simp add: add.commute)
qed (simp add: of_nat_diff assms(2))

lemma write_loop_all:
  assumes "os_write S fd = put" and "0 \<notin> set t" and "length t < 2 ^ 64"
  shows "took e out k \<Longrightarrow> m \<le> length t \<Longrightarrow> (m \<noteq> 0 \<longrightarrow> admits out (drop (length t - m) t)) \<Longrightarrow>
    m + k < fuel \<Longrightarrow>
    \<exists>e' k'. write_loop S fd fuel (t @ 0 # rest) (of_nat m) e = Inr (True, e')
      \<and> took e' (out @ drop (length t - m) t) k' \<and> k' \<le> k"
proof (induction fuel arbitrary: e out k m)
  case 0
  then show ?case by simp
next
  case (Suc n)
  show ?case
  proof (cases "m = 0")
    case True
    then show ?thesis using Suc.prems(1) by auto
  next
    case False
    let ?bs = "drop (length t - m) t"
    note offer = offered [OF False Suc.prems(2) assms(3)]
    have "k < Suc n" using Suc.prems(4) by simp
    from retry_puts [OF Suc.prems(1) this _ offer(2)] Suc.prems(3) False obtain j e' k' where
      j: "retry_on_eintr (Suc n) (put ?bs) e = Inr (Some (of_nat j), e')" "k' \<le> k" "0 < j" "j \<le> m"
        "j < m \<longrightarrow> admits (out @ take j ?bs) (drop j ?bs)" "took e' (out @ take j ?bs) k'"
      using offer(3) by auto
    note rest = sent_rest [OF Suc.prems(2) j(4)]
    have "m - j \<noteq> 0 \<longrightarrow> admits (out @ take j ?bs) (drop (length t - (m - j)) t)" using j(5) rest(2) by auto
    moreover have "m - j \<le> length t" "m - j + k' < n" using Suc.prems(2,4) j(2,3,4) by auto
    ultimately obtain e'' k'' where
      more: "write_loop S fd n (t @ 0 # rest) (of_nat (m - j)) e' = Inr (True, e'')"
        "took e'' ((out @ take j ?bs) @ drop (length t - (m - j)) t) k''" "k'' \<le> k'"
      using Suc.IH [OF j(6)] by blast
    have "(out @ take j ?bs) @ drop (length t - (m - j)) t = out @ ?bs"
      unfolding rest(2) [symmetric] by (simp del: drop_drop)
    moreover have "write_loop S fd (Suc n) (t @ 0 # rest) (of_nat m) e = Inr (True, e'')"
      unfolding write_loop.simps assms(1) last_bytes_text [OF assms(2) Suc.prems(2) assms(3)]
        andThen.simps j(1)
      using offer(1) more(1) rest(1) by simp
    ultimately show ?thesis using more(2,3) j(2) by (intro exI [of _ e''] exI [of _ k'']) simp
  qed
qed

lemma send_loop_all:
  assumes "os_send S fd = put" and "0 \<notin> set t" and "length t < 2 ^ 64" and "quiet S"
  shows "took (env p) out k \<Longrightarrow> m \<le> length t \<Longrightarrow> (m \<noteq> 0 \<longrightarrow> admits out (drop (length t - m) t)) \<Longrightarrow>
    m + k < fuel \<Longrightarrow> \<not> termination_flag p \<Longrightarrow>
    \<exists>e' k'. send_loop S fd fuel (t @ 0 # rest) (of_nat m) p = Inr (True, p\<lparr>env := e'\<rparr>)
      \<and> took e' (out @ drop (length t - m) t) k' \<and> k' \<le> k"
proof (induction fuel arbitrary: p out k m)
  case 0
  then show ?case by simp
next
  case (Suc n)
  show ?case
  proof (cases "m = 0")
    case True
    then show ?thesis using Suc.prems(1) by (intro exI [of _ "env p"] exI [of _ k]) simp
  next
    case False
    let ?bs = "drop (length t - m) t"
    note offer = offered [OF False Suc.prems(2) assms(3)]
    have "k < Suc n" using Suc.prems(4) by simp
    from retry_puts [OF Suc.prems(1) this _ offer(2)] Suc.prems(3) False obtain j e' k' where
      j: "retry_on_eintr (Suc n) (put ?bs) (env p) = Inr (Some (of_nat j), e')" "k' \<le> k" "0 < j" "j \<le> m"
        "j < m \<longrightarrow> admits (out @ take j ?bs) (drop j ?bs)" "took e' (out @ take j ?bs) k'"
      using offer(3) by auto
    note rest = sent_rest [OF Suc.prems(2) j(4)]
    have "m - j \<noteq> 0 \<longrightarrow> admits (out @ take j ?bs) (drop (length t - (m - j)) t)" using j(5) rest(2) by auto
    moreover have "m - j \<le> length t" "m - j + k' < n" using Suc.prems(2,4) j(2,3,4) by auto
    ultimately obtain e'' k'' where
      more: "send_loop S fd n (t @ 0 # rest) (of_nat (m - j)) (p\<lparr>env := e'\<rparr>) = Inr (True, p\<lparr>env := e''\<rparr>)"
        "took e'' ((out @ take j ?bs) @ drop (length t - (m - j)) t) k''" "k'' \<le> k'"
      using Suc.IH [of "p\<lparr>env := e'\<rparr>" "out @ take j ?bs" k' "m - j"] Suc.prems(5) j(6) by auto
    have "(out @ take j ?bs) @ drop (length t - (m - j)) t = out @ ?bs"
      unfolding rest(2) [symmetric] by (simp del: drop_drop)
    moreover have "send_loop S fd (Suc n) (t @ 0 # rest) (of_nat m) p = Inr (True, p\<lparr>env := e''\<rparr>)"
      unfolding send_loop.simps assms(1) last_bytes_text [OF assms(2) Suc.prems(2) assms(3)]
        quiet_deliver [OF assms(4)] Let_def andThen.simps j(1)
      using offer(1) more(1) rest(1) Suc.prems(5) by simp
    ultimately show ?thesis using more(2,3) j(2) by (intro exI [of _ e''] exI [of _ k'']) simp
  qed
qed

lemma send_line_all:
  assumes "os_send S fd = put" and "0 \<notin> set t" and "length t < 2 ^ 64" and "quiet S"
    and "took (env p) out k" and "t \<noteq> [] \<longrightarrow> admits out t" and "length t + k < fuel"
    and "\<not> termination_flag p"
  shows "\<exists>e' k'. aesdsocket_send_line S fuel fd (t @ 0 # rest) p = Inr (True, p\<lparr>env := e'\<rparr>)
    \<and> took e' (out @ t) k' \<and> k' \<le> k"
  using send_loop_all [OF assms(1-5), of "length t" fuel rest] assms(2,6-8)
  by (simp add: aesdsocket_send_line_def)

end

section \<open>Transferring a file\<close>

text \<open>\<open>at inside e bs out k\<close>: inside or outside the monitor, the file has the bytes \<open>bs\<close> left,
  \<open>out\<close> has been sent, and at most \<open>k\<close> calls will be interrupted.\<close>

locale file_transfer =
  fixes S :: "'e os" and file_fd socket_fd :: int
    and at :: "bool \<Rightarrow> 'e \<Rightarrow> byte list \<Rightarrow> byte list \<Rightarrow> nat \<Rightarrow> bool"
  assumes enter: "at False e bs out k \<Longrightarrow> \<exists>e'. os_monitor S Start_reading e = Inr e' \<and> at True e' bs out k"
    and leave: "at True e bs out k \<Longrightarrow> \<exists>e'. os_monitor S Stop_reading e = Inr e' \<and> at False e' bs out k"
    and reads: "line_source (os_read S file_fd BUFFSIZE) (\<lambda>e bs k. at True e bs out k)"
    and sends: "byte_sink (os_send S socket_fd) (\<lambda>_ _. True) (\<lambda>e out k. at False e bs out k)"

sublocale file_transfer \<subseteq> rd: line_source "os_read S file_fd BUFFSIZE" "\<lambda>e bs k. at True e bs out k" for out
  by (rule reads)

sublocale file_transfer \<subseteq> wr: byte_sink "os_send S socket_fd" "\<lambda>_ _. True" "\<lambda>e out k. at False e bs out k" for bs
  by (rule sends)

context file_transfer
begin

lemma read_line_reads:
  assumes "memory_ok S blocks limit" and "card (dom base) < blocks"
    and "at False (env p) bs out k" and "collecting base q [] (mem p)" and "0 \<notin> set bs"
    and "length bs + 1 \<le> limit" and "length bs + k < fuel"
  shows "\<exists>q' e h k'. aesdsocket_read_line S fuel file_fd q p
      = Inr (True, q', newline \<notin> set bs, p\<lparr>env := e, mem := h\<rparr>)
    \<and> (if q' = NULL then bs = [] \<and> h = base \<and> base NULL = None else string_at base q' (line_of bs) h)
    \<and> at False e (after_line bs) out k' \<and> k' \<le> k"
proof -
  from enter [OF assms(3)] obtain e1 where
    e1: "os_monitor S Start_reading (env p) = Inr e1" "at True e1 bs out k" by blast
  let ?p = "p\<lparr>env := e1\<rparr>"
  have "collecting base q [] (mem ?p)" "length ([] :: byte list) + length bs + 1 \<le> limit"
    "at True (env ?p) bs out k" using assms(4,6) e1(2) by simp_all
  from rd.read_loop_line [OF refl assms(1,2) this(3,1) clean_start assms(5) this(2) assms(7)]
  obtain q' e2 h k' where
    loop: "read_loop S file_fd fuel (replicate BUFFSIZE 0) q 0 ?p
      = Inr (True, newline \<notin> set bs, q', length (line_of bs), ?p\<lparr>env := e2, mem := h\<rparr>)"
    and got: "collecting base q' (line_of bs) h" and more: "at True e2 (after_line bs) out k'" "k' \<le> k"
    by auto
  from leave [OF more(1)] obtain e3 where
    e3: "os_monitor S Stop_reading e2 = Inr e3" "at False e3 (after_line bs) out k'" by blast
  let ?p' = "p\<lparr>env := e3, mem := h\<rparr>"
  have call: "aesdsocket_read_line S fuel file_fd q p
      = andThen (finish_line True q' (length (line_of bs)) q ?p')
          (\<lambda>(ok', line', p2). Inr (ok', line', ok' \<and> newline \<notin> set bs, p2))"
    unfolding aesdsocket_read_line_def e1(1) andThen.simps loop prod.case if_True by (simp add: e3(1) proc_swap)
  show ?thesis
  proof (cases "q' = NULL")
    case True
    then have "line_of bs = []" "h = base" "base NULL = None"
      using got by (auto simp: collecting_def)
    then have "bs = []" using line_of_nonempty by blast
    have "aesdsocket_read_line S fuel file_fd q p = Inr (True, NULL, newline \<notin> set bs, ?p')"
      unfolding call True finish_line_NULL by simp
    with \<open>bs = []\<close> \<open>h = base\<close> \<open>base NULL = None\<close> e3(2) more(2) show ?thesis
      by (intro exI [of _ NULL] exI [of _ e3] exI [of _ h] exI [of _ k']) simp
  next
    case False
    have "collecting base q' (line_of bs) (mem ?p')" using got by simp
    from finish_line_string [OF this False, of q] obtain h' where
      "finish_line True q' (length (line_of bs)) q ?p' = Inr (True, q', ?p'\<lparr>mem := h'\<rparr>)"
      "string_at base q' (line_of bs) h'" by blast
    with False call e3(2) more(2) show ?thesis
      by (intro exI [of _ q'] exI [of _ e3] exI [of _ h'] exI [of _ k']) simp
  qed
qed

lemma send_file_loop_all:
  assumes "memory_ok S blocks limit" and "card (dom base) < blocks" and "quiet S" and "limit < 2 ^ 64"
  shows "at False (env p) bs out k \<Longrightarrow> collecting base q [] (mem p) \<Longrightarrow> 0 \<notin> set bs \<Longrightarrow>
    \<not> termination_flag p \<Longrightarrow> length bs + 1 \<le> limit \<Longrightarrow> length bs + k < fuel \<Longrightarrow> length bs < n \<Longrightarrow>
    \<exists>q' e h k'. send_file_loop S fuel socket_fd file_fd n q p = Inr (True, q', p\<lparr>env := e, mem := h\<rparr>)
      \<and> c_free h q' = Inr base \<and> at False e [] (out @ bs) k'"
proof (induction n arbitrary: p bs out k q)
  case 0
  then show ?case by simp
next
  case (Suc n)
  from read_line_reads [OF assms(1,2) Suc.prems(1,2,3,5,6)] obtain q' e h k' where
    read: "aesdsocket_read_line S fuel file_fd q p
      = Inr (True, q', newline \<notin> set bs, p\<lparr>env := e, mem := h\<rparr>)"
    and line: "if q' = NULL then bs = [] \<and> h = base \<and> base NULL = None else string_at base q' (line_of bs) h"
    and more: "at False e (after_line bs) out k'" "k' \<le> k" by blast
  let ?p = "p\<lparr>env := e, mem := h\<rparr>"
  show ?case
  proof (cases "bs = []")
    case True
    have freed: "c_free h q' = Inr base" using line string_freed by (auto split: if_splits)
    have "send_file_loop S fuel socket_fd file_fd (Suc n) q p = Inr (True, q', ?p)"
    proof (cases "q' = NULL")
      case False
      then obtain r where "h q' = Some (0 # r)" using line True by (auto simp: string_at_def)
      with False show ?thesis unfolding send_file_loop.simps read andThen.simps using True by simp
    qed (use True read in simp)
    with freed more(1) True show ?thesis
      by (intro exI [of _ q'] exI [of _ e] exI [of _ h] exI [of _ k'])
        (simp del: send_file_loop.simps add: after_line_def)
  next
    case False
    then have q': "q' \<noteq> NULL" "string_at base q' (line_of bs) h" using line by (auto split: if_splits)
    then obtain r where r: "h q' = Some (line_of bs @ 0 # r)" by (auto simp: string_at_def)
    have t: "0 \<notin> set (line_of bs)" "length (line_of bs) < 2 ^ 64" "length (line_of bs) + k' < fuel"
      using line_of_set [of bs] line_of_length [of bs] Suc.prems(3,5,6) assms(4) more(2) by auto
    have "at False (env ?p) (after_line bs) out k'" "\<not> termination_flag ?p"
      using more(1) Suc.prems(4) by simp_all
    from wr.send_line_all [OF refl t(1,2) assms(3) this(1) _ t(3) this(2), of r]
    obtain e' k'' where
      sent: "aesdsocket_send_line S fuel socket_fd (line_of bs @ 0 # r) ?p = Inr (True, ?p\<lparr>env := e'\<rparr>)"
        "at False e' (after_line bs) (out @ line_of bs) k''" "k'' \<le> k'" by blast
    have step: "send_file_loop S fuel socket_fd file_fd (Suc n) q p =
        (if newline \<notin> set bs then Inr (True, q', ?p\<lparr>env := e'\<rparr>)
         else send_file_loop S fuel socket_fd file_fd n q' (?p\<lparr>env := e'\<rparr>))"
      unfolding send_file_loop.simps read andThen.simps
      using q'(1) r sent(1) t(1) line_of_nonempty [OF False] by simp
    show ?thesis
    proof (cases "newline \<in> set bs")
      case True
      have after: "0 \<notin> set (after_line bs)" "length (after_line bs) < length bs"
        using after_line_set [of bs] Suc.prems(3) after_line_shorter [OF False] by auto
      obtain q'' e'' h' k3 where
        "send_file_loop S fuel socket_fd file_fd n q' (?p\<lparr>env := e'\<rparr>)
          = Inr (True, q'', ?p\<lparr>env := e'\<rparr>\<lparr>env := e'', mem := h'\<rparr>)"
        "c_free h' q'' = Inr base" "at False e'' [] ((out @ line_of bs) @ after_line bs) k3"
        using Suc.IH [of "?p\<lparr>env := e'\<rparr>" "after_line bs" "out @ line_of bs" k'' q'] sent(2,3) more(2)
          string_at_restart [OF q'(2)] after Suc.prems(4-7) by auto
      then show ?thesis
        using step True line_then_rest [of bs]
        by (intro exI [of _ q''] exI [of _ e''] exI [of _ h'] exI [of _ k3])
          (simp del: send_file_loop.simps add: proc_swap)
    next
      case no_lf: False
      then show ?thesis
        using step sent(2) string_freed [OF q'(2)]
        by (intro exI [of _ q'] exI [of _ e'] exI [of _ h] exI [of _ k''])
          (simp del: send_file_loop.simps add: after_line_def proc_swap)
    qed
  qed
qed

lemma read_and_send_file_all:
  assumes "memory_ok S blocks limit" and "card (dom (mem p)) < blocks" and "quiet S"
    and "at False (env p) bs out k" and "mem p NULL = None" and "0 \<notin> set bs"
    and "\<not> termination_flag p" and "length bs + 1 \<le> limit" and "length bs + k < fuel"
  shows "\<exists>e k'. aesdsocket_read_and_send_file S fuel socket_fd file_fd p = Inr (True, p\<lparr>env := e\<rparr>)
    \<and> at False e [] (out @ bs) k'"
proof -
  have "limit < 2 ^ 64" using assms(1) by (simp add: memory_ok_def)
  moreover have "length bs < fuel" using assms(9) by simp
  ultimately obtain q' e h k' where
    "send_file_loop S fuel socket_fd file_fd fuel NULL p = Inr (True, q', p\<lparr>env := e, mem := h\<rparr>)"
    "c_free h q' = Inr (mem p)" "at False e [] (out @ bs) k'"
    using send_file_loop_all [OF assms(1,2,3) _ assms(4) collecting_NULL [of "mem p"] assms(6-9), of fuel]
      assms(5) by blast
  then show ?thesis
    by (intro exI [of _ e] exI [of _ k']) (simp add: aesdsocket_read_and_send_file_def)
qed

end

end
