(* ===== verification/Server_Monitor.thy ===== *)
theory Server_Monitor
  imports Aesd_Prelude
begin

text \<open>
  The readers-writers monitor of \<open>server/src/monitor.c\<close>. Every function of the monitor runs its
  body under one mutex, so the atomic steps are the stretches of code between taking or
  regaining the mutex and releasing it or waiting: they are functions on the four counters.
  The threads that call them, the condition variables and the wake-ups are a step relation on a
  list of program counters.
\<close>

section \<open>Critical sections\<close>

record monitor =
  active_readers :: u32
  active_writers :: u32
  waiting_readers :: u32
  waiting_writers :: u32

definition monitor_clear :: monitor where
  "monitor_clear = \<lparr>active_readers = 0, active_writers = 0, waiting_readers = 0, waiting_writers = 0\<rparr>"

definition monitor_initialize :: "bool \<times> monitor" where
  "monitor_initialize = (True, monitor_clear)"

text \<open>\<open>malloc\<close> succeeds or not.\<close>

definition monitor_new :: "bool \<Rightarrow> monitor option" where
  "monitor_new allocated =
     (if allocated then (let (ok, m) = monitor_initialize in if ok then Some m else None) else None)"

text \<open>From taking the mutex: does the caller wait on \<open>can_read\<close>, and the counters at that point
  or after the release. The same for \<open>can_write\<close>.\<close>

definition monitor_start_reading :: "monitor \<Rightarrow> bool \<times> monitor" where
  "monitor_start_reading self =
     (if active_writers self \<noteq> 0 \<or> waiting_writers self \<noteq> 0
      then (True, self\<lparr>waiting_readers := waiting_readers self + 1\<rparr>)
      else (False, self\<lparr>active_readers := active_readers self + 1\<rparr>))"

text \<open>From the return of \<open>pthread_cond_wait\<close> to the release: nothing is tested again.\<close>

definition monitor_resume_reading :: "monitor \<Rightarrow> monitor" where
  "monitor_resume_reading self =
     (let m = self\<lparr>waiting_readers := waiting_readers self - 1\<rparr>
      in m\<lparr>active_readers := active_readers m + 1\<rparr>)"

text \<open>The Boolean says whether \<open>can_write\<close> is broadcast.\<close>

definition monitor_stop_reading :: "monitor \<Rightarrow> bool \<times> monitor" where
  "monitor_stop_reading self =
     (let m = self\<lparr>active_readers := active_readers self - 1\<rparr> in (active_readers m = 0, m))"

definition monitor_start_writing :: "monitor \<Rightarrow> bool \<times> monitor" where
  "monitor_start_writing self =
     (if active_writers self \<noteq> 0 \<or> active_readers self \<noteq> 0
         \<or> waiting_readers self \<noteq> 0 \<or> waiting_writers self \<noteq> 0
      then (True, self\<lparr>waiting_writers := waiting_writers self + 1\<rparr>)
      else (False, self\<lparr>active_writers := active_writers self + 1\<rparr>))"

definition monitor_resume_writing :: "monitor \<Rightarrow> monitor" where
  "monitor_resume_writing self =
     (let m = self\<lparr>waiting_writers := waiting_writers self - 1\<rparr>
      in m\<lparr>active_writers := active_writers m + 1\<rparr>)"

text \<open>The Booleans say whether \<open>can_read\<close> and whether \<open>can_write\<close> is broadcast.\<close>

definition monitor_stop_writing :: "monitor \<Rightarrow> bool \<times> bool \<times> monitor" where
  "monitor_stop_writing self =
     (let m = self\<lparr>active_writers := active_writers self - 1\<rparr>
      in if active_writers m = 0
         then if waiting_readers m \<noteq> 0 then (True, False, m)
              else (False, waiting_writers m \<noteq> 0, m)
         else (False, False, m))"

lemmas [monitor_unfold] =
  monitor_clear_def monitor_start_reading_def monitor_resume_reading_def monitor_stop_reading_def
  monitor_start_writing_def monitor_resume_writing_def monitor_stop_writing_def Let_def

section \<open>Threads\<close>

text \<open>Where a thread is: outside, waiting on a condition variable (\<open>RWait\<close>, \<open>WWait\<close>), woken
  but not yet holding the mutex again (\<open>RSig\<close>, \<open>WSig\<close>), entered as a reader but before the
  broadcast that ends \<open>monitor_start_reading\<close> (\<open>RBcast\<close>), or inside.\<close>

datatype pc = Idle | RWait | RSig | RBcast | Reading | WWait | WSig | Writing

record system =
  mon :: monitor
  pcs :: "pc list"

definition wake_readers :: "pc list \<Rightarrow> pc list" where
  "wake_readers ps = map (\<lambda>p. if p = RWait then RSig else p) ps"

definition wake_writers :: "pc list \<Rightarrow> pc list" where
  "wake_writers ps = map (\<lambda>p. if p = WWait then WSig else p) ps"

text \<open>\<open>spurious\<close> admits the wake-ups without a broadcast that POSIX allows.\<close>

inductive mon_step :: "bool \<Rightarrow> system \<Rightarrow> system \<Rightarrow> bool" for spurious where
  start_reading: "t < length (pcs s) \<Longrightarrow> pcs s ! t = Idle \<Longrightarrow>
    monitor_start_reading (mon s) = (waits, m) \<Longrightarrow>
    mon_step spurious s \<lparr>mon = m, pcs = (pcs s)[t := if waits then RWait else RBcast]\<rparr>"
| resume_reading: "t < length (pcs s) \<Longrightarrow> pcs s ! t = RSig \<Longrightarrow>
    mon_step spurious s \<lparr>mon = monitor_resume_reading (mon s), pcs = (pcs s)[t := RBcast]\<rparr>"
| broadcast_readers: "t < length (pcs s) \<Longrightarrow> pcs s ! t = RBcast \<Longrightarrow>
    mon_step spurious s \<lparr>mon = mon s, pcs = wake_readers ((pcs s)[t := Reading])\<rparr>"
| stop_reading: "t < length (pcs s) \<Longrightarrow> pcs s ! t = Reading \<Longrightarrow>
    monitor_stop_reading (mon s) = (wake, m) \<Longrightarrow>
    mon_step spurious s
      \<lparr>mon = m, pcs = (if wake then wake_writers ((pcs s)[t := Idle]) else (pcs s)[t := Idle])\<rparr>"
| start_writing: "t < length (pcs s) \<Longrightarrow> pcs s ! t = Idle \<Longrightarrow>
    monitor_start_writing (mon s) = (waits, m) \<Longrightarrow>
    mon_step spurious s \<lparr>mon = m, pcs = (pcs s)[t := if waits then WWait else Writing]\<rparr>"
| resume_writing: "t < length (pcs s) \<Longrightarrow> pcs s ! t = WSig \<Longrightarrow>
    mon_step spurious s \<lparr>mon = monitor_resume_writing (mon s), pcs = (pcs s)[t := Writing]\<rparr>"
| stop_writing: "t < length (pcs s) \<Longrightarrow> pcs s ! t = Writing \<Longrightarrow>
    monitor_stop_writing (mon s) = (wake_r, wake_w, m) \<Longrightarrow>
    mon_step spurious s
      \<lparr>mon = m, pcs = (if wake_r then wake_readers ((pcs s)[t := Idle])
                       else if wake_w then wake_writers ((pcs s)[t := Idle])
                       else (pcs s)[t := Idle])\<rparr>"
| spurious_reader: "spurious \<Longrightarrow> t < length (pcs s) \<Longrightarrow> pcs s ! t = RWait \<Longrightarrow>
    mon_step spurious s \<lparr>mon = mon s, pcs = (pcs s)[t := RSig]\<rparr>"
| spurious_writer: "spurious \<Longrightarrow> t < length (pcs s) \<Longrightarrow> pcs s ! t = WWait \<Longrightarrow>
    mon_step spurious s \<lparr>mon = mon s, pcs = (pcs s)[t := WSig]\<rparr>"

definition mon_init :: "nat \<Rightarrow> system \<Rightarrow> bool" where
  "mon_init n s \<longleftrightarrow> mon s = monitor_clear \<and> pcs s = replicate n Idle"

section \<open>Reachability and invariants\<close>

inductive reachable :: "('s \<Rightarrow> bool) \<Rightarrow> ('s \<Rightarrow> 's \<Rightarrow> bool) \<Rightarrow> 's \<Rightarrow> bool" for init step where
  reach_init: "init s \<Longrightarrow> reachable init step s"
| reach_step: "reachable init step s \<Longrightarrow> step s s' \<Longrightarrow> reachable init step s'"

locale invariant_system =
  fixes init :: "'s \<Rightarrow> bool" and step :: "'s \<Rightarrow> 's \<Rightarrow> bool" and inv :: "'s \<Rightarrow> bool"
  assumes init_inv: "init s \<Longrightarrow> inv s"
    and step_inv: "inv s \<Longrightarrow> step s s' \<Longrightarrow> inv s'"
begin

lemma reachable_inv: "reachable init step s \<Longrightarrow> inv s"
  by (induction rule: reachable.induct) (auto intro: init_inv step_inv)

lemma steps_inv: "step\<^sup>*\<^sup>* s s' \<Longrightarrow> inv s \<Longrightarrow> inv s'"
  by (induction rule: rtranclp_induct) (auto intro: step_inv)

end

section \<open>Counting threads\<close>

lemma count_update:
  "t < length ps \<Longrightarrow> count_list (ps[t := p]) q
     = count_list ps q + (if q = p then 1 else 0) - (if q = ps ! t then 1 else 0)"
proof (induction ps arbitrary: t)
  case (Cons r ps)
  show ?case
  proof (cases t)
    case (Suc k)
    moreover have "0 < count_list ps (ps ! k)" if "k < length ps"
      using that count_list_0_iff [of ps "ps ! k"] by auto
    ultimately show ?thesis using Cons by (auto split: if_splits)
  qed (auto split: if_splits)
qed simp

lemma count_at: "t < length ps \<Longrightarrow> ps ! t = p \<Longrightarrow> 0 < count_list ps p"
  using count_list_0_iff [of ps p] by auto

lemma count_wake_readers:
  "count_list (wake_readers ps) q
     = (if q = RWait then 0 else count_list ps q + (if q = RSig then count_list ps RWait else 0))"
  by (induction ps) (auto simp: wake_readers_def)

lemma count_wake_writers:
  "count_list (wake_writers ps) q
     = (if q = WWait then 0 else count_list ps q + (if q = WSig then count_list ps WWait else 0))"
  by (induction ps) (auto simp: wake_writers_def)

lemma length_wake [simp]: "length (wake_readers ps) = length ps" "length (wake_writers ps) = length ps"
  by (simp_all add: wake_readers_def wake_writers_def)

lemma count_all: "length ps = count_list ps Idle + count_list ps RWait + count_list ps RSig
    + count_list ps RBcast + count_list ps Reading + count_list ps WWait + count_list ps WSig
    + count_list ps Writing"
proof (induction ps)
  case (Cons p ps)
  then show ?case by (cases p) auto
qed simp

lemma unat_inc: "unat (w :: u32) + 1 < 2 ^ 32 \<Longrightarrow> unat (w + 1) = unat w + 1"
  by (subst unat_add_lem [THEN iffD1]) simp_all

lemma unat_dec: "0 < unat (w :: u32) \<Longrightarrow> unat (w - 1) = unat w - 1"
  by (subst unat_minus_one) auto

lemma zero_unat: "(w :: u32) = 0 \<longleftrightarrow> unat w = 0"
  by (simp add: unat_eq_zero)

section \<open>The invariant\<close>

text \<open>The counters count the threads; a waiting reader has a writer in or before it; a waiting
  writer has somebody inside or woken before it.\<close>

definition accounts :: "system \<Rightarrow> bool" where
  "accounts s \<longleftrightarrow> length (pcs s) < 2 ^ 32
     \<and> unat (active_readers (mon s)) = count_list (pcs s) RBcast + count_list (pcs s) Reading
     \<and> unat (active_writers (mon s)) = count_list (pcs s) Writing
     \<and> unat (waiting_readers (mon s)) = count_list (pcs s) RWait + count_list (pcs s) RSig
     \<and> unat (waiting_writers (mon s)) = count_list (pcs s) WWait + count_list (pcs s) WSig"

definition no_lost_wakeup :: "system \<Rightarrow> bool" where
  "no_lost_wakeup s \<longleftrightarrow>
     (0 < count_list (pcs s) RWait \<longrightarrow>
        0 < count_list (pcs s) Writing + count_list (pcs s) WWait + count_list (pcs s) WSig)
     \<and> (0 < count_list (pcs s) WWait \<longrightarrow>
        0 < count_list (pcs s) Writing + count_list (pcs s) RBcast + count_list (pcs s) Reading
          + count_list (pcs s) RSig + count_list (pcs s) WSig)"

definition mon_inv :: "system \<Rightarrow> bool" where
  "mon_inv s \<longleftrightarrow> accounts s \<and> no_lost_wakeup s"

lemma mon_init_inv: "mon_init n s \<Longrightarrow> n < 2 ^ 32 \<Longrightarrow> mon_inv s"
proof -
  assume "mon_init n s" and "n < 2 ^ 32"
  moreover have "count_list (replicate n Idle) p = (if p = Idle then n else 0)" for p
    by (induction n) auto
  ultimately show ?thesis
    by (simp add: mon_init_def mon_inv_def accounts_def no_lost_wakeup_def monitor_clear_def)
qed

lemma accountsD:
  assumes "accounts s"
  shows "length (pcs s) < 2 ^ 32"
    and "unat (active_readers (mon s)) = count_list (pcs s) RBcast + count_list (pcs s) Reading"
    and "unat (active_writers (mon s)) = count_list (pcs s) Writing"
    and "unat (waiting_readers (mon s)) = count_list (pcs s) RWait + count_list (pcs s) RSig"
    and "unat (waiting_writers (mon s)) = count_list (pcs s) WWait + count_list (pcs s) WSig"
  using assms by (simp_all add: accounts_def)

lemmas counting = count_update count_wake_readers count_wake_writers

lemma step_reading_accounts:
  assumes acc: "accounts s" and t: "t < length (pcs s)"
  shows "pcs s ! t = Idle \<Longrightarrow> monitor_start_reading (mon s) = (waits, m) \<Longrightarrow>
      accounts \<lparr>mon = m, pcs = (pcs s)[t := if waits then RWait else RBcast]\<rparr>"
    and "pcs s ! t = RSig \<Longrightarrow>
      accounts \<lparr>mon = monitor_resume_reading (mon s), pcs = (pcs s)[t := RBcast]\<rparr>"
    and "pcs s ! t = Reading \<Longrightarrow> monitor_stop_reading (mon s) = (wake, m) \<Longrightarrow>
      accounts \<lparr>mon = m, pcs = (pcs s)[t := Idle]\<rparr>"
proof -
  note a = accountsD [OF acc] and all = count_all [of "pcs s"]
  show "accounts \<lparr>mon = m, pcs = (pcs s)[t := if waits then RWait else RBcast]\<rparr>"
    if "pcs s ! t = Idle" "monitor_start_reading (mon s) = (waits, m)"
  proof -
    have "0 < count_list (pcs s) Idle" by (rule count_at [OF t that(1)])
    then have "unat (waiting_readers (mon s)) + 1 < 2 ^ 32" "unat (active_readers (mon s)) + 1 < 2 ^ 32"
      using a(1,2,4) all by linarith+
    then show ?thesis
      using that t a by (auto simp: monitor_start_reading_def accounts_def counting unat_inc split: if_splits)
  qed
  show "accounts \<lparr>mon = monitor_resume_reading (mon s), pcs = (pcs s)[t := RBcast]\<rparr>"
    if "pcs s ! t = RSig"
  proof -
    have "0 < count_list (pcs s) RSig" by (rule count_at [OF t that])
    then have "0 < unat (waiting_readers (mon s))" "unat (active_readers (mon s)) + 1 < 2 ^ 32"
      using a(1,2,4) all by linarith+
    with \<open>0 < count_list (pcs s) RSig\<close> show ?thesis
      using that t a
      by (simp add: monitor_resume_reading_def accounts_def counting unat_inc unat_dec Let_def)
  qed
  show "accounts \<lparr>mon = m, pcs = (pcs s)[t := Idle]\<rparr>"
    if "pcs s ! t = Reading" "monitor_stop_reading (mon s) = (wake, m)"
  proof -
    have "0 < count_list (pcs s) Reading" by (rule count_at [OF t that(1)])
    moreover from this have "0 < unat (active_readers (mon s))" using a(2) by linarith
    ultimately show ?thesis
      using that t a by (auto simp: monitor_stop_reading_def accounts_def counting unat_dec Let_def)
  qed
qed

lemma step_writing_accounts:
  assumes acc: "accounts s" and t: "t < length (pcs s)"
  shows "pcs s ! t = Idle \<Longrightarrow> monitor_start_writing (mon s) = (waits, m) \<Longrightarrow>
      accounts \<lparr>mon = m, pcs = (pcs s)[t := if waits then WWait else Writing]\<rparr>"
    and "pcs s ! t = WSig \<Longrightarrow>
      accounts \<lparr>mon = monitor_resume_writing (mon s), pcs = (pcs s)[t := Writing]\<rparr>"
    and "pcs s ! t = Writing \<Longrightarrow> monitor_stop_writing (mon s) = (wake_r, wake_w, m) \<Longrightarrow>
      accounts \<lparr>mon = m, pcs = (pcs s)[t := Idle]\<rparr>"
proof -
  note a = accountsD [OF acc] and all = count_all [of "pcs s"]
  show "accounts \<lparr>mon = m, pcs = (pcs s)[t := if waits then WWait else Writing]\<rparr>"
    if "pcs s ! t = Idle" "monitor_start_writing (mon s) = (waits, m)"
  proof -
    have "0 < count_list (pcs s) Idle" by (rule count_at [OF t that(1)])
    then have "unat (waiting_writers (mon s)) + 1 < 2 ^ 32" "unat (active_writers (mon s)) + 1 < 2 ^ 32"
      using a(1,3,5) all by linarith+
    then show ?thesis
      using that t a by (auto simp: monitor_start_writing_def accounts_def counting unat_inc split: if_splits)
  qed
  show "accounts \<lparr>mon = monitor_resume_writing (mon s), pcs = (pcs s)[t := Writing]\<rparr>"
    if "pcs s ! t = WSig"
  proof -
    have "0 < count_list (pcs s) WSig" by (rule count_at [OF t that])
    then have "0 < unat (waiting_writers (mon s))" "unat (active_writers (mon s)) + 1 < 2 ^ 32"
      using a(1,3,5) all by linarith+
    with \<open>0 < count_list (pcs s) WSig\<close> show ?thesis
      using that t a
      by (simp add: monitor_resume_writing_def accounts_def counting unat_inc unat_dec Let_def)
  qed
  show "accounts \<lparr>mon = m, pcs = (pcs s)[t := Idle]\<rparr>"
    if "pcs s ! t = Writing" "monitor_stop_writing (mon s) = (wake_r, wake_w, m)"
  proof -
    have "0 < count_list (pcs s) Writing" by (rule count_at [OF t that(1)])
    moreover from this have "0 < unat (active_writers (mon s))" using a(3) by linarith
    ultimately show ?thesis
      using that t a
      by (auto simp: monitor_stop_writing_def accounts_def counting unat_dec Let_def split: if_splits)
  qed
qed

lemma accounts_wake:
  "accounts \<lparr>mon = m, pcs = wake_readers ps\<rparr> = accounts \<lparr>mon = m, pcs = ps\<rparr>"
  "accounts \<lparr>mon = m, pcs = wake_writers ps\<rparr> = accounts \<lparr>mon = m, pcs = ps\<rparr>"
  by (simp_all add: accounts_def counting add.commute)

lemma accounts_move:
  assumes "accounts s" and "t < length (pcs s)"
    and "(pcs s ! t, p) \<in> {(RBcast, Reading), (RWait, RSig), (WWait, WSig)}"
  shows "accounts \<lparr>mon = mon s, pcs = (pcs s)[t := p]\<rparr>"
  using assms count_at [OF assms(2) refl] by (auto simp: accounts_def count_update)

lemma mon_step_accounts:
  assumes "accounts s" and "mon_step spurious s s'"
  shows "accounts s'"
  using assms(2)
proof cases
  case (broadcast_readers t)
  then show ?thesis using accounts_move [OF assms(1)] by (simp add: accounts_wake)
qed (use assms(1) step_reading_accounts step_writing_accounts accounts_move in
      \<open>auto simp: accounts_wake simp del: if_split_asm\<close>)

lemma counter_zero:
  assumes "accounts s"
  shows "active_readers (mon s) = 0 \<longleftrightarrow> count_list (pcs s) RBcast + count_list (pcs s) Reading = 0"
    and "active_writers (mon s) = 0 \<longleftrightarrow> count_list (pcs s) Writing = 0"
    and "waiting_readers (mon s) = 0 \<longleftrightarrow> count_list (pcs s) RWait + count_list (pcs s) RSig = 0"
    and "waiting_writers (mon s) = 0 \<longleftrightarrow> count_list (pcs s) WWait + count_list (pcs s) WSig = 0"
  unfolding zero_unat accountsD [OF assms] by (rule refl)+

lemma mon_step_wakeups:
  assumes acc: "accounts s" and lost: "no_lost_wakeup s" and step: "mon_step spurious s s'"
  shows "no_lost_wakeup s'"
proof -
  note zero = counter_zero [OF acc]
  have acc': "accounts s'" by (rule mon_step_accounts [OF acc step])
  note zero' = counter_zero [OF acc']
  show ?thesis
    using step
  proof cases
    case (start_reading t waits m)
    then show ?thesis
      using count_at [OF start_reading(2,3)] lost zero(2,4)
      by (cases waits) (auto simp: monitor_start_reading_def no_lost_wakeup_def counting split: if_splits)
  next
    case (resume_reading t)
    then show ?thesis
      using count_at [OF resume_reading(2,3)] lost by (auto simp: no_lost_wakeup_def counting)
  next
    case (broadcast_readers t)
    then show ?thesis
      using count_at [OF broadcast_readers(2,3)] lost by (auto simp: no_lost_wakeup_def counting)
  next
    case (stop_reading t wake m)
    have "wake \<longleftrightarrow> active_readers (mon s') = 0"
      using stop_reading(1,4) by (auto simp: monitor_stop_reading_def Let_def)
    then show ?thesis
      using count_at [OF stop_reading(2,3)] stop_reading(1-3) lost zero'(1)
      by (cases wake) (auto simp: no_lost_wakeup_def counting)
  next
    case (start_writing t waits m)
    let ?c = "count_list (pcs s)"
    show ?thesis
    proof (cases waits)
      case False
      then have "0 < count_list (pcs s') Writing" using start_writing(1-3) by (simp add: counting)
      then show ?thesis by (simp add: no_lost_wakeup_def)
    next
      case True
      have c': "count_list (pcs s') q = ?c q" if "q \<noteq> Idle" "q \<noteq> WWait" for q
        using start_writing(1-3) True that by (simp add: counting)
      have "0 < count_list (pcs s') WWait" using start_writing(1-3) True by (simp add: counting)
      moreover have "0 < ?c Writing \<or> 0 < ?c RBcast + ?c Reading \<or> 0 < ?c RWait + ?c RSig
          \<or> 0 < ?c WWait + ?c WSig"
        using start_writing(4) True zero
        unfolding monitor_start_writing_def by (simp only: neq0_conv split: if_splits) auto
      then have "0 < ?c Writing + ?c RBcast + ?c Reading + ?c RSig + ?c WSig"
        using lost unfolding no_lost_wakeup_def by linarith
      ultimately show ?thesis unfolding no_lost_wakeup_def by (simp add: c')
    qed
  next
    case (resume_writing t)
    then show ?thesis
      using count_at [OF resume_writing(2,3)] lost by (auto simp: no_lost_wakeup_def counting)
  next
    case (stop_writing t wake_r wake_w m)
    have wake: "(wake_r \<longleftrightarrow> active_writers m = 0 \<and> waiting_readers m \<noteq> 0)
        \<and> (wake_w \<longleftrightarrow> active_writers m = 0 \<and> waiting_readers m = 0 \<and> waiting_writers m \<noteq> 0)"
      using stop_writing(4) by (auto simp: monitor_stop_writing_def Let_def split: if_splits)
    have m: "mon s' = m" using stop_writing(1) by simp
    consider wake_r | "\<not> wake_r" "wake_w" | "\<not> wake_r" "\<not> wake_w" by blast
    then show ?thesis
    proof cases
      case 1
      then have "count_list (pcs s') RWait = 0" using stop_writing(1) by (simp add: counting)
      moreover have "waiting_readers (mon s') \<noteq> 0" using 1 wake m by simp
      ultimately show ?thesis unfolding no_lost_wakeup_def using zero'(3) by auto
    next
      case 2
      then have "count_list (pcs s') WWait = 0" using stop_writing(1) by (simp add: counting)
      moreover have "waiting_readers (mon s') = 0" using 2 wake m by simp
      ultimately show ?thesis unfolding no_lost_wakeup_def using zero'(3) by auto
    next
      case 3
      then have "active_writers (mon s') \<noteq> 0 \<or> waiting_readers (mon s') = 0 \<and> waiting_writers (mon s') = 0"
        using wake m by blast
      then show ?thesis unfolding no_lost_wakeup_def using zero'(2-4) by auto
    qed
  next
    case (spurious_reader t)
    then show ?thesis
      using count_at [OF spurious_reader(3,4)] lost by (auto simp: no_lost_wakeup_def counting)
  next
    case (spurious_writer t)
    then show ?thesis
      using count_at [OF spurious_writer(3,4)] lost by (auto simp: no_lost_wakeup_def counting)
  qed
qed

lemma mon_step_inv: "mon_inv s \<Longrightarrow> mon_step spurious s s' \<Longrightarrow> mon_inv s'"
  using mon_step_accounts mon_step_wakeups by (auto simp: mon_inv_def)

interpretation moni: invariant_system "\<lambda>s. \<exists>n < 2 ^ 32. mon_init n s" "mon_step spurious" mon_inv
  for spurious
  by unfold_locales (auto intro: mon_init_inv mon_step_inv)

end
