(* ===== verification/Server_Session.thy ===== *)
theory Server_Session
  imports Server_Serve Server_Transfer Server_Monitor Aesd_Driver_History
begin

text \<open>
  The server on the driver: an environment of \<open>Server_Os\<close> whose file is the character device of
  \<open>Aesd_Char_Driver\<close>, whose monitor is that of \<open>Server_Monitor\<close> with one thread, and whose socket
  has a list of chunks to deliver. Its calls are interpreted in the contracts of
  \<open>Server_Streams\<close> and \<open>Server_Transfer\<close>, which gives the behaviour of a served connection from
  the bytes of the peer to the bytes it gets back.
\<close>

section \<open>The environment\<close>

text \<open>\<open>incoming\<close>: what the calls of \<open>recv\<close> find, \<open>None\<close> for an interruption; after the last one
  the peer has closed its side. \<open>accepts\<close>: how many bytes a \<open>send\<close> takes at most. \<open>files\<close>: the open
  descriptors of the device, with their access and position. \<open>sockets\<close>: the other open descriptors.\<close>

record session =
  incoming :: "byte list option list"
  outgoing :: "byte list"
  accepts :: nat
  files :: "int \<Rightarrow> (access \<times> u64) option"
  sockets :: "int set"
  device :: world
  smon :: monitor

definition session_recv :: "nat \<Rightarrow> 'x session_scheme \<Rightarrow> stop + (byte list io \<times> 'x session_scheme)" where
  "session_recv count s =
     (case incoming s of
        [] \<Rightarrow> Inr (Done [], s)
      | None # rest \<Rightarrow> Inr (Interrupted, s\<lparr>incoming := rest\<rparr>)
      | Some chunk # rest \<Rightarrow>
          if length chunk \<le> count then Inr (Done chunk, s\<lparr>incoming := rest\<rparr>)
          else Inr (Done (take count chunk), s\<lparr>incoming := Some (drop count chunk) # rest\<rparr>))"

definition session_send :: "byte list \<Rightarrow> 'x session_scheme \<Rightarrow> stop + (u64 io \<times> 'x session_scheme)" where
  "session_send data s =
     (let n = min (accepts s) (length data)
      in Inr (Done (of_nat n), s\<lparr>outgoing := outgoing s @ take n data\<rparr>))"

text \<open>A negative result of the driver is \<open>-1\<close> and \<open>errno\<close> for the process.\<close>

definition session_read :: "kernel \<Rightarrow> int \<Rightarrow> nat \<Rightarrow> 'x session_scheme \<Rightarrow> stop + (byte list io \<times> 'x session_scheme)" where
  "session_read K fd count s =
     (case files s fd of
        None \<Rightarrow> Inr (Failed, s)
      | Some (a, pos) \<Rightarrow>
          if a = O_WRONLY then Inr (Failed, s)
          else andThen (aesd_read K False (of_nat count) pos (device s)) (\<lambda>(ret, pos', bs, w).
            let s' = s\<lparr>files := (files s)(fd \<mapsto> (a, pos')), device := w\<rparr>
            in Inr (if sint ret < 0 then Failed else Done bs, s')))"

definition session_write :: "kernel \<Rightarrow> int \<Rightarrow> byte list \<Rightarrow> 'x session_scheme \<Rightarrow> stop + (u64 io \<times> 'x session_scheme)" where
  "session_write K fd data s =
     (case files s fd of
        None \<Rightarrow> Inr (Failed, s)
      | Some (a, pos) \<Rightarrow>
          if a = O_RDONLY then Inr (Failed, s)
          else andThen (aesd_write K False data (of_nat (length data)) pos (device s)) (\<lambda>(ret, pos', w).
            let s' = s\<lparr>files := (files s)(fd \<mapsto> (a, pos')), device := w\<rparr>
            in Inr (if sint ret < 0 then Failed else Done ret, s')))"

text \<open>The kernel gives the first free of sixteen descriptors that no socket gets. Closing a descriptor
  that is not open has no effect.\<close>

definition session_open :: "access \<Rightarrow> 'x session_scheme \<Rightarrow> stop + (int io \<times> 'x session_scheme)" where
  "session_open a s =
     (case List.find (\<lambda>fd. files s fd = None) (map int [5..<21]) of
        None \<Rightarrow> Inr (Failed, s)
      | Some fd \<Rightarrow> Inr (Done fd, s\<lparr>files := (files s)(fd \<mapsto> (a, 0))\<rparr>))"

definition session_close :: "int \<Rightarrow> 'x session_scheme \<Rightarrow> 'x session_scheme" where
  "session_close fd s =
     (if files s fd = None then s\<lparr>sockets := sockets s - {fd}\<rparr> else s\<lparr>files := (files s)(fd := None)\<rparr>)"

definition session_ioctl :: "kernel \<Rightarrow> int \<Rightarrow> aesd_seekto \<Rightarrow> 'x session_scheme \<Rightarrow> stop + (int io \<times> 'x session_scheme)" where
  "session_ioctl K fd arg s =
     (case files s fd of
        None \<Rightarrow> Inr (Failed, s)
      | Some (a, pos) \<Rightarrow>
          andThen (aesd_ioctl K False (AESDCHAR_IOCSEEKTO (k_iowr K)) (Some (seekto_as_u64 arg)) pos
                    (device s)) (\<lambda>(ret, pos').
            Inr (if sint ret < 0 then Failed else Done (sint ret),
                 s\<lparr>files := (files s)(fd \<mapsto> (a, pos'))\<rparr>)))"

text \<open>With one thread, waiting is for ever, and a broadcast finds nobody.\<close>

definition session_monitor :: "monitor_op \<Rightarrow> 'x session_scheme \<Rightarrow> stop + 'x session_scheme" where
  "session_monitor op s =
     (let (blocks, m) =
        (case op of
           Start_reading \<Rightarrow> monitor_start_reading (smon s)
         | Stop_reading \<Rightarrow> (False, snd (monitor_stop_reading (smon s)))
         | Start_writing \<Rightarrow> monitor_start_writing (smon s)
         | Stop_writing \<Rightarrow> (False, snd (snd (monitor_stop_writing (smon s)))))
      in if blocks then Inl No_return else Inr (s\<lparr>smon := m\<rparr>))"

text \<open>There is no clock and no signal in a session.\<close>

definition session_os :: "(kheap \<Rightarrow> ptr \<Rightarrow> u64 \<Rightarrow> ptr \<times> kheap) \<Rightarrow> kernel \<Rightarrow> 'x session_scheme os" where
  "session_os f K =
     \<lparr>os_realloc = f, os_signal = (\<lambda>s. (None, s)), os_recv = (\<lambda>_. session_recv),
      os_send = (\<lambda>_. session_send), os_read = session_read K, os_write = session_write K,
      os_open = (\<lambda>_. session_open), os_close = session_close, os_ioctl_seekto = session_ioctl K,
      os_monitor = session_monitor, os_clock = (\<lambda>s. Inr (Failed, s)), os_localtime = (\<lambda>_. None),
      os_strftime = (\<lambda>_ _ _. [])\<rparr>"

lemma session_os_simps [simp]:
  "os_realloc (session_os f K) = f" "os_recv (session_os f K) fd = session_recv"
  "os_send (session_os f K) fd = session_send" "os_read (session_os f K) = session_read K"
  "os_write (session_os f K) = session_write K" "os_open (session_os f K) name = session_open"
  "os_close (session_os f K) = session_close" "os_ioctl_seekto (session_os f K) = session_ioctl K"
  "os_monitor (session_os f K) = session_monitor"
  by (simp_all add: session_os_def)

lemma session_quiet: "quiet (session_os f K)"
  by (simp add: quiet_def session_os_def)

section \<open>The socket\<close>

definition chunks_ok :: "byte list option list \<Rightarrow> bool" where
  "chunks_ok cs \<longleftrightarrow> (\<forall>c. Some c \<in> set cs \<longrightarrow> c \<noteq> [] \<and> length c < BUFFSIZE)"

definition stream :: "byte list option list \<Rightarrow> byte list" where
  "stream cs = concat (map (case_option [] id) cs)"

text \<open>The rest of the session is \<open>rest\<close>.\<close>

definition awaits :: "'x session_scheme \<Rightarrow> 'x session_scheme \<Rightarrow> byte list \<Rightarrow> nat \<Rightarrow> bool" where
  "awaits rest s bs k \<longleftrightarrow> s\<lparr>incoming := []\<rparr> = rest \<and> chunks_ok (incoming s)
     \<and> stream (incoming s) = bs \<and> count_list (incoming s) None = k"

lemma stream_Cons: "stream (c # cs) = (case c of None \<Rightarrow> [] | Some u \<Rightarrow> u) @ stream cs"
  by (cases c) (simp_all add: stream_def)

interpretation rx: byte_source "session_recv BUFFSIZE" "awaits rest" for rest
proof
  fix s bs k
  assume a: "awaits rest s bs k" and "bs \<noteq> []"
  then have "incoming s \<noteq> []" by (auto simp: awaits_def stream_def)
  then obtain c cs where c: "incoming s = c # cs" by (cases "incoming s") auto
  let ?s = "s\<lparr>incoming := cs\<rparr>"
  have cs: "?s\<lparr>incoming := []\<rparr> = rest" "chunks_ok cs"
    using a c by (auto simp: awaits_def chunks_ok_def)
  show "(\<exists>e' k'. session_recv BUFFSIZE s = Inr (Interrupted, e') \<and> k' < k \<and> awaits rest e' bs k')
    \<or> (\<exists>e' k' u v. session_recv BUFFSIZE s = Inr (Done u, e') \<and> k' \<le> k \<and> bs = u @ v \<and> u \<noteq> []
         \<and> awaits rest e' v k' \<and> (length u < BUFFSIZE \<or> length u = BUFFSIZE \<and> newline \<in> set u))"
  proof (cases c)
    case None
    then have "session_recv BUFFSIZE s = Inr (Interrupted, ?s)" by (simp add: session_recv_def c)
    moreover have "awaits rest ?s bs (k - 1)" "k - 1 < k"
      using a c cs None by (auto simp: awaits_def stream_Cons)
    ultimately show ?thesis by blast
  next
    case (Some u)
    then have u: "u \<noteq> []" "length u < BUFFSIZE" using a c by (auto simp: awaits_def chunks_ok_def)
    have "session_recv BUFFSIZE s = Inr (Done u, ?s)" using u(2) by (simp add: session_recv_def c Some)
    moreover have "awaits rest ?s (stream cs) k" "bs = u @ stream cs"
      using a c cs Some by (auto simp: awaits_def stream_Cons)
    ultimately show ?thesis using u by blast
  qed
next
  fix s k
  assume a: "awaits rest s [] k"
  show "(\<exists>e' k'. session_recv BUFFSIZE s = Inr (Interrupted, e') \<and> k' < k \<and> awaits rest e' [] k')
    \<or> (\<exists>e' k'. session_recv BUFFSIZE s = Inr (Done [], e') \<and> k' \<le> k \<and> awaits rest e' [] k')"
  proof (cases "incoming s")
    case Nil
    then show ?thesis using a by (auto simp: session_recv_def)
  next
    case (Cons c cs)
    then have "c = None" using a by (cases c) (auto simp: awaits_def stream_Cons chunks_ok_def)
    then have "session_recv BUFFSIZE s = Inr (Interrupted, s\<lparr>incoming := cs\<rparr>)"
      by (simp add: session_recv_def Cons)
    moreover have "awaits rest (s\<lparr>incoming := cs\<rparr>) [] (k - 1)" "k - 1 < k"
      using a Cons \<open>c = None\<close> by (auto simp: awaits_def stream_Cons chunks_ok_def)
    ultimately show ?thesis by blast
  qed
qed

end
