(* ===== verification/Server_Device.thy ===== *)
theory Server_Device
  imports Server_Session
begin

text \<open>
  The device as the file of the server: its reads deliver whole segments (a stored command, or the
  unterminated rest), so it is a \<open>line_source\<close> and \<open>file_transfer\<close> holds for it; its write takes a
  whole line, so it is a \<open>byte_sink\<close>.
\<close>

section \<open>Reading\<close>

text \<open>Every command is short enough for the debug buffer of the driver.\<close>

definition short_lines :: "world \<Rightarrow> bool" where
  "short_lines w \<longleftrightarrow> (\<forall>seg \<in> set (segments w). length seg < 100)"

lemma newline_terminator: "newline = TERMINATOR_CHARACTER"
  by (simp add: newline_def TERMINATOR_CHARACTER_def)

lemma segment_line:
  assumes "dev_inv w" and "seg \<in> set (segments w)"
  shows "newline \<notin> set (butlast seg)"
proof -
  have "seg \<in> set (stored_lines w) \<or> seg = pending w" using assms(2) by (auto simp: segments_def)
  then show ?thesis
  proof
    assume "seg \<in> set (stored_lines w)"
    then obtain e where "e \<in> set (live (buffer (dev w)))" "seg = line_bytes (heap w) e"
      by (auto simp: stored_lines_def)
    then show ?thesis
      using entry_okD(4) [OF dev_invD(6) [OF assms(1)]] by (simp add: is_line_def newline_terminator)
  next
    assume "seg = pending w"
    moreover have "TERMINATOR_CHARACTER \<notin> set (pending w)"
      using dev_invD(7) [OF assms(1)] by (auto simp: pending_def pending_ok_def split: if_splits)
    ultimately show ?thesis by (auto simp: newline_terminator dest: in_set_butlastD)
  qed
qed

lemma device_read:
  assumes "dev_wf w" and "short_lines w" and "user_writable K" and "unat pos \<le> length (contents w)"
  obtains n where "aesd_read K False (of_nat BUFFSIZE) pos w
      = Inr (of_nat n, pos + of_nat n, take n (drop (unat pos) (contents w)), w)"
    and "n < 100" and "n = 0 \<longleftrightarrow> drop (unat pos) (contents w) = []"
    and "unat (pos + of_nat n) = unat pos + n" and "unat pos + n \<le> length (contents w)"
    and "newline \<notin> set (butlast (take n (drop (unat pos) (contents w))))"
proof -
  have inv: "dev_inv w" using assms(1) by (simp add: dev_wf_def)
  have pos: "unat pos < 2 ^ 37" using contents_small [OF inv] assms(4) by simp
  have size: "unat (of_nat BUFFSIZE :: u64) = 1024" by (simp add: BUFFSIZE_def)
  let ?bs = "read_chunk w (unat pos) 1024"
  have prefix: "take (length ?bs) (drop (unat pos) (contents w)) = ?bs"
    by (rule read_chunk_prefix [symmetric])
  have empty: "?bs = [] \<longleftrightarrow> drop (unat pos) (contents w) = []" by (simp add: read_chunk_empty)
  have chunk: "length ?bs < 100 \<and> newline \<notin> set (butlast ?bs)"
  proof (cases "locate (map length (segments w)) (unat pos)")
    case None
    then show ?thesis by (simp add: read_chunk_def)
  next
    case (Some kr)
    then obtain k r where kr: "locate (map length (segments w)) (unat pos) = Some (k, r)"
      by (cases kr) auto
    then have "k < length (segments w)" using locate_Some [OF kr] by simp
    then have seg: "segments w ! k \<in> set (segments w)" by simp
    then have short: "length (segments w ! k) < 100" using assms(2) by (simp add: short_lines_def)
    then have "?bs = drop r (segments w ! k)" by (simp add: read_chunk_def kr)
    then show ?thesis
      using short segment_line [OF inv seg] by (auto simp: butlast_drop dest: in_set_dropD)
  qed
  have "unat pos < 2 ^ 63" using pos by simp
  from read_returns [OF assms(1) this assms(3), of "of_nat BUFFSIZE"] chunk
  have read: "aesd_read K False (of_nat BUFFSIZE) pos w
      = Inr (of_nat (length ?bs), pos + of_nat (length ?bs), ?bs, w)"
    unfolding size by simp
  have n: "unat (of_nat (length ?bs) :: u64) = length ?bs"
    using chunk by (intro unat_of_nat_u64) simp
  have "unat (pos + of_nat (length ?bs)) = unat pos + length ?bs"
    using pos chunk by (subst unat_add_lem [THEN iffD1]) (simp_all add: n)
  moreover have "unat pos + length ?bs \<le> length (contents w)"
    using arg_cong [OF prefix, of length] assms(4) by simp
  ultimately show thesis using that [of "length ?bs"] read chunk empty prefix by simp
qed

section \<open>The transfer\<close>

text \<open>\<open>rest\<close> is the session without the descriptor, the sent bytes and the monitor.\<close>

definition transferring ::
  "kernel \<Rightarrow> 'x session_scheme \<Rightarrow> int \<Rightarrow> bool \<Rightarrow> 'x session_scheme \<Rightarrow> byte list \<Rightarrow> byte list \<Rightarrow> nat \<Rightarrow> bool" where
  "transferring K rest fd inside s bs out k \<longleftrightarrow>
     s\<lparr>files := (files s)(fd := None), outgoing := [], smon := monitor_clear\<rparr> = rest
     \<and> user_writable K \<and> dev_wf (device s) \<and> short_lines (device s) \<and> 0 < accepts s
     \<and> smon s = (if inside then monitor_clear\<lparr>active_readers := 1\<rparr> else monitor_clear)
     \<and> outgoing s = out
     \<and> (\<exists>a pos. files s fd = Some (a, pos) \<and> a \<noteq> O_WRONLY \<and> unat pos \<le> length (contents (device s))
          \<and> bs = drop (unat pos) (contents (device s)))"

lemma session_reads:
  assumes "transferring K rest fd True s bs out k"
  obtains u v s' where "session_read K fd BUFFSIZE s = Inr (Done u, s')"
    and "bs = u @ v" and "transferring K rest fd True s' v out k" and "u = [] \<longleftrightarrow> bs = []"
    and "length u < BUFFSIZE" and "newline \<notin> set (butlast u)"
proof -
  obtain a pos where opened: "files s fd = Some (a, pos)" "a \<noteq> O_WRONLY"
    "unat pos \<le> length (contents (device s))" "bs = drop (unat pos) (contents (device s))"
    using assms by (auto simp: transferring_def)
  have dev: "dev_wf (device s)" "short_lines (device s)" "user_writable K"
    using assms by (simp_all add: transferring_def)
  obtain n where n: "aesd_read K False (of_nat BUFFSIZE) pos (device s)
      = Inr (of_nat n, pos + of_nat n, take n bs, device s)" "n < 100" "n = 0 \<longleftrightarrow> bs = []"
    "unat (pos + of_nat n) = unat pos + n" "unat pos + n \<le> length (contents (device s))"
    "newline \<notin> set (butlast (take n bs))"
    using device_read [OF dev opened(3)] unfolding opened(4) by metis
  let ?s = "s\<lparr>files := (files s)(fd \<mapsto> (a, pos + of_nat n))\<rparr>"
  have "sint (of_nat n :: u64) \<ge> 0"
    using n(2) sint_small [of "of_nat n"] by (simp add: unat_of_nat_u64)
  then have "session_read K fd BUFFSIZE s = Inr (Done (take n bs), ?s)"
    using opened n(1) by (simp add: session_read_def Let_def)
  moreover have "transferring K rest fd True ?s (drop n bs) out k"
    using assms opened(2) n(4,5) by (auto simp: transferring_def opened(4) add.commute)
  moreover have "take n bs = [] \<longleftrightarrow> bs = []" using n(3) by auto
  moreover have "length (take n bs) < BUFFSIZE" using n(2) by (simp add: BUFFSIZE_def)
  ultimately show thesis using that [of "take n bs" ?s "drop n bs"] n(6) by simp
qed

lemma session_line_source:
  "line_source (session_read K fd BUFFSIZE) (\<lambda>s bs k. transferring K rest fd True s bs out k)"
proof
  fix s bs k
  assume t: "transferring K rest fd True s bs out k" and "bs \<noteq> []"
  then show "(\<exists>e' k'. session_read K fd BUFFSIZE s = Inr (Interrupted, e') \<and> k' < k
        \<and> transferring K rest fd True e' bs out k')
    \<or> (\<exists>e' k' u v. session_read K fd BUFFSIZE s = Inr (Done u, e') \<and> k' \<le> k \<and> bs = u @ v \<and> u \<noteq> []
        \<and> transferring K rest fd True e' v out k'
        \<and> (length u < BUFFSIZE \<or> length u = BUFFSIZE \<and> newline \<in> set u))"
    by (metis session_reads [OF t] order_refl)
next
  fix s k
  assume t: "transferring K rest fd True s [] out k"
  obtain u v s' where "session_read K fd BUFFSIZE s = Inr (Done u, s')" "[] = u @ v"
    "transferring K rest fd True s' v out k" "u = []"
    using session_reads [OF t] by metis
  then show "(\<exists>e' k'. session_read K fd BUFFSIZE s = Inr (Interrupted, e') \<and> k' < k
        \<and> transferring K rest fd True e' [] out k')
    \<or> (\<exists>e' k'. session_read K fd BUFFSIZE s = Inr (Done [], e') \<and> k' \<le> k
        \<and> transferring K rest fd True e' [] out k')"
    by auto
next
  fix s bs k u s'
  assume t: "transferring K rest fd True s bs out k"
    and r: "session_read K fd BUFFSIZE s = Inr (Done u, s')"
  show "newline \<notin> set (butlast u)" using session_reads [OF t] r by (metis Inr_inject io.inject prod.inject)
qed

lemma session_byte_sink:
  "byte_sink session_send (\<lambda>_ _. True) (\<lambda>s out k. transferring K rest fd False s bs out k)"
proof
  fix s out k and data :: "byte list"
  assume t: "transferring K rest fd False s bs out k" and "data \<noteq> []"
  let ?n = "min (accepts s) (length data)"
  have "0 < ?n" using t \<open>data \<noteq> []\<close> by (simp add: transferring_def)
  moreover have "session_send data s = Inr (Done (of_nat ?n), s\<lparr>outgoing := outgoing s @ take ?n data\<rparr>)"
    by (simp add: session_send_def Let_def)
  moreover have "transferring K rest fd False (s\<lparr>outgoing := outgoing s @ take ?n data\<rparr>) bs (out @ take ?n data) k"
    using t by (auto simp: transferring_def)
  ultimately show "(\<exists>e' k'. session_send data s = Inr (Interrupted, e') \<and> k' < k
        \<and> transferring K rest fd False e' bs out k')
    \<or> (\<exists>e' k' n. session_send data s = Inr (Done (of_nat n), e') \<and> k' \<le> k \<and> 0 < n \<and> n \<le> length data
        \<and> (n < length data \<longrightarrow> True) \<and> transferring K rest fd False e' bs (out @ take n data) k')"
    by (intro disjI2 exI [of _ "s\<lparr>outgoing := outgoing s @ take ?n data\<rparr>"] exI [of _ k] exI [of _ ?n]) simp
qed

interpretation tf: file_transfer "session_os f K" fd sock "transferring K rest fd" for f K fd sock rest
proof (rule file_transfer.intro)
  fix s bs out k
  assume t: "transferring K rest fd False s bs out k"
  let ?s = "s\<lparr>smon := monitor_clear\<lparr>active_readers := 1\<rparr>\<rparr>"
  have "session_monitor Start_reading s = Inr ?s"
    using t by (simp add: transferring_def session_monitor_def monitor_unfold)
  moreover have "transferring K rest fd True ?s bs out k" using t by (auto simp: transferring_def)
  ultimately show "\<exists>e'. os_monitor (session_os f K) Start_reading s = Inr e' \<and> transferring K rest fd True e' bs out k"
    by simp
next
  fix s bs out k
  assume t: "transferring K rest fd True s bs out k"
  let ?s = "s\<lparr>smon := monitor_clear\<rparr>"
  have "session_monitor Stop_reading s = Inr ?s"
    using t by (simp add: transferring_def session_monitor_def monitor_unfold)
  moreover have "transferring K rest fd False ?s bs out k" using t by (auto simp: transferring_def)
  ultimately show "\<exists>e'. os_monitor (session_os f K) Stop_reading s = Inr e' \<and> transferring K rest fd False e' bs out k"
    by simp
next
  show "line_source (os_read (session_os f K) fd BUFFSIZE) (\<lambda>e bs k. transferring K rest fd True e bs out k)" for out
    using session_line_source by simp
next
  show "byte_sink (os_send (session_os f K) sock) (\<lambda>_ _. True) (\<lambda>e out k. transferring K rest fd False e bs out k)" for bs
    using session_byte_sink by simp
qed

end
