(* ===== verification/Server_Echo.thy ===== *)
theory Server_Echo
  imports Server_Device
begin

text \<open>
  A served connection on the device, step by step: the line is received, written to the device in
  one piece, and everything the device then holds is sent back.
\<close>

section \<open>Writing the line\<close>

definition blank_world :: world where
  "blank_world = \<lparr>dev = fresh_dev, heap = Map.empty\<rparr>"

text \<open>\<open>line\<close> is a whole line that the device, which represents \<open>h\<close>, can take in one write.\<close>

definition storable :: "kernel \<Rightarrow> byte list \<Rightarrow> byte list \<Rightarrow> world \<Rightarrow> bool" where
  "storable K line h w \<longleftrightarrow> represents w h \<and> \<not> write_unallocated K (of_nat (length line)) w
     \<and> user_readable K line (of_nat (length line))"

definition storing ::
  "kernel \<Rightarrow> 'x session_scheme \<Rightarrow> int \<Rightarrow> byte list \<Rightarrow> byte list \<Rightarrow> 'x session_scheme \<Rightarrow> byte list \<Rightarrow> nat \<Rightarrow> bool" where
  "storing K rest fd line h s out k \<longleftrightarrow>
     s\<lparr>files := (files s)(fd := None), device := blank_world\<rparr> = rest
     \<and> kernel_ok K \<and> dev_wf (device s) \<and> is_line line \<and> length line < 100
     \<and> (\<exists>a pos. files s fd = Some (a, pos) \<and> a \<noteq> O_RDONLY)
     \<and> (if out = [] then storable K line h (device s)
        else out = line \<and> represents (device s) (h @ line))"

lemma accepted_line: "is_line line \<Longrightarrow> accepted line = length line"
proof -
  assume l: "is_line line"
  then obtain u where u: "line = u @ [TERMINATOR_CHARACTER]" "TERMINATOR_CHARACTER \<notin> set u"
    unfolding is_line_def by (metis append_butlast_last_id)
  then have "takeWhile (\<lambda>b. b \<noteq> TERMINATOR_CHARACTER) line = u"
    by (auto simp: takeWhile_append takeWhile_eq_all_conv)
  then show ?thesis using u(1) by (simp add: accepted_def)
qed

interpretation st: byte_sink "session_write K fd" "\<lambda>out data. out = [] \<and> data = line"
    "storing K rest fd line h" for K fd line rest h
proof
  fix s out k and data :: "byte list"
  assume t: "storing K rest fd line h s out k" and d: "out = [] \<and> data = line" and "data \<noteq> []"
  obtain a pos where opened: "files s fd = Some (a, pos)" "a \<noteq> O_RDONLY"
    using t by (auto simp: storing_def)
  have K: "kernel_ok K" "dev_wf (device s)" "is_line line" "length line < 100"
    and w: "represents (device s) h" "\<not> write_unallocated K (of_nat (length line)) (device s)"
      "user_readable K line (of_nat (length line))"
    using t d by (simp_all add: storing_def storable_def)
  let ?n = "of_nat (length line) :: u64"
  have n: "unat ?n = length line" using K(4) by (intro unat_of_nat_u64) simp
  then have "?n \<noteq> 0" "unat ?n < 100" using d \<open>data \<noteq> []\<close> K(4) by auto
  from write_appends [OF K(1,2) w(1) this w(2,3), of pos] obtain w' where
    w': "aesd_write K False line ?n pos (device s) = Inr (?n, pos + ?n, w')" "dev_wf w'"
      "represents w' (h @ line)"
    using accepted_line [OF K(3)] by (auto simp: n Let_def)
  let ?s = "s\<lparr>files := (files s)(fd \<mapsto> (a, pos + ?n)), device := w'\<rparr>"
  have "sint ?n \<ge> 0" using sint_small [of ?n] K(4) by (simp add: n)
  then have "session_write K fd data s = Inr (Done ?n, ?s)"
    using opened d w'(1) by (simp add: session_write_def)
  moreover have "storing K rest fd line h ?s (out @ take (length line) data) k"
    using t d opened(2) w'(2,3) \<open>data \<noteq> []\<close> by (auto simp: storing_def)
  ultimately show "(\<exists>e' k'. session_write K fd data s = Inr (Interrupted, e') \<and> k' < k
        \<and> storing K rest fd line h e' out k')
    \<or> (\<exists>e' k' n. session_write K fd data s = Inr (Done (of_nat n), e') \<and> k' \<le> k \<and> 0 < n
        \<and> n \<le> length data \<and> (n < length data \<longrightarrow> out @ take n data = [] \<and> drop n data = line)
        \<and> storing K rest fd line h e' (out @ take n data) k')"
    using d \<open>data \<noteq> []\<close>
    by (intro disjI2 exI [of _ ?s] exI [of _ k] exI [of _ "length line"]) simp
qed

lemma session_write_line:
  assumes "kernel_ok K" and "dev_wf (device s)" and "is_line line" and "length line < 100"
    and "files s fd = Some (a, pos)" and "a \<noteq> O_RDONLY" and "storable K line h (device s)"
    and "smon s = monitor_clear" and "0 \<notin> set line" and "length line < fuel"
  shows "\<exists>pos' w. aesdsocket_write_line (session_os f K) fuel fd (line @ 0 # rest) (p\<lparr>env := s\<rparr>)
      = Inr (True, p\<lparr>env := s\<lparr>files := (files s)(fd \<mapsto> pos'), device := w\<rparr>\<rparr>)
    \<and> dev_wf w \<and> represents w (h @ line)"
proof -
  let ?s = "s\<lparr>smon := monitor_clear\<lparr>active_writers := 1\<rparr>\<rparr>"
  let ?r = "?s\<lparr>files := (files s)(fd := None), device := blank_world\<rparr>"
  have enter: "session_monitor Start_writing s = Inr ?s"
    using assms(8) by (simp add: session_monitor_def monitor_unfold)
  have "storing K ?r fd line h ?s [] 0" using assms(1-7) by (simp add: storing_def)
  from st.write_loop_all [OF _ assms(9) _ this, of "session_os f K" fd "length line" fuel rest]
  obtain s1 where
    loop: "write_loop (session_os f K) fd fuel (line @ 0 # rest) (of_nat (length line)) ?s = Inr (True, s1)"
    and s1: "storing K ?r fd line h s1 line 0"
    using assms(4,10) by auto
  have "line \<noteq> []" using assms(3) by (simp add: is_line_def)
  then have dev: "dev_wf (device s1)" "represents (device s1) (h @ line)"
    and frame: "s1\<lparr>files := (files s1)(fd := None), device := blank_world\<rparr> = ?r"
    using s1 by (simp_all add: storing_def)
  obtain pos' where "files s1 fd = Some pos'" using s1 by (auto simp: storing_def)
  have "smon s1 = monitor_clear\<lparr>active_writers := 1\<rparr>"
    using arg_cong [OF frame, of smon] by simp
  then have "session_monitor Stop_writing s1 = Inr (s1\<lparr>smon := monitor_clear\<rparr>)"
    by (simp add: session_monitor_def monitor_unfold)
  moreover have "s1\<lparr>smon := monitor_clear\<rparr> = s\<lparr>files := (files s)(fd \<mapsto> pos'), device := device s1\<rparr>"
    using frame assms(8) \<open>files s1 fd = Some pos'\<close>
    by (cases s1; cases s) (auto simp: fun_eq_iff split: if_splits)
  ultimately show ?thesis
    using enter loop dev assms(9)
    by (intro exI [of _ pos'] exI [of _ "device s1"]) (simp add: aesdsocket_write_line_def)
qed

section \<open>What the device sends back\<close>

definition last_ten :: "byte list \<Rightarrow> byte list list" where
  "last_ten history = (let ls = fst (commands_of history) in drop (length ls - 10) ls)"

lemma accept_bytes_concat:
  "case foldl accept_byte (ls, r) h of (ls', r') \<Rightarrow> concat ls' @ r' = concat ls @ r @ h"
proof (induction h arbitrary: ls r)
  case (Cons b h)
  show ?case
    using Cons [of "ls @ [r @ [b]]" "[]"] Cons [of ls "r @ [b]"]
    by (auto simp: accept_byte_def split: prod.splits)
qed simp

lemma commands_concat: "concat (fst (commands_of h)) @ snd (commands_of h) = h"
  using accept_bytes_concat [of "[]" "[]" h] by (auto simp: commands_of_def split: prod.splits)

lemma after_whole_line:
  assumes "is_line line"
  shows "snd (commands_of (h @ line)) = []"
proof -
  have "line = butlast line @ [TERMINATOR_CHARACTER]"
    using assms unfolding is_line_def by (metis append_butlast_last_id)
  then show ?thesis
    unfolding commands_of_def
    by (metis accept_command assms foldl_append is_line_def prod.collapse snd_conv)
qed

lemma represents_contents:
  assumes "represents w h" and "snd (commands_of h) = []"
  shows "contents w = concat (last_ten h)" and "segments w = last_ten h @ [[]]"
  using assms by (simp_all add: represents_def contents_def segments_def last_ten_def Let_def
      split: prod.splits)

lemma last_ten_bytes:
  shows "set (concat (last_ten h)) \<subseteq> set h" and "length (concat (last_ten h)) \<le> length h"
proof -
  let ?ls = "fst (commands_of h)"
  have h: "concat (take (length ?ls - 10) ?ls) @ concat (last_ten h) @ snd (commands_of h) = h"
    using commands_concat [of h]
    by (simp add: last_ten_def Let_def flip: concat_append append_assoc)
  show "set (concat (last_ten h)) \<subseteq> set h"
    by (subst (2) h [symmetric]) auto
  show "length (concat (last_ten h)) \<le> length h"
    using arg_cong [OF h, of length] by simp
qed

lemma last_ten_short:
  "represents w h \<Longrightarrow> snd (commands_of h) = [] \<Longrightarrow> \<forall>c \<in> set (last_ten h). length c < 100 \<Longrightarrow> short_lines w"
  by (simp add: short_lines_def represents_contents(2))

section \<open>The whole connection\<close>

lemma session_open_first:
  "files s = Map.empty \<Longrightarrow> session_open a s = Inr (Done 5, s\<lparr>files := [5 \<mapsto> (a, 0)]\<rparr>)"
  by (simp add: session_open_def upt_conv_Cons)

lemma session_sends_contents:
  fixes p :: "'x session_scheme proc"
  assumes "memory_ok (session_os f K :: 'x session_scheme os) blocks limit" and "card (dom (mem p)) < blocks"
    and "mem p NULL = None" and "\<not> termination_flag p" and "user_writable K" and "dev_wf (device s)"
    and "short_lines (device s)" and "0 < accepts s" and "smon s = monitor_clear"
    and "files s = [fd \<mapsto> (a, pos)]" and "a \<noteq> O_WRONLY"
    and "unat pos \<le> length (contents (device s))" and "0 \<notin> set (contents (device s))"
    and "length (contents (device s)) + 1 \<le> limit" and "length (contents (device s)) < fuel"
  shows "\<exists>s'. aesdsocket_read_and_send_file (session_os f K) fuel sock fd (p\<lparr>env := s\<rparr>)
      = Inr (True, p\<lparr>env := s'\<rparr>)
    \<and> session_close fd s' = s\<lparr>files := Map.empty,
        outgoing := outgoing s @ drop (unat pos) (contents (device s))\<rparr>"
proof -
  let ?bs = "drop (unat pos) (contents (device s))"
  let ?r = "s\<lparr>files := (files s)(fd := None), outgoing := [], smon := monitor_clear\<rparr>"
  have t: "transferring K ?r fd False (env (p\<lparr>env := s\<rparr>)) ?bs (outgoing s) 0"
    using assms(5-12) by (simp add: transferring_def)
  have bs: "0 \<notin> set ?bs" "length ?bs + 1 \<le> limit" "length ?bs + 0 < fuel"
    using assms(13-15) by (auto dest: in_set_dropD)
  have p: "card (dom (mem (p\<lparr>env := s\<rparr>))) < blocks" "mem (p\<lparr>env := s\<rparr>) NULL = None"
    "\<not> termination_flag (p\<lparr>env := s\<rparr>)" using assms(2-4) by simp_all
  from tf.read_and_send_file_all [where sock = sock, OF assms(1) p(1) session_quiet t p(2) bs(1) p(3) bs(2,3)]
  obtain s' k where
    call: "aesdsocket_read_and_send_file (session_os f K) fuel sock fd (p\<lparr>env := s\<rparr>)
      = Inr (True, p\<lparr>env := s'\<rparr>)"
    and t': "transferring K ?r fd False s' [] (outgoing s @ ?bs) k" by auto
  have "session_close fd s' = s\<lparr>files := Map.empty, outgoing := outgoing s @ ?bs\<rparr>"
    using t' assms(9,10)
    by (cases s; cases s') (auto simp: transferring_def session_close_def fun_eq_iff split: if_splits)
  with call show ?thesis by blast
qed

text \<open>A process that serves the device, and a peer that sends one line that is no seek request.\<close>

definition serves :: "(kheap \<Rightarrow> ptr \<Rightarrow> u64 \<Rightarrow> ptr \<times> kheap) \<Rightarrow> kernel \<Rightarrow> nat \<Rightarrow> 'x session_scheme proc \<Rightarrow> bool" where
  "serves f K limit p \<longleftrightarrow> kernel_ok K \<and> user_writable K \<and> dev_wf (device (env p))
     \<and> memory_ok (session_os f K :: 'x session_scheme os) (card (dom (mem p)) + 2) limit \<and> mem p NULL = None
     \<and> \<not> termination_flag p \<and> files (env p) = Map.empty \<and> smon (env p) = monitor_clear
     \<and> 0 < accepts (env p) \<and> chunks_ok (incoming (env p))
     \<and> 0 \<notin> set (stream (incoming (env p))) \<and> newline \<in> set (stream (incoming (env p)))"

lemma line_of_is_line: "newline \<in> set bs \<Longrightarrow> is_line (line_of bs)"
  by (auto simp: line_of_def is_line_def newline_terminator butlast_append dest: set_takeWhileD)

lemma serve_line_stores:
  assumes "serves f K limit p" and "0 \<notin> set cmd" and "0 \<notin> set line" and "is_line line"
    and "length line < 100" and "take (length cmd) line \<noteq> cmd" and "storable K line h (device s)"
    and "dev_wf (device s)" and "files s = [fd \<mapsto> (O_RDWR, pos)]" and "smon s = monitor_clear"
    and "length line < fuel"
  shows "\<exists>w. serve_line (session_os f K) fuel (line @ 0 # rest) name (cmd @ [0]) fd (q\<lparr>env := s\<rparr>)
      = Inr (True, 5, q\<lparr>env := s\<lparr>files := [5 \<mapsto> (O_RDONLY, 0)], device := w\<rparr>\<rparr>)
    \<and> dev_wf w \<and> represents w (h @ line)"
proof -
  have K: "kernel_ok K" using assms(1) by (simp add: serves_def)
  have opened: "files s fd = Some (O_RDWR, pos)" using assms(9) by simp
  from session_write_line [OF K assms(8,4,5) opened _ assms(7,10,3,11), of f rest q]
  obtain pos' w where
    written: "aesdsocket_write_line (session_os f K) fuel fd (line @ 0 # rest) (q\<lparr>env := s\<rparr>)
      = Inr (True, q\<lparr>env := s\<lparr>files := (files s)(fd \<mapsto> pos'), device := w\<rparr>\<rparr>)"
    and w: "dev_wf w" "represents w (h @ line)" by auto
  let ?s = "s\<lparr>files := (files s)(fd \<mapsto> pos'), device := w\<rparr>"
  have "session_close fd ?s = s\<lparr>files := Map.empty, device := w\<rparr>"
    by (simp add: session_close_def assms(9))
  then have "session_open O_RDONLY (session_close fd ?s)
      = Inr (Done 5, s\<lparr>files := [5 \<mapsto> (O_RDONLY, 0)], device := w\<rparr>)"
    using session_open_first [of "s\<lparr>files := Map.empty, device := w\<rparr>"] by simp
  moreover have "c_strlen (cmd @ [0]) = Inr (length cmd)" using c_strlen_text [OF assms(2), of "[]"] .
  moreover have "c_strncmp_eq (line @ 0 # rest) (cmd @ [0]) (length cmd) = Inr False"
    using c_strncmp_eq_strings [OF assms(2,3)] assms(6) by simp
  ultimately show ?thesis using written w by (intro exI [of _ w]) (simp add: serve_line_def)
qed

text \<open>What every served connection does: the line is received into a block of its own, and when
  the line is dealt with and the file is sent, the block and the descriptor are given back.\<close>

lemma serve_receives_line:
  fixes p :: "'x session_scheme proc" and S :: "'x session_scheme os"
  assumes calls: "os_recv S sock = session_recv" "os_open S name = session_open" "os_close S = session_close" "quiet S"
    and mem: "memory_ok S (card (dom (mem p)) + 2) limit" "mem p NULL = None" "\<not> termination_flag p"
    and files: "files (env p) = Map.empty"
    and peer: "chunks_ok (incoming (env p))" "0 \<notin> set (stream (incoming (env p)))"
      "newline \<in> set (stream (incoming (env p)))"
    and limit: "length (stream (incoming (env p))) + 1 \<le> limit"
    and fuel: "length (stream (incoming (env p))) + count_list (incoming (env p)) None < fuel"
  obtains s cs h r where "s = (env p)\<lparr>incoming := cs, files := [5 \<mapsto> (O_RDWR, 0)]\<rparr>" and "h NULL = None" and "card (dom h) < card (dom (mem p)) + 2"
    and "\<And>fd s3 s4. fd \<noteq> - 1 \<Longrightarrow>
      serve_line S fuel (line_of (stream (incoming (env p))) @ 0 # r) name seekto 5
        (p\<lparr>mem := h, env := s\<rparr>) = Inr (True, fd, p\<lparr>mem := h, env := s3\<rparr>) \<Longrightarrow>
      aesdsocket_read_and_send_file S fuel sock fd (p\<lparr>mem := h, env := s3\<rparr>)
        = Inr (True, p\<lparr>mem := h, env := s4\<rparr>) \<Longrightarrow>
      aesdsocket_serve S fuel sock name seekto p = Inr (True, p\<lparr>env := session_close fd s4\<rparr>)"
    and "\<And>fd s3. fd \<noteq> - 1 \<Longrightarrow>
      serve_line S fuel (line_of (stream (incoming (env p))) @ 0 # r) name seekto 5
        (p\<lparr>mem := h, env := s\<rparr>) = Inr (False, fd, p\<lparr>mem := h, env := s3\<rparr>) \<Longrightarrow>
      aesdsocket_serve S fuel sock name seekto p = Inr (False, p\<lparr>env := session_close fd s3\<rparr>)"
proof -
  let ?bs = "stream (incoming (env p))" and ?k = "count_list (incoming (env p)) None"
  let ?s1 = "(env p)\<lparr>files := [5 \<mapsto> (O_RDWR, 0)]\<rparr>"
  let ?p1 = "p\<lparr>env := ?s1\<rparr>"
  have opened: "session_open O_RDWR (env p) = Inr (Done 5, ?s1)"
    by (rule session_open_first [OF files])
  have "awaits (?s1\<lparr>incoming := []\<rparr>) (env ?p1) ?bs ?k" using peer by (simp add: awaits_def)
  then obtain q s h bs' k' where
    recv: "aesdsocket_recv_line S fuel sock NULL ?p1 = Inr (True, q, ?p1\<lparr>env := s, mem := h\<rparr>)"
    and q: "string_at (mem p) q (line_of ?bs) h" and s: "awaits (?s1\<lparr>incoming := []\<rparr>) s bs' k'"
    using rx.recv_line_receives [of S sock "card (dom (mem p)) + 2" limit ?p1 "?s1\<lparr>incoming := []\<rparr>" ?bs ?k fuel]
      calls(1,4) mem limit fuel peer(2,3) by auto
  obtain r where block: "h q = Some (line_of ?bs @ 0 # r)" "q \<noteq> NULL" "h NULL = None"
    using q by (auto simp: string_at_def)
  have s: "s = (env p)\<lparr>incoming := incoming s, files := [5 \<mapsto> (O_RDWR, 0)]\<rparr>"
    using s by (simp add: awaits_def) (cases s; cases "env p"; simp)
  have "card (dom h) < card (dom (mem p)) + 2"
    using collecting_blocks [OF string_at_restart [OF q]] by simp
  moreover have "aesdsocket_serve S fuel sock name seekto p = Inr (True, p\<lparr>env := session_close fd s4\<rparr>)"
    if "fd \<noteq> - 1"
      and "serve_line S fuel (line_of ?bs @ 0 # r) name seekto 5 (p\<lparr>mem := h, env := s\<rparr>)
        = Inr (True, fd, p\<lparr>mem := h, env := s3\<rparr>)"
      and "aesdsocket_read_and_send_file S fuel sock fd (p\<lparr>mem := h, env := s3\<rparr>)
        = Inr (True, p\<lparr>mem := h, env := s4\<rparr>)" for fd s3 s4
    using that calls opened recv block string_freed [OF q]
    by (simp add: aesdsocket_serve_def Let_def proc_swap close_fd_def)
  moreover have "aesdsocket_serve S fuel sock name seekto p = Inr (False, p\<lparr>env := session_close fd s3\<rparr>)"
    if "fd \<noteq> - 1"
      and "serve_line S fuel (line_of ?bs @ 0 # r) name seekto 5 (p\<lparr>mem := h, env := s\<rparr>)
        = Inr (False, fd, p\<lparr>mem := h, env := s3\<rparr>)" for fd s3
    using that calls opened recv block string_freed [OF q]
    by (simp add: aesdsocket_serve_def Let_def proc_swap close_fd_def)
  ultimately show thesis using that [OF s] block(3) by blast
qed

lemma serve_receives:
  fixes p :: "'x session_scheme proc"
  assumes p: "serves f K limit p"
    and limit: "length (stream (incoming (env p))) + 1 \<le> limit"
    and fuel: "length (stream (incoming (env p))) + count_list (incoming (env p)) None < fuel"
  obtains s cs h r where "s = (env p)\<lparr>incoming := cs, files := [5 \<mapsto> (O_RDWR, 0)]\<rparr>" and "h NULL = None" and "card (dom h) < card (dom (mem p)) + 2"
    and "\<And>fd s3 s4. fd \<noteq> - 1 \<Longrightarrow>
      serve_line (session_os f K) fuel (line_of (stream (incoming (env p))) @ 0 # r) name seekto 5
        (p\<lparr>mem := h, env := s\<rparr>) = Inr (True, fd, p\<lparr>mem := h, env := s3\<rparr>) \<Longrightarrow>
      aesdsocket_read_and_send_file (session_os f K) fuel sock fd (p\<lparr>mem := h, env := s3\<rparr>)
        = Inr (True, p\<lparr>mem := h, env := s4\<rparr>) \<Longrightarrow>
      aesdsocket_serve (session_os f K) fuel sock name seekto p = Inr (True, p\<lparr>env := session_close fd s4\<rparr>)"
    and "\<And>fd s3. fd \<noteq> - 1 \<Longrightarrow>
      serve_line (session_os f K) fuel (line_of (stream (incoming (env p))) @ 0 # r) name seekto 5
        (p\<lparr>mem := h, env := s\<rparr>) = Inr (False, fd, p\<lparr>mem := h, env := s3\<rparr>) \<Longrightarrow>
      aesdsocket_serve (session_os f K) fuel sock name seekto p = Inr (False, p\<lparr>env := session_close fd s3\<rparr>)"
proof -
  let ?S = "session_os f K :: 'x session_scheme os"
  have calls: "os_recv ?S sock = session_recv" "os_open ?S name = session_open" "os_close ?S = session_close"
    by simp_all
  have "memory_ok ?S (card (dom (mem p)) + 2) limit" "mem p NULL = None" "\<not> termination_flag p"
    "files (env p) = Map.empty" "chunks_ok (incoming (env p))" "0 \<notin> set (stream (incoming (env p)))"
    "newline \<in> set (stream (incoming (env p)))" using p by (simp_all add: serves_def)
  note received = serve_receives_line [OF calls session_quiet this limit fuel, of seekto]
  show thesis by (rule received) (rule that, assumption+)
qed

lemma serve_echoes:
  fixes p :: "'x session_scheme proc"
  assumes p: "serves f K limit p" and cmd: "0 \<notin> set cmd"
  defines "line \<equiv> line_of (stream (incoming (env p)))"
  assumes short: "length line < 100" and no_seek: "take (length cmd) line \<noteq> cmd"
    and store: "storable K line h (device (env p))" and nul: "0 \<notin> set h"
    and lines: "\<forall>c \<in> set (last_ten (h @ line)). length c < 100"
    and limit: "length (stream (incoming (env p))) + length h + 1 \<le> limit"
    and fuel: "length (stream (incoming (env p))) + length h + count_list (incoming (env p)) None < fuel"
  shows "\<exists>cs w. aesdsocket_serve (session_os f K) fuel sock name (cmd @ [0]) p
      = Inr (True, p\<lparr>env := (env p)\<lparr>incoming := cs,
          outgoing := outgoing (env p) @ concat (last_ten (h @ line)), device := w\<rparr>\<rparr>)
    \<and> dev_wf w \<and> represents w (h @ line)"
proof -
  let ?S = "session_os f K :: 'x session_scheme os" and ?bs = "stream (incoming (env p))"
  have mem: "memory_ok ?S (card (dom (mem p)) + 2) limit" "\<not> termination_flag p"
    and dev: "dev_wf (device (env p))" "user_writable K" using p by (simp_all add: serves_def)
  have "length ?bs + 1 \<le> limit" "length ?bs + count_list (incoming (env p)) None < fuel"
    using limit fuel by simp_all
  note received = serve_receives [OF p this, of name "cmd @ [0]" sock]
  obtain s cs h1 r where
    s: "s = (env p)\<lparr>incoming := cs, files := [5 \<mapsto> (O_RDWR, 0)]\<rparr>"
    and h1: "h1 NULL = None" "card (dom h1) < card (dom (mem p)) + 2"
    and serve: "\<And>fd s3 s4. fd \<noteq> - 1 \<Longrightarrow>
      serve_line ?S fuel (line @ 0 # r) name (cmd @ [0]) 5
        (p\<lparr>mem := h1, env := s\<rparr>) = Inr (True, fd, p\<lparr>mem := h1, env := s3\<rparr>) \<Longrightarrow>
      aesdsocket_read_and_send_file ?S fuel sock fd (p\<lparr>mem := h1, env := s3\<rparr>)
        = Inr (True, p\<lparr>mem := h1, env := s4\<rparr>) \<Longrightarrow>
      aesdsocket_serve ?S fuel sock name (cmd @ [0]) p = Inr (True, p\<lparr>env := session_close fd s4\<rparr>)"
    using received unfolding line_def by metis
  have frame: "files s = [5 \<mapsto> (O_RDWR, 0)]" "device s = device (env p)" "smon s = monitor_clear"
    "outgoing s = outgoing (env p)" "0 < accepts s" "h1 NULL = None" "card (dom h1) < card (dom (mem p)) + 2"
    using p s h1 by (simp_all add: serves_def)
  have nl: "newline \<in> set ?bs" "0 \<notin> set line"
    using p line_of_set [of ?bs] by (auto simp: serves_def line_def)
  have line: "is_line line" using line_of_is_line [OF nl(1)] by (simp add: line_def)
  have len: "length line \<le> length ?bs" by (simp add: line_def line_of_length)
  then have "length line < fuel" using fuel by simp
  from serve_line_stores [OF p cmd nl(2) line short no_seek _ _ frame(1) frame(3) this, of h r name "p\<lparr>mem := h1\<rparr>"]
  obtain w where
    served: "serve_line ?S fuel (line @ 0 # r) name (cmd @ [0]) 5 (p\<lparr>mem := h1, env := s\<rparr>)
      = Inr (True, 5, p\<lparr>mem := h1, env := s\<lparr>files := [5 \<mapsto> (O_RDONLY, 0)], device := w\<rparr>\<rparr>)"
    and w: "dev_wf w" "represents w (h @ line)"
    using store dev(1) frame(2) by auto
  let ?s3 = "s\<lparr>files := [5 \<mapsto> (O_RDONLY, 0)], device := w\<rparr>"
  note ended = after_whole_line [OF line, of h]
  have contents: "contents w = concat (last_ten (h @ line))" by (rule represents_contents [OF w(2) ended])
  have bytes: "0 \<notin> set (contents w)" "length (contents w) \<le> length h + length line"
    using last_ten_bytes(1) [of "h @ line"] nl(2) nul last_ten_bytes(2) [of "h @ line"]
    unfolding contents by (auto simp del: length_concat set_concat)
  obtain s4 where
    sent: "aesdsocket_read_and_send_file ?S fuel sock 5 (p\<lparr>mem := h1, env := ?s3\<rparr>)
      = Inr (True, p\<lparr>mem := h1, env := s4\<rparr>)"
    and s4: "session_close 5 s4 = ?s3\<lparr>files := Map.empty, outgoing := outgoing (env p) @ contents w\<rparr>"
    using session_sends_contents [OF mem(1), of "p\<lparr>mem := h1\<rparr>" ?s3 5 O_RDONLY 0 fuel sock]
      mem(2) dev(2) w(1) last_ten_short [OF w(2) ended lines] frame bytes len limit fuel
    by auto
  have "aesdsocket_serve ?S fuel sock name (cmd @ [0]) p = Inr (True, p\<lparr>env := session_close 5 s4\<rparr>)"
    by (rule serve [OF _ served sent]) simp
  moreover have "session_close 5 s4 = (env p)\<lparr>incoming := cs,
      outgoing := outgoing (env p) @ concat (last_ten (h @ line)), device := w\<rparr>"
    using p unfolding s4 s contents serves_def by (cases "env p") simp
  ultimately show ?thesis using w by auto
qed

end
