(* ===== verification/Server_Requests.thy ===== *)
theory Server_Requests
  imports Server_Echo
begin

text \<open>
  Lines that start with the name of the seek request: what the parser sees depends only on the
  line, and the connection answers with the device from the requested byte on, with the whole
  device when the request is malformed, or with nothing when it is refused.
\<close>

section \<open>Parsing depends on the string only\<close>

lemma c_strchr_string:
  "0 \<notin> set s \<Longrightarrow> c \<noteq> 0 \<Longrightarrow> c_strchr (s @ 0 # r) c
    = Inr (if c \<in> set s then Some (length (takeWhile (\<lambda>b. b \<noteq> c) s)) else None)"
  by (induction s) auto

lemma takeWhile_found: "c \<in> set s \<Longrightarrow> length (takeWhile (\<lambda>b. b \<noteq> c) s) < length s"
  by (induction s) auto

lemma strncpy_bytes_string:
  "0 \<notin> set s \<Longrightarrow> n \<le> length s \<Longrightarrow> strncpy_bytes n (s @ 0 # r) = Inr (take n s)"
  by (subst strncpy_bytes_text) (auto dest: in_set_takeD)

lemma field_value_string:
  "0 \<notin> set s \<Longrightarrow> n \<le> length s \<Longrightarrow> field_value b (s @ 0 # r) n = field_value b (s @ [0]) n"
  by (simp add: field_value_def c_strncpy_def strncpy_bytes_string)

lemma drop_past: "i < length s \<Longrightarrow> drop (i + 1) (s @ 0 # r) = drop (i + 1) s @ 0 # r"
  by simp

lemma parse_seekto_string:
  assumes "0 \<notin> set s"
  shows "parse_seekto (s @ 0 # r) = parse_seekto (s @ [0])"
proof -
  let ?after = "\<lambda>c s. drop (length (takeWhile (\<lambda>b. b \<noteq> c) s) + 1) s"
  have clean: "0 \<notin> set (drop k s)" "0 \<notin> set (drop j (drop k s))" for j k
    using assms by (auto dest: in_set_dropD)
  let ?c = "?after 58 s" and ?d = "?after 44 (?after 58 s)"
  have nonzero: "(58 :: byte) \<noteq> 0" "(44 :: byte) \<noteq> 0" "newline \<noteq> (0 :: byte)" by (simp_all add: newline_def)
  have parsed: "parse_seekto (s @ 0 # q) =
      (if 58 \<notin> set s \<or> 44 \<notin> set ?c \<or> newline \<notin> set ?d then Inr None
       else andThen (field_value (replicate BUFFSIZE 0) (?c @ [0]) (length (takeWhile (\<lambda>b. b \<noteq> 44) ?c)))
         (\<lambda>(cmd, command_buffer).
         andThen (field_value command_buffer (?d @ [0]) (length (takeWhile (\<lambda>b. b \<noteq> newline) ?d)))
           (\<lambda>(offset, _). Inr (Some (Seekto (of_int cmd) (of_int offset))))))" for q
  proof (cases "58 \<in> set s")
    case True
    have c: "drop (length (takeWhile (\<lambda>b. b \<noteq> 58) s) + 1) (s @ 0 # q) = ?c @ 0 # q"
      by (rule drop_past [OF takeWhile_found [OF True]])
    show ?thesis
    proof (cases "44 \<in> set ?c")
      case comma: True
      have d: "drop (length (takeWhile (\<lambda>b. b \<noteq> 44) ?c) + 1) (?c @ 0 # q) = ?d @ 0 # q"
        by (rule drop_past [OF takeWhile_found [OF comma]])
      have fields: "field_value b (?c @ 0 # q) (length (takeWhile (\<lambda>b. b \<noteq> 44) ?c))
            = field_value b (?c @ [0]) (length (takeWhile (\<lambda>b. b \<noteq> 44) ?c))"
          "field_value b (?d @ 0 # q) (length (takeWhile (\<lambda>b. b \<noteq> newline) ?d))
            = field_value b (?d @ [0]) (length (takeWhile (\<lambda>b. b \<noteq> newline) ?d))" for b
        by (rule field_value_string [OF clean(1) length_takeWhile_le])
          (rule field_value_string [OF clean(2) length_takeWhile_le])
      show ?thesis
        unfolding parse_seekto_def c_strchr_string [OF assms nonzero(1)] andThen.simps Let_def option.case
          if_P [OF True] c c_strchr_string [OF clean(1) nonzero(2)] if_P [OF comma] d
          c_strchr_string [OF clean(2) nonzero(3)]
        using True comma
        by (cases "newline \<in> set ?d") (simp_all only: option.case if_True if_False simp_thms fields)
    next
      case False
      then show ?thesis
        unfolding parse_seekto_def c_strchr_string [OF assms nonzero(1)] andThen.simps Let_def option.case
          if_P [OF True] c c_strchr_string [OF clean(1) nonzero(2)]
        by simp
    qed
  next
    case False
    then show ?thesis unfolding parse_seekto_def c_strchr_string [OF assms nonzero(1)] by simp
  qed
  show ?thesis by (simp only: parsed)
qed

section \<open>The answer of the driver\<close>

text \<open>The byte a connection sends the device from: a malformed request leaves the position where
  opening the file put it, and a refused one leaves the connection without an answer. The driver
  takes the command as one byte.\<close>

fun seek_target :: "nat list \<Rightarrow> aesd_seekto option \<Rightarrow> nat option" where
  "seek_target ss None = Some 0"
| "seek_target ss (Some (Seekto cmd off)) = position_of ss (unat cmd mod 256) (unat off)"

lemma seek_target_contents:
  assumes "dev_wf w" and "seek_target (map length (stored_lines w)) request = Some n"
  shows "n \<le> length (contents w)" and "unat (of_nat n :: u64) = n"
proof -
  have inv: "dev_inv w" using assms(1) by (simp add: dev_wf_def)
  show n: "n \<le> length (contents w)"
  proof (cases request)
    case (Some r)
    then have "n < sum_list (map length (stored_lines w))"
      using assms(2) position_of_less by (cases r) auto
    then show ?thesis by (simp add: contents_def length_concat)
  qed (use assms in simp)
  show "unat (of_nat n :: u64) = n"
    using n contents_small [OF inv] by (intro unat_of_nat_u64) simp
qed

lemma session_seeks:
  assumes "kernel_ok K" and wf: "dev_wf (device s)" and "files s fd = Some (a, pos)"
  shows "session_ioctl K fd request s = Inr
    (case seek_target (map length (stored_lines (device s))) (Some request) of
       None \<Rightarrow> (Failed, s) | Some n \<Rightarrow> (Done (int n), s\<lparr>files := (files s)(fd \<mapsto> (a, of_nat n))\<rparr>))"
proof (cases request)
  case (Seekto cmd off)
  have same: "s\<lparr>files := (files s)(fd \<mapsto> (a, pos))\<rparr> = s" using assms(3) by (cases s) (auto simp: fun_upd_idem)
  let ?t = "position_of (map length (stored_lines (device s))) (unat cmd mod 256) (unat off)"
  have "aesd_ioctl K False (AESDCHAR_IOCSEEKTO (k_iowr K)) (Some (seekto_as_u64 request)) pos (device s)
      = Inr (case ?t of None \<Rightarrow> (- EINVAL, pos) | Some p \<Rightarrow> (of_nat p, of_nat p))"
    using seek_outcome [OF assms(1) wf] by (simp add: aesd_ioctl_def seekto_overlay Seekto)
  moreover have "sint (of_nat n :: u64) = int n" if "?t = Some n" for n
  proof -
    have u: "unat (of_nat n :: u64) = n" "n \<le> length (contents (device s))"
      using seek_target_contents [OF wf, of "Some request" n] that Seekto by simp_all
    moreover have "length (contents (device s)) < 2 ^ 37" using wf contents_small by (auto simp: dev_wf_def)
    ultimately show ?thesis using sint_small [of "of_nat n"] by simp
  qed
  ultimately show ?thesis
    using assms(3) same Seekto by (simp add: session_ioctl_def EINVAL_def split: option.split)
qed

section \<open>Serving a request\<close>

lemma serve_seek_request:
  fixes p :: "'x session_scheme proc"
  assumes p: "serves f K limit p" and kw: "0 \<notin> set kw"
    and prefix: "take (length kw) (line_of (stream (incoming (env p)))) = kw"
    and parsed: "parse_seekto (line_of (stream (incoming (env p))) @ [0]) = Inr request"
    and dev: "short_lines (device (env p))" "0 \<notin> set (contents (device (env p)))"
    and limit: "length (stream (incoming (env p))) + length (contents (device (env p))) + 1 \<le> limit"
    and fuel: "length (stream (incoming (env p))) + length (contents (device (env p)))
      + count_list (incoming (env p)) None < fuel"
  defines "target \<equiv> seek_target (map length (stored_lines (device (env p)))) request"
  shows "\<exists>cs. aesdsocket_serve (session_os f K) fuel sock name (kw @ [0]) p
    = Inr (target \<noteq> None, p\<lparr>env := (env p)\<lparr>incoming := cs, outgoing := outgoing (env p)
        @ (case target of None \<Rightarrow> [] | Some n \<Rightarrow> drop n (contents (device (env p))))\<rparr>\<rparr>)"
proof -
  let ?S = "session_os f K :: 'x session_scheme os" and ?bs = "stream (incoming (env p))" and ?w = "device (env p)"
  let ?line = "line_of ?bs"
  have mem: "memory_ok ?S (card (dom (mem p)) + 2) limit" "\<not> termination_flag p"
    and K: "kernel_ok K" "dev_wf ?w" "user_writable K" using p by (simp_all add: serves_def)
  have "length ?bs + 1 \<le> limit" "length ?bs + count_list (incoming (env p)) None < fuel"
    using limit fuel by simp_all
  note received = serve_receives [OF p this, of name "kw @ [0]" sock]
  obtain s cs h1 r where
    s: "s = (env p)\<lparr>incoming := cs, files := [5 \<mapsto> (O_RDWR, 0)]\<rparr>"
    and h1: "h1 NULL = None" "card (dom h1) < card (dom (mem p)) + 2"
    and serve: "\<And>fd s3 s4. fd \<noteq> - 1 \<Longrightarrow>
      serve_line ?S fuel (?line @ 0 # r) name (kw @ [0]) 5
        (p\<lparr>mem := h1, env := s\<rparr>) = Inr (True, fd, p\<lparr>mem := h1, env := s3\<rparr>) \<Longrightarrow>
      aesdsocket_read_and_send_file ?S fuel sock fd (p\<lparr>mem := h1, env := s3\<rparr>)
        = Inr (True, p\<lparr>mem := h1, env := s4\<rparr>) \<Longrightarrow>
      aesdsocket_serve ?S fuel sock name (kw @ [0]) p = Inr (True, p\<lparr>env := session_close fd s4\<rparr>)"
    and refuse: "\<And>fd s3. fd \<noteq> - 1 \<Longrightarrow>
      serve_line ?S fuel (?line @ 0 # r) name (kw @ [0]) 5
        (p\<lparr>mem := h1, env := s\<rparr>) = Inr (False, fd, p\<lparr>mem := h1, env := s3\<rparr>) \<Longrightarrow>
      aesdsocket_serve ?S fuel sock name (kw @ [0]) p = Inr (False, p\<lparr>env := session_close fd s3\<rparr>)"
    by (rule received) (rule that, assumption+)
  have frame: "files s = [5 \<mapsto> (O_RDWR, 0)]" "device s = ?w" "smon s = monitor_clear"
    "outgoing s = outgoing (env p)" "0 < accepts s" using p s by (simp_all add: serves_def)
  have clean: "0 \<notin> set ?line" using p line_of_set [of ?bs] by (auto simp: serves_def)
  let ?s3 = "\<lambda>n. s\<lparr>files := (files s)(5 \<mapsto> (O_RDWR, of_nat n))\<rparr>"
  have "c_strlen (kw @ [0]) = Inr (length kw)" using c_strlen_text [OF kw(1), of "[]"] .
  moreover have "c_strncmp_eq (?line @ 0 # r) (kw @ [0]) (length kw) = Inr True"
    using c_strncmp_eq_strings [OF kw(1) clean] prefix by simp
  moreover have "parse_seekto (?line @ 0 # r) = Inr request"
    using parse_seekto_string [OF clean] parsed by simp
  moreover have "files s 5 = Some (O_RDWR, 0)" using frame(1) by simp
  note seek = session_seeks [OF K(1) _ this, unfolded frame(2), OF K(2)]
  moreover have "s\<lparr>files := (files s)(5 \<mapsto> (O_RDWR, 0))\<rparr> = s" using frame(1) by (cases s) simp
  ultimately have line: "serve_line ?S fuel (?line @ 0 # r) name (kw @ [0]) 5 (p\<lparr>mem := h1, env := s\<rparr>)
      = Inr (target \<noteq> None, 5, p\<lparr>mem := h1, env := (case target of None \<Rightarrow> s | Some n \<Rightarrow> ?s3 n)\<rparr>)"
    by (simp add: serve_line_def target_def split: option.split)
  show ?thesis
  proof (cases target)
    case None
    then have "aesdsocket_serve ?S fuel sock name (kw @ [0]) p = Inr (False, p\<lparr>env := session_close 5 s\<rparr>)"
      using refuse [of 5 s] line by simp
    moreover have "session_close 5 s = (env p)\<lparr>incoming := cs\<rparr>"
      using p frame(1) unfolding s by (cases "env p") (simp add: session_close_def serves_def)
    ultimately show ?thesis using None by (intro exI [of _ cs]) (cases "env p", simp)
  next
    case (Some n)
    note n = seek_target_contents [OF K(2) Some [unfolded target_def]]
    obtain s4 where
      sent: "aesdsocket_read_and_send_file ?S fuel sock 5 (p\<lparr>mem := h1, env := ?s3 n\<rparr>)
        = Inr (True, p\<lparr>mem := h1, env := s4\<rparr>)"
      and s4: "session_close 5 s4 = (?s3 n)\<lparr>files := Map.empty, outgoing := outgoing (env p) @ drop n (contents ?w)\<rparr>"
      using session_sends_contents [OF mem(1), of "p\<lparr>mem := h1\<rparr>" "?s3 n" 5 O_RDWR "of_nat n" fuel sock]
        mem(2) K(2,3) frame dev limit fuel n h1
      by auto
    have "aesdsocket_serve ?S fuel sock name (kw @ [0]) p = Inr (True, p\<lparr>env := session_close 5 s4\<rparr>)"
      using serve [OF _ _ sent] line Some by simp
    moreover have "session_close 5 s4
        = (env p)\<lparr>incoming := cs, outgoing := outgoing (env p) @ drop n (contents ?w)\<rparr>"
      using p unfolding s4 s by (cases "env p") (simp add: serves_def)
    ultimately show ?thesis using Some by (intro exI [of _ cs]) simp
  qed
qed

lemma serve_seeks:
  fixes p :: "'x session_scheme proc"
  assumes p: "serves f K limit p" and kw: "0 \<notin> set kw" "58 \<notin> set kw"
    and line: "line_of (stream (incoming (env p))) = seek_line kw (decimal cmd) (decimal off)"
    and target: "position_of (map length (stored_lines (device (env p)))) cmd off = Some n"
      "cmd < 256" "off < 2 ^ 31"
    and rest: "short_lines (device (env p))" "0 \<notin> set (contents (device (env p)))"
      "length (stream (incoming (env p))) + length (contents (device (env p))) + 1 \<le> limit"
      "length (stream (incoming (env p))) + length (contents (device (env p)))
        + count_list (incoming (env p)) None < fuel"
  shows "\<exists>s. aesdsocket_serve (session_os f K) fuel sock name (kw @ [0]) p = Inr (True, p\<lparr>env := s\<rparr>)
    \<and> outgoing s = outgoing (env p) @ drop n (contents (device (env p)))
    \<and> device s = device (env p) \<and> files s = Map.empty \<and> smon s = monitor_clear"
proof -
  have "cmd < 2 ^ 31" using target(2) by simp
  from parse_seekto_printed [OF kw(2,1) this target(3), of "[0]"]
  have parsed: "parse_seekto (line_of (stream (incoming (env p))) @ [0])
      = Inr (Some (Seekto (of_nat cmd) (of_nat off)))" unfolding line .
  have "take (length kw) (line_of (stream (incoming (env p)))) = kw" by (simp add: line seek_line_def)
  moreover have "unat (of_nat cmd :: u32) mod 256 = cmd" "unat (of_nat off :: u32) = off"
    using target(2,3) by (simp_all add: unat_of_nat_u32)
  ultimately obtain cs where "aesdsocket_serve (session_os f K) fuel sock name (kw @ [0]) p
    = Inr (True, p\<lparr>env := (env p)\<lparr>incoming := cs, outgoing := outgoing (env p)
        @ drop n (contents (device (env p)))\<rparr>\<rparr>)"
    using serve_seek_request [OF p kw(1) _ parsed rest, where sock = sock and name = name] target(1) by auto
  then show ?thesis using p by (auto simp: serves_def)
qed

section \<open>What a line does\<close>

text \<open>The answer to a line, and the history of the device after it, when the history before it is
  \<open>h\<close>: the specification of a connection. The last case has no answer, since parsing leaves the
  defined behaviour of C.\<close>

definition answer :: "byte list \<Rightarrow> byte list \<Rightarrow> byte list \<Rightarrow> byte list \<times> byte list" where
  "answer cmd h line =
     (if take (length cmd) line \<noteq> cmd then (concat (last_ten (h @ line)), h @ line)
      else case parse_seekto (line @ [0]) of
             Inr request \<Rightarrow>
               (case seek_target (map length (last_ten h)) request of
                  None \<Rightarrow> ([], h)
                | Some n \<Rightarrow> (drop n (concat (last_ten h)), h))
           | Inl _ \<Rightarrow> ([], h))"

lemma answer_line [simp]:
  "take (length cmd) line \<noteq> cmd \<Longrightarrow> answer cmd h line = (concat (last_ten (h @ line)), h @ line)"
  by (simp add: answer_def)

lemma answer_seek:
  "take (length cmd) line = cmd \<Longrightarrow> snd (answer cmd h line) = h"
  by (simp add: answer_def split: sum.split option.split)

lemma answer_length: "length (snd (answer cmd h line)) \<le> length h + length line"
  by (cases "take (length cmd) line = cmd") (simp_all add: answer_seek)

end
