(* ===== verification/Server_Socket_Props.thy ===== *)
theory Server_Socket_Props
  imports Server_Requests Aesd_Demo_Kernel
begin

text \<open>
  The properties of the server's connections, each applied to a concrete session on the device of
  \<open>Aesd_Demo_Kernel\<close>.
\<close>

section \<open>A concrete session\<close>

text \<open>A peer that sends \<open>cs\<close> to a server which takes its memory from \<open>simple_realloc\<close>.\<close>

definition demo_proc :: "byte list option list \<Rightarrow> session proc" where
  "demo_proc cs = \<lparr>env = \<lparr>incoming = cs, outgoing = [], accepts = 3, files = Map.empty, sockets = {},
       device = demo_world, smon = monitor_clear\<rparr>,
     mem = Map.empty, args = Map.empty, termination_flag = False, timestamp_flag = False\<rparr>"

lemma demo_proc_simps [simp]:
  "env (demo_proc cs) = \<lparr>incoming = cs, outgoing = [], accepts = 3, files = Map.empty, sockets = {},
     device = demo_world, smon = monitor_clear\<rparr>"
  "mem (demo_proc cs) = Map.empty" "\<not> termination_flag (demo_proc cs)"
  by (simp_all add: demo_proc_def)

abbreviation demo_os :: "session os" where
  "demo_os \<equiv> session_os (simple_realloc 5000) demo_kernel"

lemma allocates_fewer: "allocates blocks limit f \<Longrightarrow> blocks' \<le> blocks \<Longrightarrow> allocates blocks' limit f"
  by (auto simp: allocates_def)

lemma demo_memory: "blocks \<le> 18 \<Longrightarrow> memory_ok demo_os blocks 5000"
  using simple_realloc_ok [of 5000] allocates_fewer [OF simple_realloc_allocates]
  by (auto simp: memory_ok_def)

lemma demo_user_writable: "user_writable demo_kernel"
  by (simp add: user_writable_def demo_kernel_def)

lemma demo_contents: "contents demo_world = [104, 105, 10, 121, 111, 117, 10, 97, 98]"
  by (simp add: contents_def demo_lines demo_pending)

lemma demo_short: "short_lines demo_world"
  by (simp add: short_lines_def segments_def demo_lines demo_pending)

lemma demo_serves:
  "chunks_ok cs \<Longrightarrow> 0 \<notin> set (stream cs) \<Longrightarrow> newline \<in> set (stream cs) \<Longrightarrow>
    serves (simple_realloc 5000) demo_kernel 5000 (demo_proc cs)"
  using demo_memory [of "Suc (Suc 0)"]
  by (simp add: serves_def demo_kernel_ok demo_user_writable demo_world_wf)

lemma demo_storable: "storable demo_kernel [112, 117, 116, 10] [104, 105, 10, 121, 111, 117, 10, 97, 98] demo_world"
proof -
  have "represents demo_world [104, 105, 10, 121, 111, 117, 10, 97, 98]"
    by (simp add: represents_def commands_of_def accept_byte_def TERMINATOR_CHARACTER_def
        demo_lines demo_pending)
  moreover have "\<not> write_unallocated demo_kernel 4 demo_world"
    by (simp add: write_unallocated_def demo_kernel_def simple_realloc_def first_free_def
        demo_world_def kmalloc_limit_def Let_def)
  moreover have "user_readable demo_kernel [112, 117, 116, 10] 4"
    by (simp add: user_readable_def demo_kernel_def demo_copy_from_user_def)
  ultimately show ?thesis by (simp add: storable_def)
qed

text \<open>``put'' and a newline, in two pieces with an interruption between them.\<close>

definition demo_put :: "byte list option list" where
  "demo_put = [Some [112, 117], None, Some [116, 10]]"

lemma demo_put_simps [simp]:
  "stream demo_put = [112, 117, 116, 10]" "chunks_ok demo_put" "count_list demo_put None = 1"
  by (auto simp: demo_put_def stream_def chunks_ok_def BUFFSIZE_def)

lemma demo_put_line: "line_of [112, 117, 116, 10] = [112, 117, 116, 10]"
  by (simp add: line_of_def newline_def)

section \<open>Serving a connection\<close>

text \<open>C2. A connection whose peer sends a line that is no seek request, in any pieces and with any
  interruptions: when memory suffices and every command stays below 100 bytes, the server appends
  the line to the device and sends back exactly the ten most recent commands of the device's whole
  history, in order; it closes its file, leaves the monitor as it found it and frees
  everything it allocated.\<close>

theorem serve_echoes_history:
  assumes "serves f K limit p" and "0 \<notin> set cmd"
    and "line = line_of (stream (incoming (env p)))" and "length line < 100"
    and "take (length cmd) line \<noteq> cmd" and "storable K line h (device (env p))" and "0 \<notin> set h"
    and "\<forall>c \<in> set (last_ten (h @ line)). length c < 100"
    and "length (stream (incoming (env p))) + length h + 1 \<le> limit"
    and "length (stream (incoming (env p))) + length h + count_list (incoming (env p)) None < fuel"
  shows "\<exists>s. aesdsocket_serve (session_os f K) fuel sock name (cmd @ [0]) p = Inr (True, p\<lparr>env := s\<rparr>)
    \<and> outgoing s = outgoing (env p) @ concat (last_ten (h @ line))
    \<and> dev_wf (device s) \<and> represents (device s) (h @ line)
    \<and> files s = Map.empty \<and> smon s = monitor_clear"
proof -
  note line = assms(3)
  have "files (env p) = Map.empty" "smon (env p) = monitor_clear" using assms(1) by (simp_all add: serves_def)
  moreover obtain cs w where "aesdsocket_serve (session_os f K) fuel sock name (cmd @ [0]) p
      = Inr (True, p\<lparr>env := (env p)\<lparr>incoming := cs,
          outgoing := outgoing (env p) @ concat (last_ten (h @ line)), device := w\<rparr>\<rparr>)"
    and "dev_wf w" "represents w (h @ line)"
    using serve_echoes [OF assms(1,2) assms(4,5,6) [unfolded line] assms(7) assms(8) [unfolded line] assms(9,10)]
    unfolding line by blast
  ultimately show ?thesis by auto
qed

theorem serve_echoes_history_witness:
  "\<exists>s. aesdsocket_serve demo_os 20 4 [0] ([65, 69] @ [0]) (demo_proc demo_put) = Inr (True, demo_proc demo_put\<lparr>env := s\<rparr>)
    \<and> outgoing s = outgoing (env (demo_proc demo_put))
        @ concat (last_ten ([104, 105, 10, 121, 111, 117, 10, 97, 98] @ [112, 117, 116, 10]))
    \<and> dev_wf (device s) \<and> represents (device s) ([104, 105, 10, 121, 111, 117, 10, 97, 98] @ [112, 117, 116, 10])
    \<and> files s = Map.empty \<and> smon s = monitor_clear"
  by (rule serve_echoes_history [where limit = 5000])
    (simp_all add: demo_serves demo_put_line demo_storable newline_def last_ten_def commands_of_def
      accept_byte_def TERMINATOR_CHARACTER_def)

text \<open>C3. A connection whose peer sends a seek request for a byte of a stored command: the server
  sends back what the device holds from that byte on and changes nothing in the device.\<close>

theorem serve_seeks_device:
  assumes "serves f K limit p" and "0 \<notin> set kw" and "58 \<notin> set kw"
    and "line_of (stream (incoming (env p))) = seek_line kw (decimal cmd) (decimal off)"
    and "position_of (map length (stored_lines (device (env p)))) cmd off = Some n"
    and "cmd < 256" and "off < 2 ^ 31"
    and "short_lines (device (env p))" and "0 \<notin> set (contents (device (env p)))"
    and "length (stream (incoming (env p))) + length (contents (device (env p))) + 1 \<le> limit"
    and "length (stream (incoming (env p))) + length (contents (device (env p)))
      + count_list (incoming (env p)) None < fuel"
  shows "\<exists>s. aesdsocket_serve (session_os f K) fuel sock name (kw @ [0]) p = Inr (True, p\<lparr>env := s\<rparr>)
    \<and> outgoing s = outgoing (env p) @ drop n (contents (device (env p)))
    \<and> device s = device (env p) \<and> files s = Map.empty \<and> smon s = monitor_clear"
  by (rule serve_seeks [OF assms])

text \<open>``AE:1,2'' and a newline.\<close>

definition demo_seek :: "byte list option list" where
  "demo_seek = [Some [65, 69, 58, 49], Some [44, 50, 10]]"

lemma demo_seek_simps [simp]:
  "stream demo_seek = [65, 69, 58, 49, 44, 50, 10]" "chunks_ok demo_seek" "count_list demo_seek None = 0"
  by (auto simp: demo_seek_def stream_def chunks_ok_def BUFFSIZE_def)

lemma demo_seek_line:
  "line_of [65, 69, 58, 49, 44, 50, 10] = seek_line [65, 69] (decimal 1) (decimal 2)"
  by (simp add: line_of_def newline_def seek_line_def decimal.simps)

theorem serve_seeks_device_witness:
  "\<exists>s. aesdsocket_serve demo_os 20 4 [0] ([65, 69] @ [0]) (demo_proc demo_seek) = Inr (True, demo_proc demo_seek\<lparr>env := s\<rparr>)
    \<and> outgoing s = outgoing (env (demo_proc demo_seek)) @ drop 5 (contents (device (env (demo_proc demo_seek))))
    \<and> device s = device (env (demo_proc demo_seek)) \<and> files s = Map.empty \<and> smon s = monitor_clear"
  by (rule serve_seeks_device [where limit = 5000 and cmd = 1 and off = 2])
    (simp_all add: demo_serves demo_seek_line demo_short demo_contents demo_lines position_of_def newline_def)

section \<open>Receiving\<close>

text \<open>C29. However the peer's bytes are cut into pieces shorter than the buffer, and however often
  the calls are interrupted, \<open>aesdsocket_recv_line\<close> returns; its line is what they have up to and
  with the first newline, as a terminated string in a block of its own, and nothing else changed.\<close>

theorem recv_line_ignores_chunking:
  fixes p :: "session proc"
  assumes "memory_ok (session_os f K :: session os) blocks limit" and "card (dom (mem p)) < blocks"
    and "mem p NULL = None" and "\<not> termination_flag p" and "chunks_ok (incoming (env p))"
    and "0 \<notin> set (stream (incoming (env p)))" and "newline \<in> set (stream (incoming (env p)))"
    and "length (stream (incoming (env p))) + 1 \<le> limit"
    and "length (stream (incoming (env p))) + count_list (incoming (env p)) None < fuel"
  shows "\<exists>q s h rest. aesdsocket_recv_line (session_os f K) fuel fd NULL p
      = Inr (True, q, p\<lparr>env := s, mem := h\<rparr>)
    \<and> h = (mem p)(q \<mapsto> line_of (stream (incoming (env p))) @ 0 # rest) \<and> q \<noteq> NULL \<and> mem p q = None
    \<and> s\<lparr>incoming := []\<rparr> = (env p)\<lparr>incoming := []\<rparr>"
proof -
  let ?bs = "stream (incoming (env p))" and ?k = "count_list (incoming (env p)) None"
  have "awaits ((env p)\<lparr>incoming := []\<rparr>) (env p) ?bs ?k" using assms(5) by (simp add: awaits_def)
  from rx.recv_line_receives [OF _ session_quiet assms(1-4) this assms(6-9), of fd]
  obtain q s h bs' k' where
    call: "aesdsocket_recv_line (session_os f K) fuel fd NULL p = Inr (True, q, p\<lparr>env := s, mem := h\<rparr>)"
    and q: "string_at (mem p) q (line_of ?bs) h" and s: "awaits ((env p)\<lparr>incoming := []\<rparr>) s bs' k'"
    by auto
  from q obtain rest where h: "h(q := None) = mem p" "h q = Some (line_of ?bs @ 0 # rest)" "q \<noteq> NULL"
    by (auto simp: string_at_def)
  from h(1) have "mem p q = None" by (metis fun_upd_same)
  moreover have "h = (mem p)(q \<mapsto> line_of ?bs @ 0 # rest)" using h(1,2) by (metis fun_upd_triv fun_upd_upd)
  ultimately show ?thesis using call h(3) s unfolding awaits_def by blast
qed

theorem recv_line_ignores_chunking_witness:
  "\<exists>q s h rest. aesdsocket_recv_line demo_os 20 4 NULL (demo_proc demo_put)
      = Inr (True, q, demo_proc demo_put\<lparr>env := s, mem := h\<rparr>)
    \<and> h = (mem (demo_proc demo_put))(q \<mapsto> line_of (stream (incoming (env (demo_proc demo_put)))) @ 0 # rest)
    \<and> q \<noteq> NULL \<and> mem (demo_proc demo_put) q = None
    \<and> s\<lparr>incoming := []\<rparr> = (env (demo_proc demo_put))\<lparr>incoming := []\<rparr>"
  by (rule recv_line_ignores_chunking [OF demo_memory [of 1]]) (simp_all add: newline_def)

text \<open>C33. A peer that closes the connection before it has sent a newline is never given up: \<open>recv\<close>
  returns zero again and again, and no number of calls makes \<open>aesdsocket_recv_line\<close> return.\<close>

theorem closed_peer_never_returns:
  fixes p :: "session proc"
  assumes "memory_ok (session_os f K :: session os) blocks limit" and "card (dom (mem p)) < blocks"
    and "mem p NULL = None" and "\<not> termination_flag p" and "chunks_ok (incoming (env p))"
    and "0 \<notin> set (stream (incoming (env p)))" and "newline \<notin> set (stream (incoming (env p)))"
    and "length (stream (incoming (env p))) + 1 \<le> limit"
  shows "aesdsocket_recv_line (session_os f K) fuel fd NULL p = Inl No_return"
proof -
  let ?bs = "stream (incoming (env p))" and ?k = "count_list (incoming (env p)) None"
  have "awaits ((env p)\<lparr>incoming := []\<rparr>) (env p) ?bs ?k" using assms(5) by (simp add: awaits_def)
  from rx.recv_loop_closed [OF _ session_quiet assms(1,2) this collecting_NULL [of "mem p", OF assms(3)]
      clean_start assms(6,7,4), of fd fuel] assms(8)
  show ?thesis by (simp add: aesdsocket_recv_line_def)
qed

theorem closed_peer_never_returns_witness:
  "aesdsocket_recv_line demo_os 1000 4 NULL (demo_proc [Some [104, 105]]) = Inl No_return"
  by (rule closed_peer_never_returns [OF demo_memory [of 1]])
    (simp_all add: stream_def chunks_ok_def BUFFSIZE_def newline_def)

text \<open>C37. A call of \<open>recv\<close> that fills the whole buffer with text without a newline leaves it
  without a terminator: the search for the newline reads past its end.\<close>

theorem full_chunk_overruns_buffer:
  assumes "quiet S" and "\<not> termination_flag p"
    and "os_recv S fd BUFFSIZE (env p) = Inr (Done u, e)" and "length u = BUFFSIZE"
    and "0 \<notin> set u" and "newline \<notin> set u"
  shows "aesdsocket_recv_line S (Suc n) fd line p = Inl Out_of_bounds"
proof -
  have "u \<noteq> []" using assms(4) by (auto simp: BUFFSIZE_def)
  moreover have "fill (replicate BUFFSIZE 0) u = Inr u" using assms(4) by (simp add: fill_def)
  moreover have "append_chunk S u (length u) line 0 q = Inl Out_of_bounds" for q
    by (simp add: append_chunk_def c_strchr_unterminated assms(5,6))
  ultimately show ?thesis
    using assms(1-3) by (simp add: aesdsocket_recv_line_def Let_def)
qed

theorem full_chunk_overruns_buffer_witness:
  "aesdsocket_recv_line demo_os (Suc 5) 4 NULL (demo_proc [Some (replicate BUFFSIZE 97)]) = Inl Out_of_bounds"
  by (rule full_chunk_overruns_buffer [where u = "replicate BUFFSIZE 97", OF session_quiet])
    (simp_all add: session_recv_def newline_def)

section \<open>Seek requests\<close>

text \<open>C32. Printing a seek request and parsing the line gives the request back, for both numbers
  below \<open>2 ^ 31\<close>.\<close>

theorem parse_of_printed_request:
  assumes "58 \<notin> set kw" and "0 \<notin> set kw" and "cmd < 2 ^ 31" and "offset < 2 ^ 31"
  shows "parse_seekto (seek_line kw (decimal cmd) (decimal offset) @ 0 # rest)
    = Inr (Some (Seekto (of_nat cmd) (of_nat offset)))"
  by (rule parse_seekto_printed [OF assms])

theorem parse_of_printed_request_witness:
  "parse_seekto (seek_line [65, 69] (decimal 1234567) (decimal 89) @ 0 # [])
    = Inr (Some (Seekto (of_nat 1234567) (of_nat 89)))"
  by (rule parse_of_printed_request) simp_all

text \<open>A seek request whose command field has 1024 or more characters overflows the buffer the
  field is copied into, whatever the characters are.\<close>

lemma long_field_overflows_buffer:
  assumes "0 \<notin> set kw" and "58 \<notin> set kw" and "0 \<notin> set cmd" and "44 \<notin> set cmd"
    and "0 \<notin> set offset" and "newline \<notin> set offset" and "BUFFSIZE \<le> length cmd"
  shows "serve_line S fuel (seek_line kw cmd offset @ 0 # rest) name (kw @ [0]) fd p = Inl Out_of_bounds"
proof -
  let ?line = "seek_line kw cmd offset"
  have clean: "0 \<notin> set ?line" using assms(1,3,5) by (simp add: seek_line_def newline_def)
  have prefix: "take (length kw) ?line = kw" by (simp add: seek_line_def)
  have "field_value (replicate BUFFSIZE 0) (cmd @ 44 # offset @ newline # 0 # rest) (length cmd)
      = Inl Out_of_bounds"
    using assms(3,7) by (intro field_value_overflow) simp_all
  then have "parse_seekto (?line @ 0 # rest) = Inl Out_of_bounds"
    using parse_seekto_fields [OF assms(2,4,6,1,3,5), of "0 # rest"] by simp
  moreover have "c_strlen (kw @ [0]) = Inr (length kw)" using c_strlen_text [OF assms(1), of "[]"] .
  moreover have "c_strncmp_eq (?line @ 0 # rest) (kw @ [0]) (length kw) = Inr True"
    using c_strncmp_eq_strings [OF assms(1) clean] prefix by simp
  ultimately show ?thesis by (simp add: serve_line_def)
qed

lemma long_field_overflows_buffer_witness:
  "serve_line demo_os 20 (seek_line [65, 69] (replicate BUFFSIZE 49) [48] @ 0 # []) [0] ([65, 69] @ [0]) 5
    (demo_proc []) = Inl Out_of_bounds"
  by (rule long_field_overflows_buffer) (simp_all add: newline_def)

section \<open>Failures\<close>

text \<open>C34. When a read of the device fails, \<open>aesdsocket_read_line\<close> returns without leaving the
  monitor: from then on no writer ever gets in.\<close>

theorem failed_read_blocks_writers:
  assumes "dev_wf (device (env p))" and "short_lines (device (env p))"
    and "\<forall>src n. n \<noteq> 0 \<longrightarrow> k_copy_to_user K src n \<noteq> 0"
    and "files (env p) fd = Some (a, pos)" and "a \<noteq> O_WRONLY"
    and "unat pos < length (contents (device (env p)))" and "smon (env p) = monitor_clear"
  shows "\<exists>p'. aesdsocket_read_line (session_os f K) (Suc n) fd NULL p = Inr (False, NULL, False, p')
    \<and> (\<forall>fuel fd' line. 0 \<in> set line \<longrightarrow>
          aesdsocket_write_line (session_os f K) fuel fd' line p' = Inl No_return)"
proof -
  let ?s = "(env p)\<lparr>smon := monitor_clear\<lparr>active_readers := 1\<rparr>\<rparr>"
  let ?bs = "read_chunk (device ?s) (unat pos) 1024"
  have inv: "dev_inv (device ?s)" using assms(1) by (simp add: dev_wf_def)
  have some: "?bs \<noteq> []" using assms(6) by (simp add: read_chunk_empty)
  have pos: "unat pos < 2 ^ 63" using contents_small [OF inv] assms(6) by simp
  have size: "unat (of_nat BUFFSIZE :: u64) = 1024" by (simp add: BUFFSIZE_def)
  have short: "length ?bs < 100"
  proof -
    obtain k r where kr: "locate (map length (segments (device ?s))) (unat pos) = Some (k, r)"
      using some by (auto simp: read_chunk_def split: option.splits)
    then have "segments (device ?s) ! k \<in> set (segments (device ?s))" using locate_Some [OF kr] by simp
    then have "length (segments (device ?s) ! k) < 100" using assms(2) by (simp add: short_lines_def)
    then show ?thesis using kr by (simp add: read_chunk_def)
  qed
  have "dev_wf (device ?s)" using assms(1) by simp
  from read_faults [OF this pos assms(3), of "of_nat BUFFSIZE"] short some
  obtain bs where "aesd_read K False (of_nat BUFFSIZE) pos (device ?s) = Inr (- EFAULT, pos, bs, device ?s)"
    unfolding size by blast
  then have fails: "session_read K fd BUFFSIZE ?s = Inr (Failed, ?s\<lparr>files := (files (env p))(fd \<mapsto> (a, pos))\<rparr>)"
    using assms(4,5) by (simp add: session_read_def Let_def EFAULT_def)
  let ?s' = "?s\<lparr>files := (files (env p))(fd \<mapsto> (a, pos))\<rparr>"
  have "session_monitor Start_reading (env p) = Inr ?s"
    using assms(7) by (simp add: session_monitor_def monitor_unfold)
  then have "aesdsocket_read_line (session_os f K) (Suc n) fd NULL p = Inr (False, NULL, False, p\<lparr>env := ?s'\<rparr>)"
    using fails by (simp add: aesdsocket_read_line_def finish_line_def)
  moreover have "aesdsocket_write_line (session_os f K) fuel fd' line (p\<lparr>env := ?s'\<rparr>) = Inl No_return"
    if "0 \<in> set line" for fuel fd' line
    using c_strlen_found [OF that] by (auto simp: aesdsocket_write_line_def session_monitor_def monitor_unfold)
  ultimately show ?thesis by blast
qed

theorem failed_read_blocks_writers_witness:
  "\<exists>p'. aesdsocket_read_line (session_os (simple_realloc 5000) (demo_kernel\<lparr>k_copy_to_user := \<lambda>src n. n\<rparr>))
      (Suc 3) 5 NULL (demo_proc []\<lparr>env := (env (demo_proc []))\<lparr>files := [5 \<mapsto> (O_RDONLY, 0)]\<rparr>\<rparr>)
    = Inr (False, NULL, False, p')
    \<and> (\<forall>fuel fd' line. 0 \<in> set line \<longrightarrow>
          aesdsocket_write_line (session_os (simple_realloc 5000) (demo_kernel\<lparr>k_copy_to_user := \<lambda>src n. n\<rparr>))
            fuel fd' line p' = Inl No_return)"
  by (rule failed_read_blocks_writers [where a = O_RDONLY and pos = 0])
    (simp_all add: demo_world_wf demo_short demo_contents)

end
