(* ===== verification/Aesd_Strdup.thy ===== *)
theory Aesd_Strdup
  imports Aesd_Memory Aesd_Cstring
begin

text \<open>
  Copies of strings in allocated blocks, shared by the server and the writer utility.
\<close>

text \<open>\<open>strdup\<close> and \<open>strndup\<close>: a copy of at most \<open>n\<close> bytes of the string in a block of its own.\<close>

definition c_strndup ::
  "(kheap \<Rightarrow> ptr \<Rightarrow> u64 \<Rightarrow> ptr \<times> kheap) \<Rightarrow> kheap \<Rightarrow> byte list \<Rightarrow> nat \<Rightarrow> stop + (ptr \<times> kheap)" where
  "c_strndup f h s n =
     andThen (if 0 \<in> set (take n s) then c_strlen s
              else if n \<le> length s then Inr n else Inl Out_of_bounds) (\<lambda>len.
     andThen (c_realloc f h NULL (of_nat (len + 1))) (\<lambda>(q, h').
       if q = NULL then Inr (NULL, h')
       else andThen (deref h' q) (\<lambda>block.
            if len < length block then Inr (q, h'(q \<mapsto> take len s @ 0 # drop (len + 1) block))
            else Inl Out_of_bounds)))"

definition c_strdup ::
  "(kheap \<Rightarrow> ptr \<Rightarrow> u64 \<Rightarrow> ptr \<times> kheap) \<Rightarrow> kheap \<Rightarrow> byte list \<Rightarrow> stop + (ptr \<times> kheap)" where
  "c_strdup f h s = andThen (c_strlen s) (c_strndup f h s)"

lemma c_strndup_copies:
  assumes "c_strndup f h (t @ 0 # r) n = Inr (q, h')" and "q \<noteq> NULL" and "realloc_ok bound f"
    and "h NULL = None" and "0 \<notin> set t" and "length t \<le> n" and "length t < 2 ^ 63"
  shows "h q = None" and "\<exists>rest. h' = h(q \<mapsto> t @ 0 # rest)"
proof -
  have len: "(if 0 \<in> set (take n (t @ 0 # r)) then c_strlen (t @ 0 # r)
      else if n \<le> length (t @ 0 # r) then Inr n else Inl Out_of_bounds) = Inr (length t)"
    using assms(5,6) by (cases "n = length t") (auto simp: take_Cons' not_le)
  obtain q0 h1 where call: "f h NULL (of_nat (length t + 1)) = (q0, h1)" by fastforce
  have rest: "(if q0 = NULL then Inr (NULL, h1)
       else andThen (deref h1 q0) (\<lambda>block.
            if length t < length block then Inr (q0, h1(q0 \<mapsto> take (length t) (t @ 0 # r) @ 0 # drop (length t + 1) block))
            else Inl Out_of_bounds)) = Inr (q, h')"
    using assms(1) unfolding c_strndup_def len c_realloc_def
    by (simp only: call andThen.simps prod.case simp_thms if_False)
  then have q0: "q0 = q" using assms(2) by (auto split: if_splits)
  then obtain block where h': "h' = h1(q \<mapsto> t @ 0 # drop (length t + 1) block)"
    using rest assms(2) by (auto split: if_splits)
  have "unat (of_nat (length t + 1) :: u64) = length t + 1"
    using assms(7) by (intro unat_of_nat_u64) simp
  then have nz: "(of_nat (length t + 1) :: u64) \<noteq> 0" by (metis add_is_0 one_neq_zero unat_0)
  obtain b where b: "q = NULL \<or> h q = None" "h1 = (h(NULL := None))(q \<mapsto> b)"
    using realloc_returns [OF assms(3,4) _ nz call [unfolded q0] assms(2)] by blast
  then show "h q = None" using assms(2) by simp
  have "h1 = h(q \<mapsto> b)" using b(2) assms(4) by (simp add: fun_upd_idem)
  then show "\<exists>rest. h' = h(q \<mapsto> t @ 0 # rest)" using h' by (auto intro: exI [of _ "drop (length t + 1) block"])
qed

lemma c_strdup_text:
  assumes "0 \<notin> set t"
  shows "c_strdup f h (t @ 0 # r) = c_strndup f h (t @ 0 # r) (length t)"
  by (simp add: c_strdup_def c_strlen_text [OF assms])

lemma c_strdup_copies:
  assumes "c_strdup f h (t @ 0 # r) = Inr (q, h')" and "q \<noteq> NULL" and "realloc_ok bound f"
    and "h NULL = None" and "0 \<notin> set t" and "length t < 2 ^ 63"
  shows "h q = None" and "\<exists>rest. h' = h(q \<mapsto> t @ 0 # rest)"
  using c_strndup_copies [OF assms(1) [unfolded c_strdup_text [OF assms(5)]] assms(2-5) order_refl assms(6)]
  by simp_all

text \<open>Whatever the outcome, the blocks of before are untouched.\<close>

lemma c_strdup_fails:
  assumes "c_strdup f h (t @ 0 # r) = Inr (NULL, h')" and "realloc_ok bound f"
    and "h NULL = None" and "0 \<notin> set t" and "length t < 2 ^ 63"
  shows "h' = h"
proof -
  obtain q0 h1 where call: "f h NULL (of_nat (length t + 1)) = (q0, h1)" by fastforce
  have "unat (of_nat (length t + 1) :: u64) = length t + 1"
    using assms(5) by (intro unat_of_nat_u64) simp
  then have nz: "(of_nat (length t + 1) :: u64) \<noteq> 0" by (metis add_is_0 one_neq_zero unat_0)
  have "q0 = NULL \<and> h1 = h'"
    using assms(1,4) call unfolding c_strdup_text [OF assms(4)] c_strndup_def
    by (auto simp: c_realloc_def split: if_splits)
  then show ?thesis using realloc_fails [OF assms(2), of h NULL "of_nat (length t + 1)"] assms(3) nz call by blast
qed

lemma c_strndup_succeeds:
  assumes "realloc_ok bound f" and "allocates blocks limit f" and "card (dom h) \<le> blocks"
    and "h NULL = None" and "0 \<notin> set t" and "length t \<le> n" and "length t < 2 ^ 63" and "length t < limit"
  obtains q rest where "c_strndup f h (t @ 0 # r) n = Inr (q, h(q \<mapsto> t @ 0 # rest))"
    and "q \<noteq> NULL" and "h q = None"
proof -
  have len: "(if 0 \<in> set (take n (t @ 0 # r)) then c_strlen (t @ 0 # r)
      else if n \<le> length (t @ 0 # r) then Inr n else Inl Out_of_bounds) = Inr (length t)"
    using assms(5,6) by (cases "n = length t") (auto simp: take_Cons' not_le)
  obtain q h1 where call: "f h NULL (of_nat (length t + 1)) = (q, h1)" by fastforce
  have u: "unat (of_nat (length t + 1) :: u64) = length t + 1"
    using assms(7) by (intro unat_of_nat_u64) simp
  then have nz: "(of_nat (length t + 1) :: u64) \<noteq> 0" by (metis add_is_0 one_neq_zero unat_0)
  have "fst (f h NULL (of_nat (length t + 1))) \<noteq> NULL"
    using assms(2,3,8) u unfolding allocates_def by simp
  then have q: "q \<noteq> NULL" by (simp only: call fst_conv not_False_eq_True)
  obtain b where b: "q = NULL \<or> h q = None" "h1 = (h(NULL := None))(q \<mapsto> b)" "unat (of_nat (length t + 1) :: u64) \<le> length b"
    using realloc_returns [OF assms(1,4) _ nz call q] by blast
  have h1: "h1 = h(q \<mapsto> b)" using b(2) assms(4) by (simp add: fun_upd_idem)
  have "c_strndup f h (t @ 0 # r) n = Inr (q, h(q \<mapsto> t @ 0 # drop (length t + 1) b))"
    unfolding c_strndup_def len c_realloc_def
    using q b(3) call u by (simp add: h1 del: of_nat_add of_nat_Suc)
  with q b(1) show thesis using that by blast
qed

lemma c_strdup_succeeds:
  assumes "realloc_ok bound f" and "allocates blocks limit f" and "card (dom h) \<le> blocks"
    and "h NULL = None" and "0 \<notin> set t" and "length t < 2 ^ 63" and "length t < limit"
  obtains q rest where "c_strdup f h (t @ 0 # r) = Inr (q, h(q \<mapsto> t @ 0 # rest))"
    and "q \<noteq> NULL" and "h q = None"
  using c_strndup_succeeds [OF assms(1-5) order_refl assms(6,7)] that
  unfolding c_strdup_text [OF assms(5)] by metis

end
