(* ===== verification/Server_Main.thy ===== *)
theory Server_Main
  imports Server_Serve Server_Monitor Aesd_Strdup
begin

text \<open>
  The main loop of \<open>server/src/aesdsocket.c\<close>: becoming a daemon, opening the listening socket,
  accepting connections, starting a thread for each and joining all of them at the end; and the
  command line of \<open>server/src/main.c\<close>.

  The calls that only the main thread makes are the fields of the record \<open>platform\<close>.
  \<open>pthread_create\<close> gets the thread function as an argument and decides when it runs.
\<close>

section \<open>Platform\<close>

datatype 'a outcome = Exited int | Returned 'a

record addrinfo =
  ai_family :: int
  ai_addr :: sockaddr

record 'e platform =
  pl_os :: "'e os"
  pl_fork :: "'e \<Rightarrow> stop + (int io \<times> 'e)"
  pl_setsid :: "'e \<Rightarrow> stop + (int io \<times> 'e)"
  pl_chdir :: "byte list \<Rightarrow> 'e \<Rightarrow> stop + (int io \<times> 'e)"
  pl_open_null :: "'e \<Rightarrow> stop + (int io \<times> 'e)"
  pl_dup :: "int \<Rightarrow> 'e \<Rightarrow> stop + (int io \<times> 'e)"
  pl_getaddrinfo :: "byte list \<Rightarrow> 'e \<Rightarrow> addrinfo option \<times> 'e"
  pl_freeaddrinfo :: "'e \<Rightarrow> 'e"
  pl_socket :: "int \<Rightarrow> 'e \<Rightarrow> stop + (int io \<times> 'e)"
  pl_setsockopt :: "int \<Rightarrow> 'e \<Rightarrow> stop + (int io \<times> 'e)"
  pl_bind :: "int \<Rightarrow> sockaddr \<Rightarrow> 'e \<Rightarrow> stop + (int io \<times> 'e)"
  pl_listen :: "int \<Rightarrow> int \<Rightarrow> 'e \<Rightarrow> stop + (int io \<times> 'e)"
  pl_accept :: "int \<Rightarrow> 'e \<Rightarrow> stop + ((int \<times> sockaddr) io \<times> 'e)"
  pl_inet_ntop :: "sockaddr \<Rightarrow> byte list option \<Rightarrow> byte list option"
  pl_sigaddset :: "int \<Rightarrow> 'e \<Rightarrow> stop + (int io \<times> 'e)"
  pl_sigaction :: "int \<Rightarrow> 'e \<Rightarrow> stop + (int io \<times> 'e)"
  pl_timer_create :: "'e \<Rightarrow> stop + (ptr io \<times> 'e)"
  pl_timer_settime :: "ptr \<Rightarrow> int \<Rightarrow> 'e \<Rightarrow> stop + (int io \<times> 'e)"
  pl_timer_delete :: "ptr \<Rightarrow> 'e \<Rightarrow> 'e"
  pl_queue :: "doubly_linked_list option"
  pl_monitor :: bool
  pl_malloc_arg :: "(ptr \<Rightarrow> aesdsocket_thread_arg option) \<Rightarrow> ptr \<times> aesdsocket_thread_arg"
  pl_malloc_node :: "doubly_linked_list \<Rightarrow> ptr"
  pl_pthread_create :: "('e proc \<Rightarrow> stop + 'e proc) \<Rightarrow> 'e proc \<Rightarrow> stop + (u64 option \<times> 'e proc)"
  pl_pthread_join :: "u64 \<Rightarrow> 'e \<Rightarrow> 'e"
  pl_remove :: "byte list \<Rightarrow> 'e \<Rightarrow> 'e"

text \<open>A sequence of calls each guarded by \<open>TRYC_ERRNO\<close>: false is the jump to \<open>done\<close>.\<close>

fun try_all :: "('e \<Rightarrow> stop + (int io \<times> 'e)) list \<Rightarrow> 'e \<Rightarrow> stop + (bool \<times> 'e)" where
  "try_all [] e = Inr (True, e)"
| "try_all (call # calls) e =
     andThen (try_errno (call e)) (\<lambda>(r, e'). case r of None \<Rightarrow> Inr (False, e') | Some _ \<Rightarrow> try_all calls e')"

section \<open>Becoming a daemon\<close>

definition root_directory :: "byte list" where "root_directory = [47, 0]"

definition aesdsocket_daemonize :: "'e platform \<Rightarrow> 'e \<Rightarrow> stop + (bool outcome \<times> 'e)" where
  "aesdsocket_daemonize P e =
     andThen (try_errno (pl_fork P e)) (\<lambda>(daemon_pid, e1).
       case daemon_pid of
         None \<Rightarrow> Inr (Returned False, e1)
       | Some pid \<Rightarrow>
           if pid \<noteq> 0 then Inr (Exited 0, e1)
           else andThen (try_all [pl_setsid P, pl_chdir P root_directory] e1) (\<lambda>(ok, e2).
             if \<not> ok then Inr (Returned False, e2)
             else let e3 = fold (os_close (pl_os P)) [0, 1, 2] e2
               in andThen (try_all [pl_open_null P, pl_dup P 0, pl_dup P 0] e3) (\<lambda>(ok', e4).
                    Inr (Returned ok', e4))))"

section \<open>The listening socket\<close>

text \<open>The results are the returned value and \<open>*sockfd\<close>, when it is set.\<close>

definition aesdsocket_open_listening_socket ::
  "'e platform \<Rightarrow> byte list \<Rightarrow> int \<Rightarrow> 'e \<Rightarrow> stop + (bool \<times> int option \<times> 'e)" where
  "aesdsocket_open_listening_socket P port backlog e =
     (let (servinfo, e1) = pl_getaddrinfo P port e
      in case servinfo of
           None \<Rightarrow> Inr (False, None, e1)
         | Some info \<Rightarrow>
             andThen (try_errno (pl_socket P (ai_family info) e1)) (\<lambda>(sockfd_test, e2).
               case sockfd_test of
                 None \<Rightarrow> Inr (False, None, pl_freeaddrinfo P e2)
               | Some fd \<Rightarrow>
                   andThen (try_all [pl_setsockopt P fd, pl_bind P fd (ai_addr info),
                                     pl_listen P fd backlog] e2) (\<lambda>(ok, e3).
                     if ok then Inr (True, Some fd, pl_freeaddrinfo P e3)
                     else Inr (False, None,
                            pl_freeaddrinfo P (if fd \<noteq> - 1 then os_close (pl_os P) fd e3 else e3)))))"

definition aesdsocket_get_in_addr :: "sockaddr \<Rightarrow> byte list option" where
  "aesdsocket_get_in_addr sa =
     (case sa of Sockaddr_in sin_addr \<Rightarrow> Some sin_addr
      | Sockaddr_in6 sin6_addr \<Rightarrow> Some sin6_addr
      | Sockaddr_other family \<Rightarrow> None)"

section \<open>Accepting connections\<close>

text \<open>The local variables of \<open>aesdsocket_mainloop\<close>; \<open>m_monitor\<close> says whether the
  monitor exists; \<open>m_timer\<close> is \<open>timestamp_timer\<close>, of the pointer type \<open>timer_t\<close>: \<open>NULL\<close> at first, then
  the identifier that \<open>timer_create\<close> has stored, which may be any value of the type.\<close>

record 'e main_state =
  m_proc :: "'e proc"
  m_sockfd :: int
  m_conn_sockfd :: int
  m_thread_queue :: "doubly_linked_list option"
  m_monitor :: bool
  m_thread_arg :: ptr
  m_timer :: ptr

definition INET6_ADDRSTRLEN :: nat where "INET6_ADDRSTRLEN = 46"

text \<open>The fields of the argument are set one after the other, so a failing copy leaves the later
  ones as \<open>malloc\<close> returned them. The results: false for the jump to \<open>done\<close>, and \<open>thread_arg\<close>.\<close>

definition make_thread_arg ::
  "'e platform \<Rightarrow> int \<Rightarrow> byte list \<Rightarrow> byte list \<Rightarrow> byte list \<Rightarrow> 'e proc \<Rightarrow> stop + (bool \<times> ptr \<times> 'e proc)" where
  "make_thread_arg P fd name remote seekto p =
     (let (a, garbage) = pl_malloc_arg P (args p)
      in if a = NULL then Inr (False, NULL, p)
         else let arg1 = garbage\<lparr>conn_sockfd := fd\<rparr>
           in andThen (c_strdup (os_realloc (pl_os P)) (mem p) name) (\<lambda>(f, h).
                let arg2 = arg1\<lparr>filename := f\<rparr>
                in if f = NULL then Inr (False, a, p\<lparr>mem := h, args := (args p)(a \<mapsto> arg2)\<rparr>)
                   else andThen (c_strndup (os_realloc (pl_os P)) h remote INET6_ADDRSTRLEN) (\<lambda>(r, h').
                     let arg3 = arg2\<lparr>remote_name := r\<rparr>
                     in if r = NULL then Inr (False, a, p\<lparr>mem := h', args := (args p)(a \<mapsto> arg3)\<rparr>)
                        else Inr (True, a, p\<lparr>mem := h',
                               args := (args p)(a \<mapsto> arg3\<lparr>seekto_command := seekto\<rparr>)\<rparr>))))"

text \<open>One connection, from the return of \<open>accept\<close> with a descriptor on.\<close>

definition start_connection ::
  "'e platform \<Rightarrow> nat \<Rightarrow> byte list \<Rightarrow> byte list \<Rightarrow> int \<Rightarrow> sockaddr \<Rightarrow> 'e main_state \<Rightarrow>
     stop + (bool \<times> 'e main_state)" where
  "start_connection P fuel name seekto fd remote_addr m =
     (case pl_inet_ntop P remote_addr (aesdsocket_get_in_addr remote_addr) of
        None \<Rightarrow> Inr (False, m)
      | Some remote \<Rightarrow>
          andThen (make_thread_arg P fd name remote seekto (m_proc m)) (\<lambda>(made, a, p1).
            let m1 = m\<lparr>m_proc := p1, m_thread_arg := a\<rparr>
            in if \<not> made then Inr (False, m1)
               else andThen (pl_pthread_create P
                      (\<lambda>p. andThen (aesdsocket_start_thread (pl_os P) fuel a p) (\<lambda>(_, p'). Inr p')) p1)
                    (\<lambda>(tid, p2).
                      let m2 = m1\<lparr>m_proc := p2\<rparr>
                      in case (tid, m_thread_queue m2) of
                           (Some t, Some q) \<Rightarrow>
                             andThen (queue_enqueue (pl_malloc_node P q) q t) (\<lambda>(queued, q').
                               let m3 = m2\<lparr>m_thread_queue := Some q'\<rparr>
                               in if queued then Inr (True, m3\<lparr>m_thread_arg := NULL\<rparr>)
                                  else Inr (False, m3))
                         | (None, _) \<Rightarrow> Inr (False, m2)
                         | (_, None) \<Rightarrow> Inl Null_deref)))"

text \<open>One round of the loop, after the test of \<open>termination_flag\<close>. False is the jump to \<open>done\<close>.\<close>

definition accept_round ::
  "'e platform \<Rightarrow> nat \<Rightarrow> byte list \<Rightarrow> byte list \<Rightarrow> byte list \<Rightarrow> 'e main_state \<Rightarrow>
     stop + (bool \<times> 'e main_state)" where
  "accept_round P fuel name timestamp_format seekto m =
     (let p1 = deliver_signal (pl_os P) (m_proc m)
      in andThen
        (if timestamp_flag p1
         then andThen (aesdsocket_take_timestamp (pl_os P) fuel timestamp_format name p1) (\<lambda>(ok, p2).
                Inr (ok, if ok then p2\<lparr>timestamp_flag := False\<rparr> else p2))
         else Inr (True, p1))
        (\<lambda>(stamped, p3).
          if \<not> stamped then Inr (False, m\<lparr>m_proc := p3\<rparr>)
          else andThen (pl_accept P (m_sockfd m) (env p3)) (\<lambda>(r, e).
            let m1 = m\<lparr>m_proc := p3\<lparr>env := e\<rparr>\<rparr>
            in case r of
                 Interrupted \<Rightarrow> Inr (True, m1\<lparr>m_conn_sockfd := - 1\<rparr>)
               | Failed \<Rightarrow> Inr (False, m1\<lparr>m_conn_sockfd := - 1\<rparr>)
               | Done (fd, remote_addr) \<Rightarrow>
                   start_connection P fuel name seekto fd remote_addr (m1\<lparr>m_conn_sockfd := fd\<rparr>))))"

fun accept_loop ::
  "'e platform \<Rightarrow> nat \<Rightarrow> byte list \<Rightarrow> byte list \<Rightarrow> byte list \<Rightarrow> nat \<Rightarrow> 'e main_state \<Rightarrow>
     stop + (bool \<times> 'e main_state)" where
  "accept_loop P fuel name timestamp_format seekto 0 m = Inl No_return"
| "accept_loop P fuel name timestamp_format seekto (Suc n) m =
     (let m1 = m\<lparr>m_proc := deliver_signal (pl_os P) (m_proc m)\<rparr>
      in if termination_flag (m_proc m1) then Inr (True, m1)
         else andThen (accept_round P fuel name timestamp_format seekto m1) (\<lambda>(go_on, m2).
           if go_on then accept_loop P fuel name timestamp_format seekto n m2 else Inr (False, m2)))"

section \<open>The end of the main loop\<close>

definition free_thread_arg :: "ptr \<Rightarrow> 'e proc \<Rightarrow> stop + 'e proc" where
  "free_thread_arg a p =
     (if a = NULL then Inr p
      else andThen (or_stop Dangling (args p a)) (\<lambda>arg.
           andThen (c_free (mem p) (filename arg)) (\<lambda>h.
           andThen (c_free h (remote_name arg)) (\<lambda>h'.
             Inr (p\<lparr>mem := h', args := (args p)(a := None)\<rparr>)))))"

text \<open>From the label \<open>done\<close> on.\<close>

definition mainloop_done ::
  "'e platform \<Rightarrow> nat \<Rightarrow> byte list \<Rightarrow> bool \<Rightarrow> 'e main_state \<Rightarrow> stop + 'e proc" where
  "mainloop_done P fuel name is_regular_file m =
     (let p = m_proc m; e = (if m_timer m \<noteq> NULL then pl_timer_delete P (m_timer m) (env p) else env p)
      in andThen
        (case m_thread_queue m of
           None \<Rightarrow> Inr e
         | Some q \<Rightarrow>
             andThen (drain queue_is_empty queue_dequeue (pl_pthread_join P) fuel q e) (\<lambda>(q', e').
             andThen (queue_destroy q') (\<lambda>_. Inr e')))
        (\<lambda>e1. andThen (free_thread_arg (m_thread_arg m) (p\<lparr>env := e1\<rparr>)) (\<lambda>p1.
          let p2 = close_fd (pl_os P) (m_sockfd m) (close_fd (pl_os P) (m_conn_sockfd m) p1)
          in Inr (if is_regular_file then p2\<lparr>env := pl_remove P name (env p2)\<rparr> else p2))))"

section \<open>The main loop\<close>

text \<open>From the signal handlers to the loop. The results: false for the jump to \<open>done\<close>.\<close>

definition mainloop_setup ::
  "'e platform \<Rightarrow> byte list \<Rightarrow> int \<Rightarrow> bool \<Rightarrow> int \<Rightarrow> 'e main_state \<Rightarrow> stop + (bool \<times> 'e main_state)" where
  "mainloop_setup P port backlog use_timestamp timestamp_frequency_seconds m =
     (let set_env = (\<lambda>n e. n\<lparr>m_proc := (m_proc n)\<lparr>env := e\<rparr>\<rparr>)
      in andThen (try_all [pl_sigaddset P SIGTERM, pl_sigaddset P SIGINT,
                           pl_sigaction P SIGTERM, pl_sigaction P SIGINT] (env (m_proc m))) (\<lambda>(ok, e1).
        if \<not> ok then Inr (False, set_env m e1)
        else andThen (aesdsocket_open_listening_socket P port backlog e1) (\<lambda>(opened, fd, e2).
          let m1 = (set_env m e2)\<lparr>m_sockfd := (case fd of None \<Rightarrow> m_sockfd m | Some s \<Rightarrow> s)\<rparr>
          in if \<not> opened then Inr (False, m1)
             else case queue_new (pl_queue P) of
               None \<Rightarrow> Inr (False, m1)
             | Some q \<Rightarrow>
                 let m2 = m1\<lparr>m_thread_queue := Some q\<rparr>
                 in case monitor_new (pl_monitor P) of
                      None \<Rightarrow> Inr (False, m2)
                    | Some _ \<Rightarrow>
                        let m3 = m2\<lparr>m_monitor := True\<rparr>
                        in if \<not> use_timestamp then Inr (True, m3)
                           else andThen (try_all [pl_sigaddset P SIGALRM, pl_sigaction P SIGALRM] e2)
                             (\<lambda>(handled, e3).
                             if \<not> handled then Inr (False, set_env m3 e3)
                             else andThen (try_errno (pl_timer_create P e3)) (\<lambda>(timer, e4).
                               case timer of
                                 None \<Rightarrow> Inr (False, set_env m3 e4)
                               | Some t \<Rightarrow>
                                   andThen (try_all [pl_timer_settime P t timestamp_frequency_seconds] e4)
                                     (\<lambda>(started, e5).
                                       Inr (started, set_env (m3\<lparr>m_timer := t\<rparr>) e5)))))))"

definition main_locals :: "'e proc \<Rightarrow> 'e main_state" where
  "main_locals p = \<lparr>m_proc = p, m_sockfd = - 1, m_conn_sockfd = - 1, m_thread_queue = None,
     m_monitor = False, m_thread_arg = NULL, m_timer = NULL\<rparr>"

definition aesdsocket_mainloop ::
  "'e platform \<Rightarrow> nat \<Rightarrow> byte list \<Rightarrow> int \<Rightarrow> byte list \<Rightarrow> bool \<Rightarrow> bool \<Rightarrow> bool \<Rightarrow> int \<Rightarrow> byte list \<Rightarrow>
     byte list \<Rightarrow> 'e proc \<Rightarrow> stop + (bool outcome \<times> 'e proc)" where
  "aesdsocket_mainloop P fuel port backlog name is_regular_file daemon use_timestamp
       timestamp_frequency_seconds timestamp_format seekto p =
     andThen (if daemon then aesdsocket_daemonize P (env p) else Inr (Returned True, env p))
       (\<lambda>(daemonized, e).
         let m = main_locals (p\<lparr>env := e\<rparr>)
         in case daemonized of
              Exited status \<Rightarrow> Inr (Exited status, p\<lparr>env := e\<rparr>)
            | Returned d \<Rightarrow>
                andThen
                  (if \<not> d then Inr (False, m)
                   else andThen (mainloop_setup P port backlog use_timestamp
                                  timestamp_frequency_seconds m) (\<lambda>(ready, m1).
                     if ready then accept_loop P fuel name timestamp_format seekto fuel m1
                     else Inr (False, m1)))
                  (\<lambda>(ok, m2). andThen (mainloop_done P fuel name is_regular_file m2) (\<lambda>p'.
                     Inr (Returned ok, p'))))"

section \<open>The entry point\<close>

text \<open>The constants of \<open>server/src/main.c\<close>, with the Boolean for \<open>USE_AESD_CHAR_DEVICE\<close>: the
  strings ``9000'', ``/dev/aesdchar'' or ``/var/tmp/aesdsocketdata'', the format of the
  timestamps and the name of the seek request, each with its terminator.\<close>

definition PORT :: "byte list" where "PORT = [57, 48, 48, 48, 0]"

definition BACKLOG :: int where "BACKLOG = 20"

definition FILENAME :: "bool \<Rightarrow> byte list" where
  "FILENAME use_char_device =
     (if use_char_device then [47, 100, 101, 118, 47, 97, 101, 115, 100, 99, 104, 97, 114, 0]
      else [47, 118, 97, 114, 47, 116, 109, 112, 47, 97, 101, 115, 100, 115, 111, 99, 107, 101, 116,
            100, 97, 116, 97, 0])"

definition STAMPFREQSEC :: int where "STAMPFREQSEC = 10"

definition STAMPFORMAT :: "byte list" where
  "STAMPFORMAT = [116, 105, 109, 101, 115, 116, 97, 109, 112, 58, 37, 97, 44, 32, 37, 100, 32, 37, 98,
     32, 37, 89, 32, 37, 84, 32, 37, 122, 0]"

definition SEEKTO_COMMAND :: "byte list" where
  "SEEKTO_COMMAND = [65, 69, 83, 68, 67, 72, 65, 82, 95, 73, 79, 67, 83, 69, 69, 75, 84, 79, 0]"

text \<open>\<open>argv\<close> without the name of the program; \<open>None\<close>: wrong arguments. Only the first two
  characters of the option are compared.\<close>

definition parse_arguments :: "byte list list \<Rightarrow> stop + bool option" where
  "parse_arguments arguments =
     (case arguments of
        [] \<Rightarrow> Inr (Some False)
      | [option] \<Rightarrow> andThen (c_strncmp_eq option [45, 100, 0] 2) (\<lambda>eq.
          Inr (if eq then Some True else None))
      | _ \<Rightarrow> Inr None)"

text \<open>The exit status.\<close>

definition server_main ::
  "'e platform \<Rightarrow> nat \<Rightarrow> bool \<Rightarrow> byte list list \<Rightarrow> 'e proc \<Rightarrow> stop + (int \<times> 'e proc)" where
  "server_main P fuel use_char_device arguments p =
     andThen (parse_arguments arguments) (\<lambda>daemon.
       case daemon of
         None \<Rightarrow> Inr (1, p)
       | Some d \<Rightarrow>
           andThen (aesdsocket_mainloop P fuel PORT BACKLOG (FILENAME use_char_device)
                      (\<not> use_char_device) d (\<not> use_char_device) STAMPFREQSEC STAMPFORMAT
                      SEEKTO_COMMAND p) (\<lambda>(r, p').
             Inr (case r of Exited status \<Rightarrow> status | Returned ok \<Rightarrow> if ok then 0 else 1, p')))"

end
