(* ===== verification/Server_Site.thy ===== *)
theory Server_Site
  imports Server_Requests Server_Main
begin

text \<open>
  The whole server on the driver: peers that connect one after the other, a thread that runs to its
  end for each, and a signal that ends the server when the last one has been served. The session
  of \<open>Server_Session\<close> is extended by the peers that still wait and by what the others got.
\<close>

section \<open>Histories of whole commands\<close>

text \<open>A device whose last command is complete, with commands that the debug copies can take.\<close>

definition settled :: "byte list \<Rightarrow> bool" where
  "settled h \<longleftrightarrow> 0 \<notin> set h \<and> snd (commands_of h) = [] \<and> (\<forall>c \<in> set (last_ten h). length c < 100)"

lemma commands_of_line:
  assumes "snd (commands_of h) = []" and "is_line line"
  shows "commands_of (h @ line) = (fst (commands_of h) @ [line], [])"
proof -
  obtain d where d: "line = d @ [TERMINATOR_CHARACTER]" "TERMINATOR_CHARACTER \<notin> set d"
    using assms(2) unfolding is_line_def by (metis append_butlast_last_id)
  have "commands_of h = (fst (commands_of h), [])" using assms(1) by (metis prod.collapse)
  then show ?thesis
    using accept_command [OF d(2), of "fst (commands_of h)" "[]"] d(1) by (simp add: commands_of_def)
qed

lemma last_ten_line:
  assumes "snd (commands_of h) = []" and "is_line line"
  shows "set (last_ten (h @ line)) \<subseteq> insert line (set (last_ten h))"
proof -
  let ?ls = "fst (commands_of h)"
  have "set (drop (Suc (length ?ls) - 10) ?ls) \<subseteq> set (drop (length ?ls - 10) ?ls)"
    by (rule set_drop_subset_set_drop) simp
  then show ?thesis
    by (auto simp: last_ten_def commands_of_line [OF assms] Let_def dest: in_set_dropD)
qed

lemma settled_line:
  assumes "settled h" and "is_line line" and "length line < 100" and "0 \<notin> set line"
  shows "settled (h @ line)"
  using assms last_ten_line [of h line] commands_of_line [of h line] by (auto simp: settled_def)

text \<open>The kernel has memory for eleven blocks of up to 100 bytes, and the process has memory of
  its own behind its pointers.\<close>

definition well_stocked :: "kernel \<Rightarrow> bool" where
  "well_stocked K \<longleftrightarrow> kernel_ok K \<and> user_writable K \<and> allocates 11 100 (k_krealloc K)
     \<and> (\<forall>buf. length buf < 100 \<longrightarrow> user_readable K buf (of_nat (length buf)))"

lemma settled_storable:
  assumes "well_stocked K" and "dev_wf w" and "represents w h" and "settled h" and "length line < 100"
  shows "storable K line h w"
proof -
  have inv: "dev_inv w" using assms(2) by (simp add: dev_wf_def)
  note d = dev_invD [OF inv]
  have "pending w = []" using assms(3,4) by (auto simp: represents_def settled_def split: prod.splits)
  then have none: "unterminated_buffptr (dev w) = NULL" "unterminated_size (dev w) = 0"
    using d(7) by (auto simp: pending_def pending_ok_def split: if_splits)
  have "card (dom (heap w)) \<le> length (entry_ptrs (dev w))"
    using none(1) by (simp add: d(3) pending_ptrs_def card_length)
  also have "\<dots> \<le> 11" using live_le_10 [OF d(1)] by (simp add: entry_ptrs_def)
  finally have "fst (k_krealloc K (heap w) NULL (of_nat (length line))) \<noteq> NULL"
    using assms(1,5) by (simp add: well_stocked_def allocates_def unat_of_nat_u64)
  then show ?thesis
    using assms(1,3,5) none by (simp add: storable_def write_unallocated_def well_stocked_def)
qed

section \<open>The thread of a connection\<close>

text \<open>A peer that sends a line, whose numbers fit the buffers and the type \<open>int\<close> when it is a seek
  request.\<close>

definition client_ok :: "byte list \<Rightarrow> byte list option list \<Rightarrow> bool" where
  "client_ok cmd c \<longleftrightarrow> chunks_ok c \<and> 0 \<notin> set (stream c) \<and> newline \<in> set (stream c)
     \<and> length (line_of (stream c)) < 100
     \<and> (take (length cmd) (line_of (stream c)) = cmd \<longrightarrow> \<not> isl (parse_seekto (line_of (stream c) @ [0])))"

lemma client_line:
  assumes "client_ok cmd c"
  shows "0 \<notin> set (line_of (stream c))" and "is_line (line_of (stream c))"
    and "length (line_of (stream c)) < 100"
  using assms line_of_is_line line_of_set [of "stream c"] by (auto simp: client_ok_def)

lemma settled_answer:
  assumes "settled h" and "client_ok cmd c"
  shows "settled (snd (answer cmd h (line_of (stream c))))"
  using assms settled_line client_line [OF assms(2)]
  by (cases "take (length cmd) (line_of (stream c)) = cmd") (simp_all add: answer_seek)

text \<open>Between two connections.\<close>

definition idle :: "kernel \<Rightarrow> (kheap \<Rightarrow> ptr \<Rightarrow> u64 \<Rightarrow> ptr \<times> kheap) \<Rightarrow> nat \<Rightarrow> byte list \<Rightarrow> 'x session_scheme proc \<Rightarrow> bool" where
  "idle K f limit h p \<longleftrightarrow> well_stocked K \<and> memory_ok (session_os f K :: 'x session_scheme os) (card (dom (mem p)) + 4) limit
     \<and> mem p NULL = None \<and> finite (dom (mem p)) \<and> \<not> termination_flag p \<and> \<not> timestamp_flag p \<and> args p = Map.empty
     \<and> files (env p) = Map.empty \<and> smon (env p) = monitor_clear \<and> 0 < accepts (env p)
     \<and> dev_wf (device (env p)) \<and> represents (device (env p)) h \<and> settled h"

lemma idleD:
  fixes p :: "'x session_scheme proc"
  assumes "idle K f limit h p"
  shows "well_stocked K" and "memory_ok (session_os f K :: 'x session_scheme os) (card (dom (mem p)) + 4) limit"
    and "mem p NULL = None" and "finite (dom (mem p))" and "\<not> termination_flag p" and "\<not> timestamp_flag p"
    and "args p = Map.empty" and "files (env p) = Map.empty" and "smon (env p) = monitor_clear"
    and "0 < accepts (env p)" and "dev_wf (device (env p))" and "represents (device (env p)) h" and "settled h"
  using assms by (simp_all add: idle_def)

lemma memory_ok_le: "memory_ok S blocks limit \<Longrightarrow> n \<le> blocks \<Longrightarrow> memory_ok S n limit"
  by (auto simp: memory_ok_def allocates_def)

lemma connection_answers:
  fixes p :: "'x session_scheme proc"
  assumes serves: "serves f K limit p" and client: "client_ok cmd (incoming (env p))" and cmd: "0 \<notin> set cmd"
    and K: "well_stocked K" and h: "settled h" "represents (device (env p)) h"
    and limit: "length (stream (incoming (env p))) + length h + 1 \<le> limit"
    and fuel: "length (stream (incoming (env p))) + length h + count_list (incoming (env p)) None < fuel"
  shows "\<exists>ok cs w. aesdsocket_serve (session_os f K) fuel sock name (cmd @ [0]) p
    = Inr (ok, p\<lparr>env := (env p)\<lparr>incoming := cs, outgoing := outgoing (env p)
        @ fst (answer cmd h (line_of (stream (incoming (env p))))), device := w\<rparr>\<rparr>)
    \<and> dev_wf w \<and> represents w (snd (answer cmd h (line_of (stream (incoming (env p))))))"
proof -
  let ?line = "line_of (stream (incoming (env p)))" and ?w = "device (env p)"
  have wf: "dev_wf ?w" using serves by (simp add: serves_def)
  note line = client_line [OF client]
  have nul: "0 \<notin> set h" and ended: "snd (commands_of h) = []" using h(1) by (simp_all add: settled_def)
  show ?thesis
  proof (cases "take (length cmd) ?line = cmd")
    case True
    then obtain request where parsed: "parse_seekto (?line @ [0]) = Inr request"
      using client by (cases "parse_seekto (?line @ [0])") (auto simp: client_ok_def)
    have dev: "contents ?w = concat (last_ten h)" "stored_lines ?w = last_ten h" "short_lines ?w"
      using represents_contents(1) [OF h(2) ended] last_ten_short [OF h(2) ended] h
      by (auto simp: settled_def represents_def last_ten_def split: prod.splits)
    have "0 \<notin> set (contents ?w)" "length (contents ?w) \<le> length h"
      using last_ten_bytes [of h] nul unfolding dev(1) by auto
    with serve_seek_request [OF serves cmd True parsed dev(3), of fuel sock name] limit fuel
    obtain cs where "aesdsocket_serve (session_os f K) fuel sock name (cmd @ [0]) p
      = Inr (seek_target (map length (last_ten h)) request \<noteq> None, p\<lparr>env := (env p)\<lparr>incoming := cs,
          outgoing := outgoing (env p) @ fst (answer cmd h ?line)\<rparr>\<rparr>)"
      using True by (auto simp: dev parsed answer_def split: option.splits)
    moreover have "s\<lparr>incoming := cs, outgoing := o', device := device s\<rparr> = s\<lparr>incoming := cs, outgoing := o'\<rparr>"
      for s :: "'x session_scheme" and o' by (cases s) simp
    ultimately show ?thesis
      using wf h(2) True by (intro exI [of _ cs] exI [of _ ?w] exI) (auto simp: answer_seek)
  next
    case False
    have store: "storable K ?line h ?w" by (rule settled_storable [OF K wf h(2,1) line(3)])
    have short: "\<forall>c \<in> set (last_ten (h @ ?line)). length c < 100"
      using settled_line [OF h(1) line(2,3,1)] by (simp add: settled_def)
    from serve_echoes [OF serves cmd line(3) False store nul short limit fuel, of sock name] False
    show ?thesis by auto
  qed
qed

lemma thread_serves:
  fixes p :: "'x session_scheme proc"
  assumes idle: "idle K f limit h p" and client: "client_ok cmd (incoming (env p))" and cmd: "0 \<notin> set cmd"
    and nn: "a \<noteq> NULL" "fn \<noteq> NULL" "rn \<noteq> NULL" "fn \<noteq> rn"
    and new: "mem p fn = None" "mem p rn = None"
    and names: "0 \<notin> set name" "0 \<notin> set remote"
    and limit: "length (stream (incoming (env p))) + length h + 1 \<le> limit"
    and fuel: "length (stream (incoming (env p))) + length h + count_list (incoming (env p)) None < fuel"
  shows "\<exists>ok cs w. aesdsocket_start_thread (session_os f K) fuel a
      (p\<lparr>mem := (mem p)(fn \<mapsto> name @ 0 # x, rn \<mapsto> remote @ 0 # y), args := [a \<mapsto> \<lparr>conn_sockfd = 4,
         filename = fn, remote_name = rn, seekto_command = cmd @ [0]\<rparr>]\<rparr>)
    = Inr (ok, p\<lparr>env := (env p)\<lparr>incoming := cs, outgoing := outgoing (env p)
        @ fst (answer cmd h (line_of (stream (incoming (env p))))), device := w, sockets := sockets (env p) - {4}\<rparr>\<rparr>)
    \<and> dev_wf w \<and> represents w (snd (answer cmd h (line_of (stream (incoming (env p))))))"
proof -
  let ?answer = "answer cmd h (line_of (stream (incoming (env p))))"
  let ?h = "(mem p)(fn \<mapsto> name @ 0 # x, rn \<mapsto> remote @ 0 # y)"
  let ?p = "p\<lparr>mem := ?h, args := Map.empty\<rparr>"
  note p = idleD [OF idle]
  have "card (dom ?h) \<le> card (dom (mem p)) + 2"
    using p(4) by (simp add: card_insert_if)
  then have "card (dom ?h) + 2 \<le> card (dom (mem p)) + 4" by simp
  from memory_ok_le [OF p(2) this]
  have serves: "serves f K limit ?p"
    using p client nn unfolding serves_def client_ok_def well_stocked_def by simp
  from connection_answers [OF serves _ cmd p(1,13), of fuel 4 "name @ 0 # x"]
  obtain ok cs w where
    served: "aesdsocket_serve (session_os f K) fuel 4 (name @ 0 # x) (cmd @ [0]) ?p
      = Inr (ok, ?p\<lparr>env := (env p)\<lparr>incoming := cs,
          outgoing := outgoing (env p) @ fst ?answer, device := w\<rparr>\<rparr>)"
    and w: "dev_wf w" "represents w (snd ?answer)"
    using client p(12) limit fuel by auto
  let ?s = "(env p)\<lparr>incoming := cs, outgoing := outgoing (env p) @ fst ?answer, device := w\<rparr>"
  have "session_close 4 ?s = ?s\<lparr>sockets := sockets (env p) - {4}\<rparr>" using p(8) by (simp add: session_close_def)
  moreover have "(?h(fn := None))(rn := None) = mem p" using new nn(4) by (auto simp: fun_eq_iff)
  moreover note p(7)
  ultimately show ?thesis
    using served w nn names by (intro exI [of _ ok] exI [of _ cs] exI [of _ w])
      (cases p, simp add: aesdsocket_start_thread_def close_fd_def Let_def)
qed

section \<open>The site\<close>

text \<open>\<open>clients\<close>: what each peer that still waits will send; \<open>replies\<close>: what each served peer has got;
  \<open>joined\<close>: the threads joined so far.\<close>

record site = session +
  clients :: "byte list option list list"
  replies :: "byte list list"
  joined :: "u64 list"

text \<open>The kernel gives a socket the first free descriptor that is none of the sixteen for files: \<open>3\<close>, then
  \<open>4\<close>, and further ones as long as these are open.\<close>

definition socket_fds :: "int list" where
  "socket_fds = 3 # 4 # map int [21..<1024]"

definition take_socket :: "site \<Rightarrow> int io \<times> site" where
  "take_socket s =
     (case List.find (\<lambda>fd. fd \<notin> sockets s) socket_fds of
        None \<Rightarrow> (Failed, s)
      | Some fd \<Rightarrow> (Done fd, s\<lparr>sockets := insert fd (sockets s)\<rparr>))"

lemma take_socket_first:
  "sockets s = {} \<Longrightarrow> take_socket s = (Done 3, s\<lparr>sockets := {3}\<rparr>)"
  "sockets s = {3} \<Longrightarrow> take_socket s = (Done 4, s\<lparr>sockets := {3, 4}\<rparr>)"
  by (simp_all add: take_socket_def socket_fds_def insert_commute)

definition site_accept :: "site \<Rightarrow> stop + ((int \<times> sockaddr) io \<times> site)" where
  "site_accept s =
     (case clients s of
        [] \<Rightarrow> Inr (Interrupted, s)
      | c # cs \<Rightarrow>
          Inr (case take_socket s of
                 (Done fd, s1) \<Rightarrow> (Done (fd, Sockaddr_in [127, 0, 0, 1]), s1\<lparr>incoming := c, outgoing := [], clients := cs\<rparr>)
               | (_, s1) \<Rightarrow> (Failed, s1)))"

text \<open>The new thread runs to its end; after the last peer \<open>SIGTERM\<close> arrives.\<close>

definition site_create :: "(site proc \<Rightarrow> stop + site proc) \<Rightarrow> site proc \<Rightarrow> stop + (u64 option \<times> site proc)" where
  "site_create thread p =
     andThen (thread p) (\<lambda>p1.
       let s = env p1; p2 = p1\<lparr>env := s\<lparr>replies := replies s @ [outgoing s]\<rparr>\<rparr>
       in Inr (Some (of_nat (length (replies s))),
            if clients s = [] then aesdsocket_terminate_handler SIGTERM p2 else p2))"

definition site_platform ::
  "(kheap \<Rightarrow> ptr \<Rightarrow> u64 \<Rightarrow> ptr \<times> kheap) \<Rightarrow> kernel \<Rightarrow> (doubly_linked_list \<Rightarrow> ptr) \<Rightarrow> byte list \<Rightarrow> site platform" where
  "site_platform f K node remote =
     \<lparr>pl_os = session_os f K, pl_fork = (\<lambda>s. Inr (Done 0, s)), pl_setsid = (\<lambda>s. Inr (Done 0, s)),
      pl_chdir = (\<lambda>_ s. Inr (Done 0, s)), pl_open_null = (\<lambda>s. Inr (Done 0, s)),
      pl_dup = (\<lambda>_ s. Inr (Done 0, s)),
      pl_getaddrinfo = (\<lambda>_ s. (Some \<lparr>ai_family = 2, ai_addr = Sockaddr_in [0, 0, 0, 0]\<rparr>, s)),
      pl_freeaddrinfo = id, pl_socket = (\<lambda>_ s. Inr (take_socket s)), pl_setsockopt = (\<lambda>_ s. Inr (Done 0, s)),
      pl_bind = (\<lambda>_ _ s. Inr (Done 0, s)), pl_listen = (\<lambda>_ _ s. Inr (Done 0, s)),
      pl_accept = (\<lambda>_. site_accept), pl_inet_ntop = (\<lambda>_ _. Some (remote @ [0])),
      pl_sigaddset = (\<lambda>_ s. Inr (Done 0, s)), pl_sigaction = (\<lambda>_ s. Inr (Done 0, s)),
      pl_timer_create = (\<lambda>s. Inr (Done 1, s)), pl_timer_settime = (\<lambda>_ _ s. Inr (Done 0, s)),
      pl_timer_delete = (\<lambda>_. id), pl_queue = Some \<lparr>head = NULL, tail = NULL, dsize = 0, nodes = Map.empty\<rparr>,
      pl_monitor = True,
      pl_malloc_arg = (\<lambda>h. (if h 1 = None then 1 else NULL,
        \<lparr>conn_sockfd = 0, filename = NULL, remote_name = NULL, seekto_command = []\<rparr>)),
      pl_malloc_node = node, pl_pthread_create = site_create,
      pl_pthread_join = (\<lambda>t s. s\<lparr>joined := joined s @ [t]\<rparr>), pl_remove = (\<lambda>_ s. s)\<rparr>"

lemma make_thread_arg_succeeds:
  assumes "pl_malloc_arg P (args p) = (a, garbage)" and "a \<noteq> NULL"
    and "memory_ok (pl_os P) (card (dom (mem p)) + 4) limit" and "mem p NULL = None"
    and "finite (dom (mem p))" and "0 \<notin> set name" and "length name < limit" and "length name < 2 ^ 63"
    and "0 \<notin> set remote" and "length remote \<le> INET6_ADDRSTRLEN" and "INET6_ADDRSTRLEN < limit"
  obtains fn rn x y where "make_thread_arg P fd (name @ [0]) (remote @ [0]) seekto p
      = Inr (True, a, p\<lparr>mem := (mem p)(fn \<mapsto> name @ 0 # x, rn \<mapsto> remote @ 0 # y),
          args := (args p)(a \<mapsto> \<lparr>conn_sockfd = fd, filename = fn, remote_name = rn, seekto_command = seekto\<rparr>)\<rparr>)"
    and "fn \<noteq> NULL" and "rn \<noteq> NULL" and "fn \<noteq> rn" and "mem p fn = None" and "mem p rn = None"
proof -
  let ?f = "os_realloc (pl_os P)"
  obtain bound where f: "realloc_ok bound ?f" "allocates (card (dom (mem p)) + 4) limit ?f"
    using assms(3) by (auto simp: memory_ok_def)
  obtain fn x where fn: "c_strdup ?f (mem p) (name @ 0 # []) = Inr (fn, (mem p)(fn \<mapsto> name @ 0 # x))"
      "fn \<noteq> NULL" "mem p fn = None"
    by (rule c_strdup_succeeds [OF f, where h = "mem p" and t = name and r = "[]"]) (use assms in simp_all)
  let ?h = "(mem p)(fn \<mapsto> name @ 0 # x)"
  have "card (dom ?h) \<le> card (dom (mem p)) + 4" "?h NULL = None"
    using assms(4,5) fn(2) by (simp_all add: card_insert_if)
  then obtain rn y where rn: "c_strndup ?f ?h (remote @ 0 # []) INET6_ADDRSTRLEN = Inr (rn, ?h(rn \<mapsto> remote @ 0 # y))"
      "rn \<noteq> NULL" "?h rn = None"
    using assms(9,10,11)
    by (rule_tac c_strndup_succeeds [OF f, where h = ?h and t = remote and r = "[]" and n = INET6_ADDRSTRLEN])
      (simp_all add: INET6_ADDRSTRLEN_def)
  have "fn \<noteq> rn" "mem p rn = None" using rn(3) by (auto split: if_splits)
  moreover have "make_thread_arg P fd (name @ [0]) (remote @ [0]) seekto p
      = Inr (True, a, p\<lparr>mem := ?h(rn \<mapsto> remote @ 0 # y),
          args := (args p)(a \<mapsto> \<lparr>conn_sockfd = fd, filename = fn, remote_name = rn, seekto_command = seekto\<rparr>)\<rparr>)"
    using assms(1,2) fn(1,2) rn(1,2) by (cases garbage) (simp add: make_thread_arg_def Let_def)
  ultimately show thesis using that fn(2,3) rn(2) by blast
qed

section \<open>One round\<close>

text \<open>The signal that ends the server.\<close>

definition hang_up :: "site proc \<Rightarrow> site proc" where
  "hang_up p = (if clients (env p) = [] then p\<lparr>termination_flag := True\<rparr> else p)"

lemma site_platform_simps [simp]:
  "pl_os (site_platform f K node remote) = session_os f K"
  "pl_accept (site_platform f K node remote) fd = site_accept"
  "pl_inet_ntop (site_platform f K node remote) sa x = Some (remote @ [0])"
  "pl_malloc_node (site_platform f K node remote) = node"
  "pl_pthread_create (site_platform f K node remote) = site_create"
  "pl_pthread_join (site_platform f K node remote) t s = s\<lparr>joined := joined s @ [t]\<rparr>"
  by (simp_all add: site_platform_def)

lemma site_malloc_arg:
  "pl_malloc_arg (site_platform f K node remote) Map.empty
    = (1, \<lparr>conn_sockfd = 0, filename = NULL, remote_name = NULL, seekto_command = []\<rparr>)"
  by (simp add: site_platform_def)

lemma site_create_replies:
  assumes "thread p = Inr p1"
  shows "site_create thread p = Inr (Some (of_nat (length (replies (env p1)))),
    hang_up (p1\<lparr>env := (env p1)\<lparr>replies := replies (env p1) @ [outgoing (env p1)]\<rparr>\<rparr>))"
  using assms by (simp add: site_create_def hang_up_def aesdsocket_terminate_handler_def Let_def)

lemma site_connection:
  fixes m :: "site main_state"
  assumes idle: "idle K f limit h (m_proc m)" and client: "client_ok cmd (incoming (env (m_proc m)))"
    and cmd: "0 \<notin> set cmd" and names: "0 \<notin> set name" "0 \<notin> set remote"
    and room: "length name < limit" "length name < 2 ^ 63" "length remote \<le> INET6_ADDRSTRLEN" "INET6_ADDRSTRLEN < limit"
    and queue: "m_thread_queue m = Some q" "queue_holds q ts" "fresh_for_queue (node q) q"
    and limit: "length (stream (incoming (env (m_proc m)))) + length h + 1 \<le> limit"
    and fuel: "length (stream (incoming (env (m_proc m)))) + length h
      + count_list (incoming (env (m_proc m))) None < fuel"
    and sent: "outgoing (env (m_proc m)) = []"
  shows "\<exists>ics w q'. start_connection (site_platform f K node remote) fuel (name @ [0]) (cmd @ [0]) 4 sa m
      = Inr (True, m\<lparr>m_proc := hang_up (m_proc m\<lparr>env := (env (m_proc m))\<lparr>incoming := ics,
           outgoing := fst (answer cmd h (line_of (stream (incoming (env (m_proc m)))))), device := w,
           sockets := sockets (env (m_proc m)) - {4}, replies := replies (env (m_proc m))
             @ [fst (answer cmd h (line_of (stream (incoming (env (m_proc m))))))]\<rparr>\<rparr>),
         m_thread_arg := NULL, m_thread_queue := Some q'\<rparr>)
    \<and> queue_holds q' (ts @ [of_nat (length (replies (env (m_proc m))))])
    \<and> dev_wf w \<and> represents w (snd (answer cmd h (line_of (stream (incoming (env (m_proc m)))))))"
proof -
  let ?P = "site_platform f K node remote" and ?p = "m_proc m"
  note p = idleD [OF idle]
  let ?answer = "answer cmd h (line_of (stream (incoming (env ?p))))"
  let ?reply = "fst ?answer"
  have malloc: "pl_malloc_arg ?P (args ?p)
      = (1, \<lparr>conn_sockfd = 0, filename = NULL, remote_name = NULL, seekto_command = []\<rparr>)"
    unfolding p(7) by (rule site_malloc_arg)
  have mem: "memory_ok (pl_os ?P) (card (dom (mem ?p)) + 4) limit" using p(2) by simp
  obtain fn rn x y where made: "make_thread_arg ?P 4 (name @ [0]) (remote @ [0]) (cmd @ [0]) ?p
      = Inr (True, 1, ?p\<lparr>mem := (mem ?p)(fn \<mapsto> name @ 0 # x, rn \<mapsto> remote @ 0 # y),
          args := [1 \<mapsto> \<lparr>conn_sockfd = 4, filename = fn, remote_name = rn, seekto_command = cmd @ [0]\<rparr>]\<rparr>)"
    and nn: "fn \<noteq> NULL" "rn \<noteq> NULL" "fn \<noteq> rn" "mem ?p fn = None" "mem ?p rn = None"
    by (rule make_thread_arg_succeeds [OF malloc _ mem p(3,4) names(1) room(1,2) names(2) room(3,4), of 4 "cmd @ [0]"])
      (simp_all add: p(7))
  obtain ok ics w where
    ran: "aesdsocket_start_thread (session_os f K) fuel 1
      (?p\<lparr>mem := (mem ?p)(fn \<mapsto> name @ 0 # x, rn \<mapsto> remote @ 0 # y), args := [1 \<mapsto> \<lparr>conn_sockfd = 4,
         filename = fn, remote_name = rn, seekto_command = cmd @ [0]\<rparr>]\<rparr>)
      = Inr (ok, ?p\<lparr>env := (env ?p)\<lparr>incoming := ics, outgoing := ?reply, device := w, sockets := sockets (env ?p) - {4}\<rparr>\<rparr>)"
    and w: "dev_wf w" "represents w (snd ?answer)"
    using thread_serves [OF idle client cmd _ nn names limit fuel, of 1 x y] sent by auto
  obtain q' where q': "queue_enqueue (node q) q (of_nat (length (replies (env ?p)))) = Inr (True, q')"
      "queue_holds q' (ts @ [of_nat (length (replies (env ?p)))])"
    using tq.enq_adds [OF queue(2,3)] by blast
  let ?thread = "\<lambda>p. andThen (aesdsocket_start_thread (session_os f K) fuel 1 p) (\<lambda>(_, p'). Inr p')"
  let ?arg = "?p\<lparr>mem := (mem ?p)(fn \<mapsto> name @ 0 # x, rn \<mapsto> remote @ 0 # y),
    args := [1 \<mapsto> \<lparr>conn_sockfd = 4, filename = fn, remote_name = rn, seekto_command = cmd @ [0]\<rparr>]\<rparr>"
  have "?thread ?arg = Inr (?p\<lparr>env := (env ?p)\<lparr>incoming := ics, outgoing := ?reply, device := w, sockets := sockets (env ?p) - {4}\<rparr>\<rparr>)"
    by (simp add: ran)
  from site_create_replies [where thread = ?thread and p = ?arg, OF this]
  have created: "site_create ?thread ?arg = Inr (Some (of_nat (length (replies (env ?p)))),
        hang_up (?p\<lparr>env := (env ?p)\<lparr>incoming := ics, outgoing := ?reply, device := w, sockets := sockets (env ?p) - {4},
          replies := replies (env ?p) @ [?reply]\<rparr>\<rparr>))"
    by (simp del: concat_append)
  show ?thesis
    using made created q' queue(1) w
    by (intro exI [of _ ics] exI [of _ w] exI [of _ q']) (simp add: start_connection_def)
qed

text \<open>What the environment becomes when the peers \<open>cs\<close> of a device with history \<open>h\<close> are served: each
  gets its answer from the history that the others before it have left.\<close>

fun answers :: "byte list \<Rightarrow> byte list \<Rightarrow> byte list option list list \<Rightarrow> byte list list" where
  "answers cmd h [] = []"
| "answers cmd h (c # cs) = (let (reply, h') = answer cmd h (line_of (stream c)) in reply # answers cmd h' cs)"

definition history_after :: "byte list \<Rightarrow> byte list \<Rightarrow> byte list option list list \<Rightarrow> byte list" where
  "history_after cmd h cs = foldl (\<lambda>h c. snd (answer cmd h (line_of (stream c)))) h cs"

definition served :: "byte list \<Rightarrow> byte list \<Rightarrow> byte list option list list \<Rightarrow> site \<Rightarrow> site \<Rightarrow> bool" where
  "served cmd h cs s s' \<longleftrightarrow> replies s' = replies s @ answers cmd h cs \<and> joined s' = joined s
     \<and> files s' = Map.empty \<and> sockets s' = sockets s \<and> smon s' = monitor_clear \<and> accepts s' = accepts s
     \<and> dev_wf (device s') \<and> represents (device s') (history_after cmd h cs)"

lemma served_trans:
  "served cmd h [c] s s1 \<Longrightarrow> served cmd (snd (answer cmd h (line_of (stream c)))) cs s1 s' \<Longrightarrow> served cmd h (c # cs) s s'"
  by (simp add: served_def history_after_def Let_def split_def)

text \<open>The room for everything that is still to come.\<close>

definition total_bytes :: "byte list \<Rightarrow> byte list option list list \<Rightarrow> nat" where
  "total_bytes h cs = length h + sum_list (map (\<lambda>c. length (stream c) + count_list c None) cs)"

lemma total_bytes_Cons:
  "length (stream c) + length h + count_list c None \<le> total_bytes h (c # cs)"
  "total_bytes (snd (answer cmd h (line_of (stream c)))) cs \<le> total_bytes h (c # cs)"
  using line_of_length [of "stream c"] answer_length [of cmd h "line_of (stream c)"] by (simp_all add: total_bytes_def)

lemma site_round:
  fixes m :: "site main_state"
  assumes idle: "idle K f limit h (m_proc m)" and clients: "clients (env (m_proc m)) = c # cs"
    and sockets: "sockets (env (m_proc m)) = {3}"
    and client: "client_ok cmd c" and cmd: "0 \<notin> set cmd" and names: "0 \<notin> set name" "0 \<notin> set remote"
    and room: "length name < limit" "length name < 2 ^ 63" "length remote \<le> INET6_ADDRSTRLEN" "INET6_ADDRSTRLEN < limit"
    and queue: "m_thread_queue m = Some q" "queue_holds q ts" "fresh_for_queue (node q) q"
    and limit: "total_bytes h (c # cs) < limit" and fuel: "total_bytes h (c # cs) < fuel"
  shows "\<exists>m' q'. accept_round (site_platform f K node remote) fuel (name @ [0]) fmt (cmd @ [0]) m = Inr (True, m')
    \<and> m_proc m' = (m_proc m)\<lparr>termination_flag := cs = [], env := env (m_proc m')\<rparr>
    \<and> clients (env (m_proc m')) = cs \<and> served cmd h [c] (env (m_proc m)) (env (m_proc m'))
    \<and> m' = m\<lparr>m_proc := m_proc m', m_conn_sockfd := 4, m_thread_arg := NULL, m_thread_queue := Some q'\<rparr>
    \<and> queue_holds q' (ts @ [of_nat (length (replies (env (m_proc m))))])"
proof -
  let ?P = "site_platform f K node remote" and ?p = "m_proc m"
  let ?e = "(env ?p)\<lparr>sockets := {3, 4}, incoming := c, outgoing := [], clients := cs\<rparr>"
  let ?m = "m\<lparr>m_proc := ?p\<lparr>env := ?e\<rparr>, m_conn_sockfd := 4\<rparr>"
  let ?answer = "answer cmd h (line_of (stream c))"
  let ?reply = "fst ?answer"
  note p = idleD [OF idle]
  have "deliver_signal (session_os f K) ?p = ?p" by (rule deliver_none) (simp add: session_os_def)
  then have round: "accept_round ?P fuel (name @ [0]) fmt (cmd @ [0]) m
      = start_connection ?P fuel (name @ [0]) (cmd @ [0]) 4 (Sockaddr_in [127, 0, 0, 1]) ?m"
    using p(6) clients by (simp add: accept_round_def site_accept_def take_socket_first(2) [OF sockets] Let_def)
  have idle': "idle K f limit h (m_proc ?m)" using p by (simp add: idle_def)
  have client': "client_ok cmd (incoming (env (m_proc ?m)))" using client by simp
  have q: "m_thread_queue ?m = Some q" using queue(1) by simp
  have "length (stream (incoming (env (m_proc ?m)))) + length h + 1 \<le> limit"
    "length (stream (incoming (env (m_proc ?m)))) + length h + count_list (incoming (env (m_proc ?m))) None < fuel"
    "outgoing (env (m_proc ?m)) = []"
    using total_bytes_Cons(1) [of c h cs] limit fuel by simp_all
  from site_connection [where node = node and sa = "Sockaddr_in [127, 0, 0, 1]",
      OF idle' client' cmd names room q queue(2,3) this]
  obtain ics w q' where
    started: "start_connection ?P fuel (name @ [0]) (cmd @ [0]) 4 (Sockaddr_in [127, 0, 0, 1]) ?m
      = Inr (True, ?m\<lparr>m_proc := hang_up (?p\<lparr>env := ?e\<lparr>incoming := ics, outgoing := ?reply, device := w, sockets := {3},
           replies := replies (env ?p) @ [?reply]\<rparr>\<rparr>), m_thread_arg := NULL, m_thread_queue := Some q'\<rparr>)"
    and q': "queue_holds q' (ts @ [of_nat (length (replies (env ?p)))])"
    and w: "dev_wf w" "represents w (snd ?answer)"
    by (auto simp: insert_Diff_if)
  let ?s = "?e\<lparr>incoming := ics, outgoing := ?reply, device := w, sockets := {3}, replies := replies (env ?p) @ [?reply]\<rparr>"
  let ?p' = "hang_up (?p\<lparr>env := ?s\<rparr>)"
  have env: "env ?p' = ?s" by (simp add: hang_up_def)
  have "?p' = ?p\<lparr>termination_flag := cs = [], env := ?s\<rparr>"
    using p(5) by (cases ?p) (simp add: hang_up_def)
  moreover have "served cmd h [c] (env ?p) ?s"
    using p w sockets by (simp add: served_def history_after_def Let_def split_def)
  ultimately show ?thesis
    using round started q'
    by (intro exI [of _ "m\<lparr>m_proc := ?p', m_conn_sockfd := 4, m_thread_arg := NULL, m_thread_queue := Some q'\<rparr>"]
        exI [of _ q']) (simp add: env)
qed

section \<open>All rounds\<close>

text \<open>\<open>malloc\<close> has a node for every thread of a queue with fewer than \<open>bound\<close> threads.\<close>

definition allocates_nodes :: "nat \<Rightarrow> (doubly_linked_list \<Rightarrow> ptr) \<Rightarrow> bool" where
  "allocates_nodes bound node \<longleftrightarrow>
     (\<forall>q ts. queue_holds q ts \<longrightarrow> length ts < bound \<longrightarrow> fresh_for_queue (node q) q)"

lemma idle_served:
  assumes "idle K f limit h p" and "client_ok cmd c" and "served cmd h [c] (env p) (env p')"
    and "p' = p\<lparr>termination_flag := False, env := env p'\<rparr>"
  shows "idle K f limit (snd (answer cmd h (line_of (stream c)))) p'"
proof -
  note p = idleD [OF assms(1)]
  have same: "mem p' = mem p" "args p' = args p" "\<not> termination_flag p'" "timestamp_flag p' = timestamp_flag p"
    by (subst assms(4), simp)+
  show ?thesis
    using p assms(3) same settled_answer [OF p(13) assms(2)]
    by (simp add: idle_def served_def history_after_def)
qed

lemma site_loop:
  fixes m :: "site main_state"
  assumes "idle K f limit h (m_proc m)" and "clients (env (m_proc m)) = cs" and "cs \<noteq> []"
    and sockets: "sockets (env (m_proc m)) = {3}"
    and ok: "\<forall>c \<in> set cs. client_ok cmd c" and cmd: "0 \<notin> set cmd" and names: "0 \<notin> set name" "0 \<notin> set remote"
    and room: "length name < limit" "length name < 2 ^ 63" "length remote \<le> INET6_ADDRSTRLEN" "INET6_ADDRSTRLEN < limit"
    and queue: "m_thread_queue m = Some q" "queue_holds q ts" "length ts + length cs \<le> bound"
    and node: "allocates_nodes bound node"
    and limit: "total_bytes h cs < limit" and fuel: "total_bytes h cs < fuel" "length cs < n"
  shows "\<exists>m' q'. accept_loop (site_platform f K node remote) fuel (name @ [0]) fmt (cmd @ [0]) n m = Inr (True, m')
    \<and> m_proc m' = (m_proc m)\<lparr>termination_flag := True, env := env (m_proc m')\<rparr>
    \<and> served cmd h cs (env (m_proc m)) (env (m_proc m'))
    \<and> m' = m\<lparr>m_proc := m_proc m', m_conn_sockfd := 4, m_thread_arg := NULL, m_thread_queue := Some q'\<rparr>
    \<and> queue_holds q' (ts @ map of_nat [length (replies (env (m_proc m)))..<length (replies (env (m_proc m))) + length cs])"
  using assms(1-3) ok queue limit fuel sockets
proof (induction cs arbitrary: h m q ts n)
  case (Cons c cs)
  let ?P = "site_platform f K node remote"
  obtain n' where n: "n = Suc n'" using Cons.prems(10) by (cases n) auto
  have quiet: "deliver_signal (pl_os ?P) p = p" for p :: "site proc"
    by (rule deliver_none) (simp add: session_os_def)
  have fresh: "fresh_for_queue (node q) q" using node Cons.prems(6,7) by (simp add: allocates_nodes_def)
  have client: "client_ok cmd c" using Cons.prems(4) by simp
  from site_round [where fmt = fmt and node = node, OF Cons.prems(1,2,11) client cmd names room Cons.prems(5,6) fresh Cons.prems(8,9)]
  obtain m1 q1 where
    round: "accept_round ?P fuel (name @ [0]) fmt (cmd @ [0]) m = Inr (True, m1)"
    and p1: "m_proc m1 = (m_proc m)\<lparr>termination_flag := cs = [], env := env (m_proc m1)\<rparr>"
    and cs: "clients (env (m_proc m1)) = cs" and served: "served cmd h [c] (env (m_proc m)) (env (m_proc m1))"
    and m1: "m1 = m\<lparr>m_proc := m_proc m1, m_conn_sockfd := 4, m_thread_arg := NULL, m_thread_queue := Some q1\<rparr>"
    and q1: "queue_holds q1 (ts @ [of_nat (length (replies (env (m_proc m))))])" by blast
  have live: "\<not> termination_flag (m_proc m)" using idleD [OF Cons.prems(1)] by simp
  then have step: "accept_loop ?P fuel (name @ [0]) fmt (cmd @ [0]) n m
      = accept_loop ?P fuel (name @ [0]) fmt (cmd @ [0]) n' m1"
    using round by (simp add: n quiet del: site_platform_simps)
  show ?case
  proof (cases "cs = []")
    case True
    then have stop: "termination_flag (m_proc m1)" by (subst p1) simp
    obtain n'' where "n' = Suc n''" using Cons.prems(10) n by (cases n') auto
    with stop step have "accept_loop ?P fuel (name @ [0]) fmt (cmd @ [0]) n m = Inr (True, m1)"
      by (simp add: quiet del: site_platform_simps)
    with True p1 m1 served q1 show ?thesis by (intro exI [of _ m1] exI [of _ q1]) simp
  next
    case False
    then have "m_proc m1 = (m_proc m)\<lparr>termination_flag := False, env := env (m_proc m1)\<rparr>" using p1 by simp
    note idle = idle_served [OF Cons.prems(1) client served this]
    have "m_thread_queue m1 = Some q1" by (subst m1) simp
    moreover have "\<forall>c \<in> set cs. client_ok cmd c" using Cons.prems(4) by simp
    moreover have "length (ts @ [of_nat (length (replies (env (m_proc m))))]) + length cs \<le> bound"
      using Cons.prems(7) by simp
    moreover have "total_bytes (snd (answer cmd h (line_of (stream c)))) cs < limit" "total_bytes (snd (answer cmd h (line_of (stream c)))) cs < fuel"
      using total_bytes_Cons(2) [of cmd h c cs] Cons.prems(8,9) by simp_all
    moreover have "sockets (env (m_proc m1)) = {3}" using served Cons.prems(11) by (simp add: served_def)
    moreover have "length cs < n'" using Cons.prems(10) n by simp
    ultimately obtain m' q' where
      rest: "accept_loop ?P fuel (name @ [0]) fmt (cmd @ [0]) n' m1 = Inr (True, m')"
      and p': "m_proc m' = (m_proc m1)\<lparr>termination_flag := True, env := env (m_proc m')\<rparr>"
      and served': "served cmd (snd (answer cmd h (line_of (stream c)))) cs (env (m_proc m1)) (env (m_proc m'))"
      and m': "m' = m1\<lparr>m_proc := m_proc m', m_conn_sockfd := 4, m_thread_arg := NULL, m_thread_queue := Some q'\<rparr>"
      and q': "queue_holds q' ((ts @ [of_nat (length (replies (env (m_proc m))))])
        @ map of_nat [length (replies (env (m_proc m1)))..<length (replies (env (m_proc m1))) + length cs])"
      using Cons.IH [OF idle cs False _ _ q1] by blast
    let ?k = "length (replies (env (m_proc m)))"
    have k: "length (replies (env (m_proc m1))) = Suc ?k"
      using served by (simp add: served_def Let_def split_def)
    have "[?k..<?k + length (c # cs)] = ?k # [Suc ?k..<Suc ?k + length cs]"
      by (subst upt_conv_Cons) simp_all
    then have "queue_holds q' (ts @ map of_nat [?k..<?k + length (c # cs)])"
      using q' unfolding k by (simp only: append_assoc append_Cons append_Nil list.map)
    moreover have "m_proc m' = (m_proc m)\<lparr>termination_flag := True, env := env (m_proc m')\<rparr>"
      by (subst p', subst p1) simp
    moreover have "m' = m\<lparr>m_proc := m_proc m', m_conn_sockfd := 4, m_thread_arg := NULL, m_thread_queue := Some q'\<rparr>"
      by (subst m', subst m1) simp
    ultimately show ?thesis
      using step rest served_trans [OF served served'] by (intro exI [of _ m'] exI [of _ q']) simp
  qed
qed simp

section \<open>From the command line to the exit\<close>

lemma site_setup:
  assumes "sockets (env p) = {}"
  shows "\<exists>q. mainloop_setup (site_platform f K node remote) port backlog False freq (main_locals p)
      = Inr (True, (main_locals (p\<lparr>env := (env p)\<lparr>sockets := {3}\<rparr>\<rparr>))\<lparr>m_sockfd := 3, m_thread_queue := Some q, m_monitor := True\<rparr>)
    \<and> queue_holds q []"
proof -
  obtain q where "queue_new (Some \<lparr>head = NULL, tail = NULL, dsize = 0, nodes = Map.empty\<rparr>) = Some q"
    "queue_holds q []"
    using queue_new_holds [of "\<lparr>head = NULL, tail = NULL, dsize = 0, nodes = Map.empty\<rparr>"] by auto
  then show ?thesis
    by (intro exI [of _ q])
      (simp add: mainloop_setup_def site_platform_def aesdsocket_open_listening_socket_def main_locals_def
        monitor_new_def monitor_initialize_def take_socket_first(1) [OF assms] Let_def)
qed

lemma fold_joined:
  fixes s :: site
  shows "fold (\<lambda>t s. s\<lparr>joined := joined s @ [t]\<rparr>) ts s = s\<lparr>joined := joined s @ ts\<rparr>"
  by (induction ts arbitrary: s) simp_all

lemma site_done:
  fixes m :: "site main_state"
  assumes "m_thread_queue m = Some q" and "queue_holds q ts" and "length ts \<le> fuel"
    and "m_thread_arg m = NULL" and "m_timer m = NULL" and "files (env (m_proc m)) = Map.empty"
    and "m_sockfd m = 3" and "m_conn_sockfd m \<noteq> 3" and "sockets (env (m_proc m)) = {3}"
  shows "mainloop_done (site_platform f K node remote) fuel name False m
    = Inr ((m_proc m)\<lparr>env := (env (m_proc m))\<lparr>joined := joined (env (m_proc m)) @ ts, sockets := {}\<rparr>\<rparr>)"
proof -
  let ?P = "site_platform f K node remote"
  let ?e = "(env (m_proc m))\<lparr>joined := joined (env (m_proc m)) @ ts\<rparr>"
  obtain q' where "drain queue_is_empty queue_dequeue (pl_pthread_join ?P) fuel q (env (m_proc m))
      = Inr (q', fold (pl_pthread_join ?P) ts (env (m_proc m)))" and q': "queue_holds q' []"
    using tq.drain_in_order [OF assms(2,3), where act = "pl_pthread_join ?P" and w = "env (m_proc m)"] by blast
  moreover have "pl_pthread_join ?P = (\<lambda>t s. s\<lparr>joined := joined s @ [t]\<rparr>)" by (intro ext) simp
  ultimately have "drain queue_is_empty queue_dequeue (pl_pthread_join ?P) fuel q (env (m_proc m))
      = Inr (q', ?e)" by (simp only: fold_joined)
  moreover have "queue_destroy q' = Inr ()" using queue_emptied [OF q'] by simp
  moreover have "session_close (m_conn_sockfd m) ?e = ?e"
    using assms(6,8,9) by (cases "env (m_proc m)") (simp add: session_close_def)
  moreover have "session_close (m_sockfd m) ?e = ?e\<lparr>sockets := {}\<rparr>"
    using assms(6,7,9) by (simp add: session_close_def)
  ultimately have drained: "drain queue_is_empty queue_dequeue (pl_pthread_join ?P) fuel q (env (m_proc m))
      = Inr (q', ?e)" "queue_destroy q' = Inr ()"
    and closed: "close_fd (pl_os ?P) (m_sockfd m) (close_fd (pl_os ?P) (m_conn_sockfd m) ((m_proc m)\<lparr>env := ?e\<rparr>))
      = (m_proc m)\<lparr>env := ?e\<lparr>sockets := {}\<rparr>\<rparr>"
    using assms(7) by (simp_all add: close_fd_def)
  moreover have "free_thread_arg (m_thread_arg m) p = Inr p" for p :: "site proc"
    using assms(4) by (simp add: free_thread_arg_def)
  ultimately show ?thesis
    unfolding mainloop_done_def Let_def assms(1) option.case
    using assms(5) by (simp only: simp_thms if_False andThen.simps prod.case)
qed

lemma server_serves:
  fixes p :: "site proc"
  assumes "idle K f limit h p" and "clients (env p) = cs" and "cs \<noteq> []" and "sockets (env p) = {}"
    and "\<forall>c \<in> set cs. client_ok (butlast SEEKTO_COMMAND) c"
    and "0 \<notin> set remote" and "length remote \<le> INET6_ADDRSTRLEN" and "INET6_ADDRSTRLEN < limit"
    and node: "allocates_nodes bound node"
    and "length cs \<le> bound" and "total_bytes h cs < limit" and "total_bytes h cs < fuel" and "length cs < fuel"
  shows "\<exists>s. server_main (site_platform f K node remote) fuel True [] p = Inr (0, p\<lparr>termination_flag := True, env := s\<rparr>)
    \<and> served (butlast SEEKTO_COMMAND) h cs (env p) (s\<lparr>joined := joined (env p)\<rparr>)
    \<and> joined s = joined (env p) @ map of_nat [length (replies (env p))..<length (replies (env p)) + length cs]"
proof -
  let ?P = "site_platform f K node remote" and ?name = "butlast (FILENAME True)"
  let ?k = "length (replies (env p))" and ?p = "p\<lparr>env := (env p)\<lparr>sockets := {3}\<rparr>\<rparr>"
  let ?ts = "map of_nat [?k..<?k + length cs]"
  have names: "0 \<notin> set ?name" "length ?name < limit" "length ?name < 2 ^ 63"
    and name: "FILENAME True = ?name @ [0]" and cmd: "SEEKTO_COMMAND = butlast SEEKTO_COMMAND @ [0]"
      "0 \<notin> set (butlast SEEKTO_COMMAND)"
    using assms(8) by (simp_all add: FILENAME_def SEEKTO_COMMAND_def INET6_ADDRSTRLEN_def)
  obtain q where ready: "mainloop_setup ?P PORT BACKLOG False STAMPFREQSEC (main_locals p)
      = Inr (True, (main_locals ?p)\<lparr>m_sockfd := 3, m_thread_queue := Some q, m_monitor := True\<rparr>)"
    and q: "queue_holds q []"
    using site_setup [OF assms(4)] by blast
  let ?m = "(main_locals ?p)\<lparr>m_sockfd := 3, m_thread_queue := Some q, m_monitor := True\<rparr>"
  have m: "m_proc ?m = ?p" "m_thread_queue ?m = Some q" "m_timer ?m = NULL" by (simp_all add: main_locals_def)
  have fits: "length ([] :: u64 list) + length cs \<le> bound" using assms(10) by simp
  have start: "idle K f limit h ?p" "clients (env ?p) = cs" "sockets (env ?p) = {3}" "replies (env ?p) = replies (env p)"
    using assms(1,2) by (simp_all add: idle_def)
  obtain m' q' where
    loop: "accept_loop ?P fuel (FILENAME True) STAMPFORMAT SEEKTO_COMMAND fuel ?m = Inr (True, m')"
    and p': "m_proc m' = ?p\<lparr>termination_flag := True, env := env (m_proc m')\<rparr>"
    and served: "served (butlast SEEKTO_COMMAND) h cs (env ?p) (env (m_proc m'))"
    and m': "m' = ?m\<lparr>m_proc := m_proc m', m_conn_sockfd := 4, m_thread_arg := NULL, m_thread_queue := Some q'\<rparr>"
    and q': "queue_holds q' ?ts"
    using site_loop [where m = ?m and node = node and fmt = STAMPFORMAT and name = ?name
        and cmd = "butlast SEEKTO_COMMAND" and remote = remote and n = fuel and fuel = fuel and ts = "[]" and bound = bound,
      unfolded m append_Nil start(4), OF start(1,2) assms(3) start(3) assms(5) cmd(2) names(1) assms(6) names(2,3) assms(7,8)
        refl q fits node assms(11-13)]
    unfolding name [symmetric] cmd(1) [symmetric] by blast
  have "m_thread_queue m' = Some q'" "m_thread_arg m' = NULL" "m_timer m' = NULL" "m_sockfd m' = 3" "m_conn_sockfd m' \<noteq> 3"
    by (subst m', simp add: main_locals_def)+
  moreover have "files (env (m_proc m')) = Map.empty" "sockets (env (m_proc m')) = {3}"
    using served by (simp_all add: served_def)
  ultimately have "mainloop_done ?P fuel (FILENAME True) False m'
      = Inr ((m_proc m')\<lparr>env := (env (m_proc m'))\<lparr>joined := joined (env (m_proc m')) @ ?ts, sockets := {}\<rparr>\<rparr>)"
    using assms(13) q' by (intro site_done) simp_all
  moreover have "(m_proc m')\<lparr>env := e\<rparr> = p\<lparr>termination_flag := True, env := e\<rparr>" for e
    by (subst p') simp
  ultimately have "server_main ?P fuel True [] p = Inr (0, p\<lparr>termination_flag := True,
      env := (env (m_proc m'))\<lparr>joined := joined (env (m_proc m')) @ ?ts, sockets := {}\<rparr>\<rparr>)"
    using ready loop by (simp add: server_main_def parse_arguments_def aesdsocket_mainloop_def Let_def)
  moreover have "joined (env (m_proc m')) = joined (env p)" using served by (simp add: served_def)
  moreover have "served (butlast SEEKTO_COMMAND) h cs (env p) ((env (m_proc m'))\<lparr>sockets := {}, joined := joined (env p)\<rparr>)"
    using served assms(4) by (simp add: served_def)
  ultimately show ?thesis
    by (intro exI [of _ "(env (m_proc m'))\<lparr>joined := joined (env (m_proc m')) @ ?ts, sockets := {}\<rparr>"]) simp
qed

end
