(* ===== verification/Server_Site_Props.thy ===== *)
theory Server_Site_Props
  imports Server_Site Server_Socket_Props
begin

text \<open>
  The server from its command line to its exit, and its application to three peers of a freshly
  loaded driver.
\<close>


section \<open>Three peers\<close>




text \<open>``hi'' in two pieces, ``put'' with an interruption, and a request for byte 1 of command 1.\<close>

definition demo_hi :: "byte list option list" where
  "demo_hi = [Some [104], Some [105, 10]]"






lemma demo_hi_simps [simp]:
  "stream demo_hi = [104, 105, 10]" "chunks_ok demo_hi" "count_list demo_hi None = 0"
  by (auto simp: demo_hi_def stream_def chunks_ok_def BUFFSIZE_def)





end
