(* ===== verification/Server_Regular.thy ===== *)
theory Server_Regular
  imports Server_Echo
begin

text \<open>
  The server without the character device (\<open>USE_AESD_CHAR_DEVICE\<close> undefined): its file is a
  regular one, opened with \<open>O_APPEND\<close>. Its writes make it a \<open>byte_sink\<close>, so that lines and
  timestamps are appended whole; its reads deliver everything that is left and fits, so that it
  is no \<open>line_source\<close>, and what follows the first newline of a read is lost: of each buffer of the file
  the peer gets the first line.
\<close>

section \<open>A regular file\<close>

text \<open>The bytes of the file, how many of them one write takes at most, and how many of the next
  writes a signal interrupts.\<close>

record archive = session +
  stored :: "byte list"
  takes :: nat
  busy :: nat

definition regular_read :: "int \<Rightarrow> nat \<Rightarrow> archive \<Rightarrow> stop + (byte list io \<times> archive)" where
  "regular_read fd count s =
     (case files s fd of
        None \<Rightarrow> Inr (Failed, s)
      | Some (a, pos) \<Rightarrow>
          if a = O_WRONLY then Inr (Failed, s)
          else let bs = take count (drop (unat pos) (stored s))
               in Inr (Done bs, s\<lparr>files := (files s)(fd \<mapsto> (a, pos + of_nat (length bs)))\<rparr>))"

definition regular_write :: "int \<Rightarrow> byte list \<Rightarrow> archive \<Rightarrow> stop + (u64 io \<times> archive)" where
  "regular_write fd data s =
     (case files s fd of
        None \<Rightarrow> Inr (Failed, s)
      | Some (a, pos) \<Rightarrow>
          if a = O_RDONLY then Inr (Failed, s)
          else if busy s \<noteq> 0 then Inr (Interrupted, s\<lparr>busy := busy s - 1\<rparr>)
          else let n = min (takes s) (length data)
               in Inr (Done (of_nat n), s\<lparr>stored := stored s @ take n data,
                    files := (files s)(fd \<mapsto> (a, of_nat (length (stored s) + n)))\<rparr>))"

text \<open>The clock shows \<open>now\<close>.\<close>

definition regular_os ::
  "(kheap \<Rightarrow> ptr \<Rightarrow> u64 \<Rightarrow> ptr \<times> kheap) \<Rightarrow> kernel \<Rightarrow> int \<Rightarrow> (int \<Rightarrow> tm option) \<Rightarrow>
     (byte list \<Rightarrow> nat \<Rightarrow> tm \<Rightarrow> byte list) \<Rightarrow> archive os" where
  "regular_os f K now localtime strftime =
     (session_os f K)\<lparr>os_read := regular_read, os_write := regular_write, os_clock := \<lambda>s. Inr (Done now, s),
        os_localtime := localtime, os_strftime := strftime\<rparr>"

lemma regular_os_simps [simp]:
  "os_realloc (regular_os f K now lt st) = f" "os_read (regular_os f K now lt st) = regular_read"
  "os_write (regular_os f K now lt st) = regular_write" "os_open (regular_os f K now lt st) name = session_open"
  "os_close (regular_os f K now lt st) = session_close" "os_recv (regular_os f K now lt st) fd = session_recv"
  "os_send (regular_os f K now lt st) fd = session_send" "os_monitor (regular_os f K now lt st) = session_monitor"
  "os_clock (regular_os f K now lt st) s = Inr (Done now, s)" "os_localtime (regular_os f K now lt st) = lt"
  "os_strftime (regular_os f K now lt st) = st"
  "memory_ok (regular_os f K now lt st) blocks limit = memory_ok (session_os f K :: archive os) blocks limit"
  by (simp_all add: regular_os_def memory_ok_def)

lemma regular_quiet: "quiet (regular_os f K now lt st)"
  by (simp add: quiet_def regular_os_def session_os_def)

text \<open>A single thread goes through the monitor.\<close>

lemma session_passes:
  fixes v :: "'x session_scheme"
  assumes "smon v = monitor_clear"
  shows "session_monitor Start_reading v = Inr (v\<lparr>smon := monitor_clear\<lparr>active_readers := 1\<rparr>\<rparr>)"
    and "session_monitor Stop_reading (v\<lparr>smon := monitor_clear\<lparr>active_readers := 1\<rparr>\<rparr>) = Inr v"
    and "session_monitor Start_writing v = Inr (v\<lparr>smon := monitor_clear\<lparr>active_writers := 1\<rparr>\<rparr>)"
    and "session_monitor Stop_writing (v\<lparr>smon := monitor_clear\<lparr>active_writers := 1\<rparr>\<rparr>) = Inr v"
  using assms by (simp_all add: session_monitor_def monitor_unfold)

section \<open>Appending\<close>

text \<open>\<open>old\<close> was there before; the rest of the state is \<open>rest\<close>.\<close>

definition appending :: "archive \<Rightarrow> int \<Rightarrow> byte list \<Rightarrow> archive \<Rightarrow> byte list \<Rightarrow> nat \<Rightarrow> bool" where
  "appending rest fd old s out k \<longleftrightarrow> s\<lparr>stored := [], files := (files s)(fd := None), busy := 0\<rparr> = rest
     \<and> stored s = old @ out \<and> busy s = k \<and> 0 < takes s
     \<and> (\<exists>a pos. files s fd = Some (a, pos) \<and> a \<noteq> O_RDONLY)"

interpretation ap: byte_sink "regular_write fd" "\<lambda>_ _. True" "appending rest fd old" for rest fd old
proof
  fix s out k and data :: "byte list"
  assume t: "appending rest fd old s out k" and "data \<noteq> []"
  let ?n = "min (takes s) (length data)"
  obtain a pos where opened: "files s fd = Some (a, pos)" "a \<noteq> O_RDONLY" using t by (auto simp: appending_def)
  show "(\<exists>e' k'. regular_write fd data s = Inr (Interrupted, e') \<and> k' < k \<and> appending rest fd old e' out k')
    \<or> (\<exists>e' k' n. regular_write fd data s = Inr (Done (of_nat n), e') \<and> k' \<le> k \<and> 0 < n \<and> n \<le> length data
        \<and> (n < length data \<longrightarrow> True) \<and> appending rest fd old e' (out @ take n data) k')"
  proof (cases "busy s = 0")
    case False
    then have "appending rest fd old (s\<lparr>busy := busy s - 1\<rparr>) out (k - 1)" "k - 1 < k"
      using t by (auto simp: appending_def)
    then show ?thesis using False opened by (simp add: regular_write_def) blast
  next
    case True
    let ?s = "s\<lparr>stored := stored s @ take ?n data, files := (files s)(fd \<mapsto> (a, of_nat (length (stored s) + ?n)))\<rparr>"
    have "regular_write fd data s = Inr (Done (of_nat ?n), ?s)"
      using True opened by (simp add: regular_write_def Let_def)
    moreover have "0 < ?n" using t \<open>data \<noteq> []\<close> by (simp add: appending_def)
    moreover have "appending rest fd old ?s (out @ take ?n data) k" using t opened(2) by (auto simp: appending_def)
    ultimately show ?thesis by (intro disjI2 exI [of _ ?s] exI [of _ k] exI [of _ ?n]) simp
  qed
qed

text \<open>A line reaches the file whole, however the disk cuts it and signals interrupt.\<close>

lemma regular_write_line:
  assumes "files (env p) fd = Some (a, pos)" and "a \<noteq> O_RDONLY" and "smon (env p) = monitor_clear"
    and "0 < takes (env p)" and "0 \<notin> set line" and "length line < 2 ^ 64" and "length line + busy (env p) < fuel"
  shows "\<exists>x k. aesdsocket_write_line (regular_os f K now lt st) fuel fd (line @ 0 # rest) p
    = Inr (True, p\<lparr>env := (env p)\<lparr>stored := stored (env p) @ line, files := (files (env p))(fd \<mapsto> x), busy := k\<rparr>\<rparr>)"
proof -
  let ?S = "regular_os f K now lt st" and ?s = "env p"
  let ?m = "monitor_clear\<lparr>active_writers := 1\<rparr>"
  let ?r = "?s\<lparr>smon := ?m, stored := [], files := (files ?s)(fd := None), busy := 0\<rparr>"
  have "appending ?r fd (stored ?s) (?s\<lparr>smon := ?m\<rparr>) [] (busy ?s)" using assms(1,2,4) by (simp add: appending_def)
  from ap.write_loop_all [OF _ assms(5,6) this, of ?S fd "length line" fuel rest]
  obtain s1 k where
    loop: "write_loop ?S fd fuel (line @ 0 # rest) (of_nat (length line)) (?s\<lparr>smon := ?m\<rparr>) = Inr (True, s1)"
    and s1: "appending ?r fd (stored ?s) s1 line k" using assms(7) by auto
  let ?s' = "?s\<lparr>stored := stored ?s @ line, files := (files ?s)(fd := files s1 fd), busy := k\<rparr>"
  have "s1 = ?s'\<lparr>smon := ?m\<rparr>"
    using s1 by (cases s1; cases ?s) (auto simp: appending_def fun_eq_iff split: if_splits)
  then have "session_monitor Stop_writing s1 = Inr ?s'" using session_passes(4) [of ?s'] assms(3) by simp
  moreover obtain a' pos' where "files s1 fd = Some (a', pos')" using s1 by (auto simp: appending_def)
  ultimately show ?thesis
    using loop session_passes(3) [OF assms(3)] assms(5)
    by (intro exI [of _ "(a', pos')"] exI [of _ k]) (simp add: aesdsocket_write_line_def)
qed

section \<open>Timestamps\<close>

lemma stamp_text:
  "length stamp + 1 < BUFFSIZE \<Longrightarrow> \<exists>pad. stamp_line stamp = Inr ((stamp @ [newline]) @ 0 # pad)"
  by (auto simp: stamp_line_def intro: exI [of _ "replicate (BUFFSIZE - length stamp - 2) 0"]
      simp flip: replicate_Suc)

lemma take_timestamp_appends:
  assumes idle: "files (env p) = Map.empty" "smon (env p) = monitor_clear" "0 < takes (env p)"
    and time: "lt now = Some t" "st fmt BUFFSIZE t = stamp"
    and stamp: "stamp \<noteq> []" "0 \<notin> set stamp" "length stamp + 1 < BUFFSIZE"
    and fuel: "length stamp + 1 + busy (env p) < fuel"
  shows "\<exists>k. aesdsocket_take_timestamp (regular_os f K now lt st) fuel fmt name p
    = Inr (True, p\<lparr>env := (env p)\<lparr>stored := stored (env p) @ stamp @ [newline], busy := k\<rparr>\<rparr>)"
proof -
  let ?S = "regular_os f K now lt st" and ?s = "(env p)\<lparr>files := [5 \<mapsto> (O_WRONLY, 0)]\<rparr>"
  obtain pad where buffer: "stamp_line stamp = Inr ((stamp @ [newline]) @ 0 # pad)" using stamp_text [OF stamp(3)] by blast
  have "0 \<notin> set (stamp @ [newline])" "length (stamp @ [newline]) < 2 ^ 64"
    using stamp by (simp_all add: newline_def BUFFSIZE_def)
  from regular_write_line [OF _ _ _ _ this, of "p\<lparr>env := ?s\<rparr>" 5 O_WRONLY 0 fuel f K now lt st pad]
  obtain x k where written: "aesdsocket_write_line ?S fuel 5 ((stamp @ [newline]) @ 0 # pad) (p\<lparr>env := ?s\<rparr>)
    = Inr (True, p\<lparr>env := ?s\<lparr>stored := stored (env p) @ stamp @ [newline], files := [5 \<mapsto> (O_WRONLY, 0)](5 \<mapsto> x), busy := k\<rparr>\<rparr>)"
    using idle fuel by auto
  have "session_open O_WRONLY (env p) = Inr (Done 5, ?s)" using session_open_first [OF idle(1)] .
  then have "aesdsocket_take_timestamp ?S fuel fmt name p = Inr (True, p\<lparr>env := session_close 5
      (?s\<lparr>stored := stored (env p) @ stamp @ [newline], files := [5 \<mapsto> (O_WRONLY, 0)](5 \<mapsto> x), busy := k\<rparr>)\<rparr>)"
    using time stamp(1) buffer written by (simp add: aesdsocket_take_timestamp_def close_fd_def Let_def)
  then show ?thesis using idle(1) by (intro exI [of _ k]) (cases "env p", simp add: session_close_def)
qed

section \<open>Sending\<close>

definition sending :: "'x session_scheme \<Rightarrow> 'x session_scheme \<Rightarrow> byte list \<Rightarrow> nat \<Rightarrow> bool" where
  "sending rest s out k \<longleftrightarrow> s = rest\<lparr>outgoing := out\<rparr> \<and> 0 < accepts rest"

interpretation tx: byte_sink session_send "\<lambda>_ _. True" "sending rest" for rest
proof
  fix s out k and data :: "byte list"
  assume t: "sending rest s out k" and "data \<noteq> []"
  let ?n = "min (accepts s) (length data)"
  let ?s = "s\<lparr>outgoing := outgoing s @ take ?n data\<rparr>"
  have "0 < ?n" using t \<open>data \<noteq> []\<close> by (simp add: sending_def)
  moreover have "session_send data s = Inr (Done (of_nat ?n), ?s)" by (simp add: session_send_def Let_def)
  moreover have "sending rest ?s (out @ take ?n data) k" using t by (simp add: sending_def)
  ultimately show "(\<exists>e' k'. session_send data s = Inr (Interrupted, e') \<and> k' < k \<and> sending rest e' out k')
    \<or> (\<exists>e' k' n. session_send data s = Inr (Done (of_nat n), e') \<and> k' \<le> k \<and> 0 < n \<and> n \<le> length data
        \<and> (n < length data \<longrightarrow> True) \<and> sending rest e' (out @ take n data) k')"
    by (intro disjI2 exI [of _ ?s] exI [of _ k] exI [of _ ?n]) simp
qed

section \<open>One line of a chunk\<close>

text \<open>\<open>aesdsocket_read_line\<close> when the first read delivers a chunk with a newline: the line is the
  chunk up to the newline, whatever follows.\<close>

lemma read_line_chunk:
  assumes "memory_ok S blocks limit" and "card (dom base) < blocks"
    and "collecting base q [] (mem p)" and "os_monitor S Start_reading (env p) = Inr e1"
    and "os_read S fd BUFFSIZE e1 = Inr (Done u, e2)" and "os_monitor S Stop_reading e2 = Inr e3"
    and "0 \<notin> set u" and "newline \<in> set u" and "length u \<le> BUFFSIZE" and "length u + 1 \<le> limit"
  shows "\<exists>q' h. aesdsocket_read_line S (Suc n) fd q p = Inr (True, q', False, p\<lparr>env := e3, mem := h\<rparr>)
    \<and> string_at base q' (line_of u) h"
proof -
  let ?p = "p\<lparr>env := e2\<rparr>"
  have u: "u \<noteq> []" "length u < BUFFSIZE \<or> length u = BUFFSIZE \<and> newline \<in> set u" using assms(8,9) by auto
  have c: "collecting base q [] (mem ?p)" "length ([] :: byte list) + length u + 1 \<le> limit"
    using assms(3,10) by simp_all
  show ?thesis
  proof (rule chunk_step [OF assms(1,2) c(1) clean_start u(1) assms(7) u(2) c(2)])
    fix buffer' q' h
    assume chunk: "fill (replicate BUFFSIZE 0) u = Inr buffer'"
      "append_chunk S buffer' (length u) q (length ([] :: byte list)) ?p
        = Inr (True, newline \<in> set u, q', length ([] @ line_of u), ?p\<lparr>mem := h\<rparr>)"
      "q' \<noteq> NULL" "collecting base q' ([] @ line_of u) h"
    have loop: "read_loop S fd (Suc n) (replicate BUFFSIZE 0) q 0 (p\<lparr>env := e1\<rparr>)
        = Inr (True, False, q', length (line_of u), ?p\<lparr>mem := h\<rparr>)"
      using assms(5,8) chunk(1,2) u(1) by (simp add: Let_def)
    have "collecting base q' (line_of u) (mem (p\<lparr>env := e3, mem := h\<rparr>))" using chunk(4) by simp
    from finish_line_string [OF this chunk(3), of q] obtain h' where
      "finish_line True q' (length (line_of u)) q (p\<lparr>env := e3, mem := h\<rparr>)
        = Inr (True, q', p\<lparr>env := e3, mem := h\<rparr>\<lparr>mem := h'\<rparr>)" "string_at base q' (line_of u) h'" by blast
    then show ?thesis
      using assms(4,6) loop unfolding aesdsocket_read_line_def
      by (intro exI [of _ q'] exI [of _ h']) (simp del: read_loop.simps add: proc_swap)
  qed
qed

text \<open>At the end of the file a block that held a line becomes the empty string.\<close>

lemma read_line_end:
  assumes "string_at base q t (mem p)" and "os_monitor S Start_reading (env p) = Inr e1"
    and "os_read S fd BUFFSIZE e1 = Inr (Done [], e2)" and "os_monitor S Stop_reading e2 = Inr e3"
  shows "\<exists>h. aesdsocket_read_line S (Suc n) fd q p = Inr (True, q, True, p\<lparr>env := e3, mem := h\<rparr>)
    \<and> string_at base q [] h"
proof -
  have "collecting base q [] (mem (p\<lparr>env := e3\<rparr>))" using string_at_restart [OF assms(1)] by simp
  moreover have "q \<noteq> NULL" using assms(1) by (simp add: string_at_def)
  ultimately obtain h where
    "finish_line True q (length ([] :: byte list)) q (p\<lparr>env := e3\<rparr>) = Inr (True, q, p\<lparr>env := e3\<rparr>\<lparr>mem := h\<rparr>)"
    "string_at base q [] h"
    using finish_line_string [of base q "[]" "p\<lparr>env := e3\<rparr>" q] by blast
  then show ?thesis
    using assms(2-4) by (intro exI [of _ h]) (simp add: aesdsocket_read_line_def fill_def Let_def)
qed

section \<open>Sending a regular file\<close>

text \<open>What the reads of a regular file deliver, one buffer after the other.\<close>

function file_chunks :: "byte list \<Rightarrow> byte list list" where
  "file_chunks [] = []"
| "file_chunks (b # bs) = take BUFFSIZE (b # bs) # file_chunks (drop BUFFSIZE (b # bs))"
  by pat_completeness auto
termination
  by (relation "measure length") (simp_all add: BUFFSIZE_def)

lemma file_chunks_step: "bs \<noteq> [] \<Longrightarrow> file_chunks bs = take BUFFSIZE bs # file_chunks (drop BUFFSIZE bs)"
  by (cases bs) simp_all

lemma regular_read_at:
  assumes "files s fd = Some (a, of_nat pos)" and "a \<noteq> O_WRONLY" and "pos \<le> length (stored s)" and "length (stored s) < 2 ^ 64"
  shows "regular_read fd BUFFSIZE (s\<lparr>smon := m\<rparr>) = Inr (Done (take BUFFSIZE (drop pos (stored s))),
    s\<lparr>files := (files s)(fd \<mapsto> (a, of_nat (pos + length (take BUFFSIZE (drop pos (stored s)))))), smon := m\<rparr>)"
proof -
  have "unat (of_nat pos :: u64) = pos" using assms(3,4) by (intro unat_of_nat_u64) simp
  then show ?thesis using assms(1,2) by (simp add: regular_read_def Let_def)
qed

text \<open>One round of the loop: a chunk is read, its first line is sent.\<close>

lemma send_chunk:
  assumes mem: "memory_ok (session_os f K :: archive os) blocks limit" "card (dom base) < blocks"
    and p: "collecting base q [] (mem p)" "\<not> termination_flag p" "smon (env p) = monitor_clear" "0 < accepts (env p)"
    and opened: "files (env p) fd = Some (a, of_nat pos)" "a \<noteq> O_WRONLY" "pos \<le> length (stored (env p))"
    and chunk: "u = take BUFFSIZE (drop pos (stored (env p)))" "newline \<in> set u"
    and data: "0 \<notin> set (stored (env p))" "length (stored (env p)) + 1 \<le> limit" "length (stored (env p)) < fuel"
  shows "\<exists>q' h. send_file_loop (regular_os f K now lt st) fuel sock fd (Suc n) q p
      = send_file_loop (regular_os f K now lt st) fuel sock fd n q' (p\<lparr>env := (env p)\<lparr>
          files := (files (env p))(fd \<mapsto> (a, of_nat (pos + length u))), outgoing := outgoing (env p) @ line_of u\<rparr>, mem := h\<rparr>)
    \<and> string_at base q' (line_of u) h"
proof -
  let ?S = "regular_os f K now lt st" and ?s = "env p"
  let ?reader = "monitor_clear\<lparr>active_readers := 1\<rparr>"
  let ?s1 = "?s\<lparr>files := (files ?s)(fd \<mapsto> (a, of_nat (pos + length u)))\<rparr>"
  have limit: "limit < 2 ^ 64" using mem(1) by (simp add: memory_ok_def)
  obtain fuel' where fuel': "fuel = Suc fuel'" using data(3) by (cases fuel) auto
  have u: "0 \<notin> set u" "length u \<le> BUFFSIZE" "length u \<le> length (stored ?s)"
    using data(1) chunk(1) by (auto dest: in_set_takeD in_set_dropD)
  have "u \<noteq> []" using chunk(2) by auto
  have read: "regular_read fd BUFFSIZE (?s\<lparr>smon := ?reader\<rparr>) = Inr (Done u, ?s1\<lparr>smon := ?reader\<rparr>)"
    using regular_read_at [OF opened, of ?reader] data(2) limit unfolding chunk(1) by simp
  obtain q' h where
    line: "aesdsocket_read_line ?S fuel fd q p = Inr (True, q', False, p\<lparr>env := ?s1, mem := h\<rparr>)"
    and q': "string_at base q' (line_of u) h"
    using read_line_chunk [of ?S blocks limit base q p "?s\<lparr>smon := ?reader\<rparr>" fd u "?s1\<lparr>smon := ?reader\<rparr>" ?s1 fuel']
      mem p(1,3) read u chunk(2) data(2) fuel' by (auto simp: session_passes)
  let ?p1 = "p\<lparr>env := ?s1, mem := h\<rparr>"
  obtain r where r: "h q' = Some (line_of u @ 0 # r)" "q' \<noteq> NULL" using q' by (auto simp: string_at_def)
  have text_u: "0 \<notin> set (line_of u)" "length (line_of u) < 2 ^ 64" "length (line_of u) + 0 < fuel" "line_of u \<noteq> []"
    using line_of_set [of u] line_of_length [of u] line_of_nonempty [OF \<open>u \<noteq> []\<close>] u data(2,3) limit by auto
  have "sending ?s1 (env ?p1) (outgoing ?s) 0" using p(4) by (simp add: sending_def)
  from tx.send_line_all [OF _ text_u(1,2) regular_quiet this _ text_u(3), of f K now lt st sock r]
  have "aesdsocket_send_line ?S fuel sock (line_of u @ 0 # r) ?p1
      = Inr (True, ?p1\<lparr>env := ?s1\<lparr>outgoing := outgoing ?s @ line_of u\<rparr>\<rparr>)"
    using p(2) by (auto simp: sending_def)
  then have "send_file_loop ?S fuel sock fd (Suc n) q p = send_file_loop ?S fuel sock fd n q'
      (p\<lparr>env := ?s1\<lparr>outgoing := outgoing ?s @ line_of u\<rparr>, mem := h\<rparr>)"
    unfolding send_file_loop.simps(2) line andThen.simps using r text_u(1,4) by (simp add: proc_swap)
  then show ?thesis using q' by (intro exI [of _ q'] exI [of _ h]) simp
qed

text \<open>The end: nothing is left to read.\<close>

lemma send_end:
  assumes "string_at base q t (mem p)" and "smon (env p) = monitor_clear" and "0 < fuel"
    and "files (env p) fd = Some (a, of_nat (length (stored (env p))))" and "a \<noteq> O_WRONLY" and "length (stored (env p)) < 2 ^ 64"
  shows "\<exists>h. send_file_loop (regular_os f K now lt st) fuel sock fd (Suc n) q p = Inr (True, q, p\<lparr>mem := h\<rparr>)
    \<and> string_at base q [] h"
proof -
  let ?S = "regular_os f K now lt st" and ?s = "env p"
  let ?reader = "monitor_clear\<lparr>active_readers := 1\<rparr>"
  obtain fuel' where fuel': "fuel = Suc fuel'" using assms(3) by (cases fuel) auto
  have "?s\<lparr>files := (files ?s)(fd \<mapsto> (a, of_nat (length (stored ?s)))), smon := ?reader\<rparr> = ?s\<lparr>smon := ?reader\<rparr>"
    using assms(4) by (cases ?s) (auto simp: fun_eq_iff)
  then have "regular_read fd BUFFSIZE (?s\<lparr>smon := ?reader\<rparr>) = Inr (Done [], ?s\<lparr>smon := ?reader\<rparr>)"
    using regular_read_at [OF assms(4,5) _ assms(6), of ?reader] by simp
  then obtain h where line: "aesdsocket_read_line ?S fuel fd q p = Inr (True, q, True, p\<lparr>env := ?s, mem := h\<rparr>)"
    and h: "string_at base q [] h"
    using read_line_end [OF assms(1), of ?S "?s\<lparr>smon := ?reader\<rparr>" fd "?s\<lparr>smon := ?reader\<rparr>" ?s fuel'] assms(2) fuel'
    by (auto simp: session_passes)
  obtain r where "h q = Some (0 # r)" "q \<noteq> NULL" using h by (auto simp: string_at_def)
  then show ?thesis unfolding send_file_loop.simps(2) line andThen.simps using h by (intro exI [of _ h]) simp
qed

lemma send_chunks:
  assumes mem: "memory_ok (session_os f K :: archive os) blocks limit" "card (dom base) < blocks"
    and data: "0 \<notin> set data" "length data + 1 \<le> limit" "length data < fuel" and a: "a \<noteq> O_WRONLY"
  shows "collecting base q [] (mem p) \<Longrightarrow> (pos = length data \<Longrightarrow> \<exists>t. string_at base q t (mem p)) \<Longrightarrow>
    \<not> termination_flag p \<Longrightarrow> smon (env p) = monitor_clear \<Longrightarrow> 0 < accepts (env p) \<Longrightarrow> stored (env p) = data \<Longrightarrow>
    files (env p) fd = Some (a, of_nat pos) \<Longrightarrow> pos \<le> length data \<Longrightarrow>
    \<forall>u \<in> set (file_chunks (drop pos data)). newline \<in> set u \<Longrightarrow> length (drop pos data) < n \<Longrightarrow>
    \<exists>q' h. send_file_loop (regular_os f K now lt st) fuel sock fd n q p = Inr (True, q', p\<lparr>env := (env p)\<lparr>
        files := (files (env p))(fd \<mapsto> (a, of_nat (length data))),
        outgoing := outgoing (env p) @ concat (map line_of (file_chunks (drop pos data)))\<rparr>, mem := h\<rparr>)
      \<and> string_at base q' [] h"
proof (induction n arbitrary: p q pos)
  case (Suc n)
  let ?S = "regular_os f K now lt st"
  have big: "length data < 2 ^ 64" using mem(1) data(2) by (simp add: memory_ok_def)
  show ?case
  proof (cases "pos = length data")
    case True
    have unchanged: "(env p)\<lparr>files := (files (env p))(fd \<mapsto> (a, of_nat (length data))), outgoing := outgoing (env p)\<rparr> = env p"
      using Suc.prems(7) True by (cases "env p") (auto simp: fun_eq_iff)
    obtain t where "string_at base q t (mem p)" using Suc.prems(2) True by blast
    from send_end [OF this Suc.prems(4), of fuel fd a f K now lt st sock n] Suc.prems(6,7) a big data(3) True
    obtain h where "send_file_loop ?S fuel sock fd (Suc n) q p = Inr (True, q, p\<lparr>mem := h\<rparr>)" "string_at base q [] h"
      by auto
    moreover have "(env p)\<lparr>files := (files (env p))(fd \<mapsto> (a, of_nat (length data))),
        outgoing := outgoing (env p) @ concat (map line_of (file_chunks (drop pos data)))\<rparr> = env p"
      unfolding True by (simp only: drop_all order_refl file_chunks.simps list.map concat.simps append_Nil2 unchanged)
    then have "p\<lparr>env := (env p)\<lparr>files := (files (env p))(fd \<mapsto> (a, of_nat (length data))),
        outgoing := outgoing (env p) @ concat (map line_of (file_chunks (drop pos data)))\<rparr>, mem := h\<rparr> = p\<lparr>mem := h\<rparr>"
      by (simp only:) simp
    ultimately show ?thesis by (intro exI [of _ q] exI [of _ h] conjI) (simp_all only:)
  next
    case False
    define u where "u = take BUFFSIZE (drop pos data)"
    have rest: "file_chunks (drop pos data) = u # file_chunks (drop (pos + length u) data)" "0 < length u"
      "pos + length u \<le> length data"
    proof -
      have "drop BUFFSIZE (drop pos data) = drop (pos + length u) data"
        by (cases "BUFFSIZE \<le> length data - pos") (simp_all add: u_def add.commute)
      moreover have "drop pos data \<noteq> []" using False Suc.prems(8) by simp
      ultimately show "file_chunks (drop pos data) = u # file_chunks (drop (pos + length u) data)"
        by (simp add: file_chunks_step u_def)
      show "0 < length u" "pos + length u \<le> length data" using False Suc.prems(8) by (simp_all add: u_def BUFFSIZE_def)
    qed
    have "newline \<in> set u" using Suc.prems(9) rest(1) by simp
    from send_chunk [OF mem Suc.prems(1,3,4,5,7) a _ _ this, of fuel now lt st sock n]
    obtain q1 h1 where
      step: "send_file_loop ?S fuel sock fd (Suc n) q p = send_file_loop ?S fuel sock fd n q1 (p\<lparr>env := (env p)\<lparr>
          files := (files (env p))(fd \<mapsto> (a, of_nat (pos + length u))), outgoing := outgoing (env p) @ line_of u\<rparr>, mem := h1\<rparr>)"
      and q1: "string_at base q1 (line_of u) h1"
      using Suc.prems(6,8) data by (auto simp: u_def)
    let ?p1 = "p\<lparr>env := (env p)\<lparr>files := (files (env p))(fd \<mapsto> (a, of_nat (pos + length u))),
      outgoing := outgoing (env p) @ line_of u\<rparr>, mem := h1\<rparr>"
    have len: "length (drop (pos + length u) data) < n"
      using Suc.prems(10) rest(2,3) unfolding length_drop by linarith
    have "collecting base q1 [] (mem ?p1)" "pos + length u = length data \<Longrightarrow> \<exists>t. string_at base q1 t (mem ?p1)"
      "\<not> termination_flag ?p1" "smon (env ?p1) = monitor_clear" "0 < accepts (env ?p1)" "stored (env ?p1) = data"
      "files (env ?p1) fd = Some (a, of_nat (pos + length u))"
      "\<forall>v \<in> set (file_chunks (drop (pos + length u) data)). newline \<in> set v"
      using string_at_restart [OF q1] q1 Suc.prems(3-6,9) rest(1) by auto
    from Suc.IH [OF this(1-7) rest(3) this(8) len] obtain q' h where
      last: "send_file_loop ?S fuel sock fd n q1 ?p1 = Inr (True, q', ?p1\<lparr>env := (env ?p1)\<lparr>
        files := (files (env ?p1))(fd \<mapsto> (a, of_nat (length data))),
        outgoing := outgoing (env ?p1) @ concat (map line_of (file_chunks (drop (pos + length u) data)))\<rparr>, mem := h\<rparr>)"
      "string_at base q' [] h" by blast
    have "outgoing (env ?p1) @ concat (map line_of (file_chunks (drop (pos + length u) data)))
      = outgoing (env p) @ concat (map line_of (file_chunks (drop pos data)))" by (simp add: rest(1))
    moreover have "(files (env ?p1))(fd \<mapsto> x) = (files (env p))(fd \<mapsto> x)" for x by simp
    ultimately have "send_file_loop ?S fuel sock fd n q1 ?p1 = Inr (True, q', ?p1\<lparr>env := (env ?p1)\<lparr>
        files := (files (env p))(fd \<mapsto> (a, of_nat (length data))),
        outgoing := outgoing (env p) @ concat (map line_of (file_chunks (drop pos data)))\<rparr>, mem := h\<rparr>)"
      using last(1) by (simp only:)
    moreover have "?p1\<lparr>env := (env ?p1)\<lparr>files := x, outgoing := out\<rparr>, mem := h\<rparr>
      = p\<lparr>env := (env p)\<lparr>files := x, outgoing := out\<rparr>, mem := h\<rparr>" for x out by simp
    ultimately show ?thesis using step last(2) by (intro exI [of _ q'] exI [of _ h] conjI) (simp_all only:)
  qed
qed simp

text \<open>Of a regular file the first line of each chunk is sent.\<close>

lemma regular_file_first_lines:
  assumes mem: "memory_ok (session_os f K :: archive os) blocks limit" "card (dom (mem p)) < blocks" "mem p NULL = None"
    and "\<not> termination_flag p" and "smon (env p) = monitor_clear" and "0 < accepts (env p)"
    and "files (env p) fd = Some (a, 0)" and "a \<noteq> O_WRONLY"
    and data: "data = stored (env p)" "0 \<notin> set data" "data \<noteq> []" "\<forall>u \<in> set (file_chunks data). newline \<in> set u"
    and "length data + 1 \<le> limit" and "length data < fuel"
  shows "aesdsocket_read_and_send_file (regular_os f K now lt st) fuel sock fd p = Inr (True, p\<lparr>env := (env p)\<lparr>
      files := (files (env p))(fd \<mapsto> (a, of_nat (length data))),
      outgoing := outgoing (env p) @ concat (map line_of (file_chunks data))\<rparr>\<rparr>)"
proof -
  from send_chunks [OF mem(1,2) data(2) assms(13,14) assms(8) collecting_NULL [of "mem p", OF mem(3)] _ assms(4-6) data(1) [symmetric],
      of 0 fd fuel now lt st sock]
  obtain q' h where "send_file_loop (regular_os f K now lt st) fuel sock fd fuel NULL p = Inr (True, q', p\<lparr>env := (env p)\<lparr>
        files := (files (env p))(fd \<mapsto> (a, of_nat (length data))),
        outgoing := outgoing (env p) @ concat (map line_of (file_chunks data))\<rparr>, mem := h\<rparr>)"
      "string_at (mem p) q' [] h"
    using assms(7,14) data(3,4) by auto
  then show ?thesis using string_freed by (simp add: aesdsocket_read_and_send_file_def)
qed

section \<open>A connection\<close>

lemma serve_line_appends:
  assumes "files s = [5 \<mapsto> (O_RDWR, 0)]" and "smon s = monitor_clear" and "0 < takes s"
    and "0 \<notin> set line" and "length line < 2 ^ 64" and "length line + busy s < fuel"
    and "0 \<notin> set cmd" and "take (length cmd) line \<noteq> cmd"
  shows "\<exists>k. serve_line (regular_os f K now lt st) fuel (line @ 0 # r) name (cmd @ [0]) 5 (p\<lparr>env := s\<rparr>)
    = Inr (True, 5, p\<lparr>env := s\<lparr>stored := stored s @ line, files := [5 \<mapsto> (O_RDONLY, 0)], busy := k\<rparr>\<rparr>)"
proof -
  let ?S = "regular_os f K now lt st"
  obtain x k where written: "aesdsocket_write_line ?S fuel 5 (line @ 0 # r) (p\<lparr>env := s\<rparr>)
    = Inr (True, p\<lparr>env := s\<lparr>stored := stored s @ line, files := [5 \<mapsto> (O_RDWR, 0)](5 \<mapsto> x), busy := k\<rparr>\<rparr>)"
    using regular_write_line [of "p\<lparr>env := s\<rparr>" 5 O_RDWR 0 line fuel f K now lt st r] assms by auto
  let ?s = "s\<lparr>stored := stored s @ line, files := Map.empty, busy := k\<rparr>"
  have "session_open O_RDONLY ?s = Inr (Done 5, ?s\<lparr>files := [5 \<mapsto> (O_RDONLY, 0)]\<rparr>)"
    by (rule session_open_first) simp
  moreover have "session_close 5 (s\<lparr>stored := stored s @ line, files := [5 \<mapsto> (O_RDWR, 0)](5 \<mapsto> x), busy := k\<rparr>) = ?s"
    by (simp add: session_close_def)
  moreover have "c_strlen (cmd @ [0]) = Inr (length cmd)" using c_strlen_text [OF assms(7), of "[]"] .
  moreover have "c_strncmp_eq (line @ 0 # r) (cmd @ [0]) (length cmd) = Inr False"
    using c_strncmp_eq_strings [OF assms(7,4)] assms(8) by simp
  ultimately show ?thesis using written by (intro exI [of _ k]) (simp add: serve_line_def)
qed

lemma regular_connection:
  assumes mem: "memory_ok (session_os f K :: archive os) (card (dom (mem p)) + 2) limit" "mem p NULL = None"
      "\<not> termination_flag p"
    and idle: "files (env p) = Map.empty" "smon (env p) = monitor_clear" "0 < accepts (env p)" "0 < takes (env p)"
    and peer: "chunks_ok (incoming (env p))" "0 \<notin> set (stream (incoming (env p)))" "newline \<in> set (stream (incoming (env p)))"
    and cmd: "0 \<notin> set cmd" "take (length cmd) (line_of (stream (incoming (env p)))) \<noteq> cmd"
    and data: "data = stored (env p) @ line_of (stream (incoming (env p)))" "0 \<notin> set data" "\<forall>u \<in> set (file_chunks data). newline \<in> set u"
    and limit: "length (stream (incoming (env p))) + length data + 1 \<le> limit"
    and fuel: "length (stream (incoming (env p))) + count_list (incoming (env p)) None + length data
      + busy (env p) + 1 < fuel"
  shows "\<exists>cs k. aesdsocket_serve (regular_os f K now lt st) fuel sock name (cmd @ [0]) p
    = Inr (True, p\<lparr>env := (env p)\<lparr>incoming := cs, outgoing := outgoing (env p) @ concat (map line_of (file_chunks data)),
        stored := data, busy := k\<rparr>\<rparr>)"
proof -
  let ?S = "regular_os f K now lt st" and ?bs = "stream (incoming (env p))"
  let ?line = "line_of ?bs"
  have calls: "os_recv ?S sock = session_recv" "os_open ?S name = session_open" "os_close ?S = session_close" by simp_all
  have mem': "memory_ok ?S (card (dom (mem p)) + 2) limit" using mem(1) by simp
  have "length ?bs + 1 \<le> limit" "length ?bs + count_list (incoming (env p)) None < fuel" using limit fuel by simp_all
  note received = serve_receives_line [OF calls regular_quiet mem' mem(2,3) idle(1) peer this, of "cmd @ [0]"]
  obtain s cs h r where
    s: "s = (env p)\<lparr>incoming := cs, files := [5 \<mapsto> (O_RDWR, 0)]\<rparr>"
    and h: "h NULL = None" "card (dom h) < card (dom (mem p)) + 2"
    and serve: "\<And>fd s3 s4. fd \<noteq> - 1 \<Longrightarrow>
      serve_line ?S fuel (?line @ 0 # r) name (cmd @ [0]) 5 (p\<lparr>mem := h, env := s\<rparr>)
        = Inr (True, fd, p\<lparr>mem := h, env := s3\<rparr>) \<Longrightarrow>
      aesdsocket_read_and_send_file ?S fuel sock fd (p\<lparr>mem := h, env := s3\<rparr>)
        = Inr (True, p\<lparr>mem := h, env := s4\<rparr>) \<Longrightarrow>
      aesdsocket_serve ?S fuel sock name (cmd @ [0]) p = Inr (True, p\<lparr>env := session_close fd s4\<rparr>)"
    by (rule received) (rule that, assumption+)
  have frame: "files s = [5 \<mapsto> (O_RDWR, 0)]" "smon s = monitor_clear" "0 < takes s" "stored s = stored (env p)"
    "busy s = busy (env p)" "0 < accepts s" "outgoing s = outgoing (env p)" using s idle by simp_all
  have line: "0 \<notin> set ?line" "is_line ?line" "length ?line \<le> length data"
    using data peer line_of_set [of ?bs] line_of_is_line by auto
  then have "length ?line < 2 ^ 64" "length ?line + busy s < fuel"
    using limit mem(1) fuel frame(5) by (simp_all add: memory_ok_def)
  from serve_line_appends [OF frame(1-3) line(1) this cmd, of f K now lt st r name "p\<lparr>mem := h\<rparr>"]
  obtain k where served: "serve_line ?S fuel (?line @ 0 # r) name (cmd @ [0]) 5 (p\<lparr>mem := h, env := s\<rparr>)
    = Inr (True, 5, p\<lparr>mem := h, env := s\<lparr>stored := data, files := [5 \<mapsto> (O_RDONLY, 0)], busy := k\<rparr>\<rparr>)"
    using data(1) frame(4) by auto
  let ?s3 = "s\<lparr>stored := data, files := [5 \<mapsto> (O_RDONLY, 0)], busy := k\<rparr>"
  have "data \<noteq> []" using data(1) line(2) by (auto simp: is_line_def)
  then have "aesdsocket_read_and_send_file ?S fuel sock 5 (p\<lparr>mem := h, env := ?s3\<rparr>) = Inr (True, p\<lparr>mem := h, env := ?s3\<lparr>
      files := [5 \<mapsto> (O_RDONLY, of_nat (length data))], outgoing := outgoing (env p) @ concat (map line_of (file_chunks data))\<rparr>\<rparr>)"
    using regular_file_first_lines [OF mem(1), of "p\<lparr>mem := h, env := ?s3\<rparr>" 5 O_RDONLY data fuel now lt st sock]
      h mem(3) frame data limit fuel by simp
  from serve [OF _ served this]
  have "aesdsocket_serve ?S fuel sock name (cmd @ [0]) p = Inr (True, p\<lparr>env := session_close 5 (?s3\<lparr>
      files := [5 \<mapsto> (O_RDONLY, of_nat (length data))], outgoing := outgoing (env p) @ concat (map line_of (file_chunks data))\<rparr>)\<rparr>)" by simp
  then show ?thesis
    using idle(1) unfolding s by (intro exI [of _ cs] exI [of _ k]) (cases "env p", simp add: session_close_def)
qed

section \<open>A failure in the middle of a line\<close>

text \<open>\<open>realloc\<close> has moved the block of the previous line when the next read fails: the caller still
  has, and frees, the old address.\<close>

lemma failed_read_keeps_stale_line:
  assumes "q \<noteq> NULL" and "mem p q \<noteq> None" and "os_monitor S Start_reading (env p) = Inr e1"
    and "os_read S fd BUFFSIZE e1 = Inr (Done u, e2)" and "u \<noteq> []" and "length u < BUFFSIZE"
    and "0 \<notin> set u" and "newline \<notin> set u"
    and "os_realloc S (mem p) q (of_nat (length u + 1)) = (q', h)" and "q' \<noteq> NULL" and "h q = None"
    and "h q' = Some block" and "length u \<le> length block"
    and "os_read S fd BUFFSIZE e2 = Inr (Failed, e3)"
  shows "\<exists>p'. send_file_loop S (Suc (Suc n)) socket_fd fd (Suc m) q p = Inr (False, q, p')
    \<and> mem p' q = None"
proof (rule scan_chunk [OF clean_start assms(5,7)])
  show "length u < BUFFSIZE \<or> length u = BUFFSIZE \<and> newline \<in> set u" using assms(6) by simp
next
  fix buffer' found
  assume chunk: "fill (replicate BUFFSIZE 0) u = Inr buffer'" "length buffer' = BUFFSIZE"
    "c_strchr buffer' newline = Inr found" "(found \<noteq> None) = (newline \<in> set u)"
    "take (case found of Some i \<Rightarrow> i + 1 | None \<Rightarrow> length u) buffer' = line_of u"
  then have found: "found = None" "take (length u) buffer' = u" using assms(8) by auto
  let ?block = "u @ drop (length u) block"
  have "c_strncpy block 0 buffer' (length u) = Inr ?block"
    using c_strncpy_text [of "length u" buffer' 0 block] found(2) assms(6,7,13) chunk(2) by simp
  then have append: "append_chunk S buffer' (length u) q 0 (p\<lparr>env := e2\<rparr>)
      = Inr (True, False, q', length u, p\<lparr>env := e2, mem := h(q' \<mapsto> ?block)\<rparr>)"
    using assms(1,2,5,9,10,12) chunk(3) found(1)
    by (simp add: append_chunk_def c_realloc_def)
  have "read_loop S fd (Suc (Suc n)) (replicate BUFFSIZE 0) q 0 (p\<lparr>env := e1\<rparr>)
      = Inr (False, False, q', length u, p\<lparr>env := e3, mem := h(q' \<mapsto> ?block)\<rparr>)"
    using assms(4,5,14) chunk(1) append
    by (simp add: Let_def proc_swap)
  then have "aesdsocket_read_line S (Suc (Suc n)) fd q p
      = Inr (False, q, False, p\<lparr>env := e3, mem := h(q' \<mapsto> ?block)\<rparr>)"
    using assms(1,3) by (simp del: read_loop.simps add: aesdsocket_read_line_def finish_line_def)
  then have "send_file_loop S (Suc (Suc n)) socket_fd fd (Suc m) q p
      = Inr (False, q, p\<lparr>env := e3, mem := h(q' \<mapsto> ?block)\<rparr>)"
    unfolding send_file_loop.simps by simp
  moreover have "(h(q' \<mapsto> ?block)) q = None" using assms(11,12) by auto
  ultimately show ?thesis by (intro exI conjI) (assumption, simp)
qed

end
