(* ===== verification/Server_Regular_Props.thy ===== *)
theory Server_Regular_Props
  imports Server_Regular Server_Main Server_Socket_Props
begin

text \<open>
  The server on a regular file: what a connection is answered with, the timestamps in the file, and a
  read that fails in the middle of a line.
\<close>

section \<open>A connection\<close>

text \<open>C35. Without the character device, a connection stores the received line at the end of the file, but
  is answered with only the first line of each buffer of 1024 bytes (\<open>BUFFSIZE\<close>) of the file: what the
  server has read behind the first newline of a buffer is thrown away. So of a file that fits into one
  buffer the peer gets the first line only. Every buffer contains a newline, which holds
  when no line is longer than a buffer.\<close>

theorem regular_file_loses_lines:
  assumes "memory_ok (session_os f K :: archive os) (card (dom (mem p)) + 2) limit" and "mem p NULL = None"
    and "\<not> termination_flag p" and "files (env p) = Map.empty" and "smon (env p) = monitor_clear"
    and "0 < accepts (env p)" and "0 < takes (env p)" and "chunks_ok (incoming (env p))"
    and "0 \<notin> set (stream (incoming (env p)))" and "newline \<in> set (stream (incoming (env p)))"
    and "line = line_of (stream (incoming (env p)))" and "0 \<notin> set cmd" and "take (length cmd) line \<noteq> cmd"
    and "0 \<notin> set (stored (env p))" and "data = stored (env p) @ line"
    and "\<forall>buffer \<in> set (file_chunks data). newline \<in> set buffer"
    and "length (stream (incoming (env p))) + length data + 1 \<le> limit"
    and "length (stream (incoming (env p))) + count_list (incoming (env p)) None
      + length data + busy (env p) + 1 < fuel"
  shows "\<exists>cs k. aesdsocket_serve (regular_os f K now lt st) fuel sock name (cmd @ [0]) p
    = Inr (True, p\<lparr>env := (env p)\<lparr>incoming := cs,
        outgoing := outgoing (env p) @ concat (map line_of (file_chunks data)), stored := data, busy := k\<rparr>\<rparr>)"
proof -
  have "0 \<notin> set data"
    using assms(9,11,14,15) line_of_set [of "stream (incoming (env p))"] by auto
  from regular_connection [OF assms(1-10,12) assms(13) [unfolded assms(11)] assms(15) [unfolded assms(11)] this assms(16-18)]
  show ?thesis .
qed

lemma file_chunks_small: "bs \<noteq> [] \<Longrightarrow> length bs \<le> BUFFSIZE \<Longrightarrow> file_chunks bs = [bs]"
  by (simp add: file_chunks_step)

text \<open>The file holds ``a'' and ``b'', the disk takes one byte at a time, the first write is
  interrupted; the peer sends ``put''.\<close>

definition demo_archive :: "archive proc" where
  "demo_archive = \<lparr>env = \<lparr>incoming = demo_put, outgoing = [], accepts = 3, files = Map.empty, sockets = {},
       device = demo_world, smon = monitor_clear, stored = [97, 10, 98, 10], takes = 1, busy = 1\<rparr>,
     mem = Map.empty, args = Map.empty, termination_flag = False, timestamp_flag = False\<rparr>"

lemma demo_archive_simps [simp]:
  "env demo_archive = \<lparr>incoming = demo_put, outgoing = [], accepts = 3, files = Map.empty, sockets = {},
     device = demo_world, smon = monitor_clear, stored = [97, 10, 98, 10], takes = 1, busy = 1\<rparr>"
  "mem demo_archive = Map.empty" "\<not> termination_flag demo_archive"
  by (simp_all add: demo_archive_def)

text \<open>The clock shows one o'clock.\<close>

definition demo_time :: tm where
  "demo_time = \<lparr>tm_sec = 0, tm_min = 0, tm_hour = 1, tm_mday = 1, tm_mon = 0, tm_year = 70, tm_wday = 4,
     tm_yday = 0, tm_isdst = 0\<rparr>"

abbreviation demo_regular_os :: "archive os" where
  "demo_regular_os \<equiv> regular_os (simple_realloc 5000) demo_kernel 0 (\<lambda>_. Some demo_time) (\<lambda>_ _ t. [48 + of_int (tm_hour t)])"

theorem regular_file_loses_lines_witness:
  "\<exists>cs k. aesdsocket_serve demo_regular_os 50 4 [0] ([65, 69] @ [0]) demo_archive
    = Inr (True, demo_archive\<lparr>env := (env demo_archive)\<lparr>incoming := cs,
        outgoing := outgoing (env demo_archive) @ [97, 10],
        stored := [97, 10, 98, 10, 112, 117, 116, 10], busy := k\<rparr>\<rparr>)"
proof -
  have mem: "memory_ok (session_os (simple_realloc 5000) demo_kernel :: archive os) (card (dom (mem demo_archive)) + 2) 5000"
    using simple_realloc_ok [of 5000] allocates_fewer [OF simple_realloc_allocates]
    by (auto simp: memory_ok_def)
  have chunks: "file_chunks [97, 10, 98, 10, 112, 117, 116, 10] = [[97, 10, 98, 10, 112, 117, 116, 10]]"
    by (simp add: file_chunks_small BUFFSIZE_def)
  have "line_of [97, 10, 98, 10, 112, 117, 116, 10] = [97, 10]" by (simp add: line_of_def newline_def)
  then have sent: "concat (map line_of (file_chunks [97, 10, 98, 10, 112, 117, 116, 10])) = [97, 10]"
    unfolding chunks by simp
  from mem show ?thesis unfolding sent [symmetric]
    by (rule regular_file_loses_lines [OF _ _ _ _ _ _ _ _ _ _ refl])
      (simp_all del: file_chunks.simps add: demo_put_line newline_def chunks)
qed

section \<open>Timestamps\<close>

text \<open>C12. When the timer's signal has set the flag, the next round of the main loop clears it and
  appends the local time in the requested format as a line of its own, whole even when the
  disk takes it in pieces and signals interrupt the writes; then the loop waits for a peer.\<close>

theorem alarm_appends_timestamp:
  assumes "pl_os P = regular_os f K now lt st" and "pl_accept P (m_sockfd m) = (\<lambda>e. Inr (Interrupted, e))"
    and "m_proc m = aesdsocket_timestamp_handler SIGALRM p" and "files (env p) = Map.empty"
    and "smon (env p) = monitor_clear" and "0 < takes (env p)"
    and "lt now = Some t" and "st fmt BUFFSIZE t = stamp"
    and "stamp \<noteq> []" and "0 \<notin> set stamp" and "length stamp + 1 < BUFFSIZE"
    and "length stamp + 1 + busy (env p) < fuel"
  shows "\<exists>k. accept_round P fuel name fmt seekto m = Inr (True, m\<lparr>m_conn_sockfd := - 1,
      m_proc := p\<lparr>timestamp_flag := False,
        env := (env p)\<lparr>stored := stored (env p) @ stamp @ [newline], busy := k\<rparr>\<rparr>\<rparr>)"
proof -
  let ?q = "p\<lparr>timestamp_flag := True\<rparr>"
  have q: "m_proc m = ?q" using assms(3) by (simp add: aesdsocket_timestamp_handler_def)
  have "deliver_signal (pl_os P) ?q = ?q" using quiet_deliver [OF regular_quiet] assms(1) by simp
  moreover have "\<exists>k. aesdsocket_take_timestamp (pl_os P) fuel fmt name ?q
      = Inr (True, ?q\<lparr>env := (env ?q)\<lparr>stored := stored (env ?q) @ stamp @ [newline], busy := k\<rparr>\<rparr>)"
    unfolding assms(1) by (rule take_timestamp_appends [where t = t]) (use assms in simp_all)
  then obtain k where "aesdsocket_take_timestamp (pl_os P) fuel fmt name ?q
      = Inr (True, ?q\<lparr>env := (env p)\<lparr>stored := stored (env p) @ stamp @ [newline], busy := k\<rparr>\<rparr>)" by auto
  ultimately show ?thesis
    using assms(2) q by (intro exI [of _ k]) (simp add: accept_round_def Let_def)
qed

definition demo_clock_platform :: "archive platform" where
  "demo_clock_platform =
     \<lparr>pl_os = demo_regular_os, pl_fork = (\<lambda>s. Inr (Done 0, s)), pl_setsid = (\<lambda>s. Inr (Done 0, s)),
      pl_chdir = (\<lambda>_ s. Inr (Done 0, s)), pl_open_null = (\<lambda>s. Inr (Done 0, s)),
      pl_dup = (\<lambda>_ s. Inr (Done 0, s)), pl_getaddrinfo = (\<lambda>_ s. (None, s)), pl_freeaddrinfo = id,
      pl_socket = (\<lambda>_ s. Inr (Done 3, s)), pl_setsockopt = (\<lambda>_ s. Inr (Done 0, s)),
      pl_bind = (\<lambda>_ _ s. Inr (Done 0, s)), pl_listen = (\<lambda>_ _ s. Inr (Done 0, s)),
      pl_accept = (\<lambda>_ s. Inr (Interrupted, s)), pl_inet_ntop = (\<lambda>_ _. None),
      pl_sigaddset = (\<lambda>_ s. Inr (Done 0, s)), pl_sigaction = (\<lambda>_ s. Inr (Done 0, s)),
      pl_timer_create = (\<lambda>s. Inr (Done 1, s)), pl_timer_settime = (\<lambda>_ _ s. Inr (Done 0, s)),
      pl_timer_delete = (\<lambda>_. id), pl_queue = None, pl_monitor = True,
      pl_malloc_arg = (\<lambda>_. (NULL, \<lparr>conn_sockfd = 0, filename = NULL, remote_name = NULL, seekto_command = []\<rparr>)),
      pl_malloc_node = (\<lambda>_. NULL), pl_pthread_create = (\<lambda>_ p. Inr (None, p)), pl_pthread_join = (\<lambda>_ s. s),
      pl_remove = (\<lambda>_ s. s)\<rparr>"

theorem alarm_appends_timestamp_witness:
  "\<exists>k. accept_round demo_clock_platform 9 (FILENAME False) STAMPFORMAT SEEKTO_COMMAND
      (main_locals (aesdsocket_timestamp_handler SIGALRM demo_archive))
    = Inr (True, (main_locals (aesdsocket_timestamp_handler SIGALRM demo_archive))\<lparr>m_conn_sockfd := - 1,
      m_proc := demo_archive\<lparr>timestamp_flag := False,
        env := (env demo_archive)\<lparr>stored := stored (env demo_archive) @ [49] @ [newline], busy := k\<rparr>\<rparr>\<rparr>)"
  by (rule alarm_appends_timestamp [where f = "simple_realloc 5000" and K = demo_kernel and now = 0
        and lt = "\<lambda>_. Some demo_time" and st = "\<lambda>_ _ t. [48 + of_int (tm_hour t)]" and t = demo_time])
    (simp_all add: demo_clock_platform_def main_locals_def demo_time_def BUFFSIZE_def)

section \<open>A failing read\<close>

text \<open>When \<open>realloc\<close> has moved the block of the previous line and the next read fails,
  \<open>aesdsocket_read_line\<close> leaves the caller with the old address, and
  \<open>aesdsocket_read_and_send_file\<close> ends by freeing it a second time.\<close>

lemma failed_read_frees_twice:
  assumes "q \<noteq> NULL" and "mem p q \<noteq> None" and "os_monitor S Start_reading (env p) = Inr e1"
    and "os_read S fd BUFFSIZE e1 = Inr (Done u, e2)" and "u \<noteq> []" and "length u < BUFFSIZE"
    and "0 \<notin> set u" and "newline \<notin> set u"
    and "os_realloc S (mem p) q (of_nat (length u + 1)) = (q', h)" and "q' \<noteq> NULL" and "h q = None"
    and "h q' = Some block" and "length u \<le> length block"
    and "os_read S fd BUFFSIZE e2 = Inr (Failed, e3)"
  shows "\<exists>p'. send_file_loop S (Suc (Suc n)) socket_fd fd (Suc m) q p = Inr (False, q, p')
    \<and> c_free (mem p') q = Inl Bad_free"
proof -
  obtain p' where "send_file_loop S (Suc (Suc n)) socket_fd fd (Suc m) q p = Inr (False, q, p')"
    "mem p' q = None" using failed_read_keeps_stale_line [OF assms] by blast
  then show ?thesis using assms(1) by (intro exI [of _ p']) (simp add: c_free_def)
qed

text \<open>A file that delivers one byte and then fails, and a \<open>realloc\<close> that always moves.\<close>

definition failing_os :: "nat os" where
  "failing_os = \<lparr>os_realloc = (\<lambda>h p n. (p + 1, h(p := None, p + 1 \<mapsto> replicate (unat n) 0))),
     os_signal = (\<lambda>e. (None, e)), os_recv = (\<lambda>_ _ e. Inr (Failed, e)), os_send = (\<lambda>_ _ e. Inr (Failed, e)),
     os_read = (\<lambda>_ _ e. Inr (if e = 0 then Done [97] else Failed, Suc e)),
     os_write = (\<lambda>_ _ e. Inr (Failed, e)), os_open = (\<lambda>_ _ e. Inr (Failed, e)), os_close = (\<lambda>_ e. e),
     os_ioctl_seekto = (\<lambda>_ _ e. Inr (Failed, e)), os_monitor = (\<lambda>_ e. Inr e),
     os_clock = (\<lambda>e. Inr (Failed, e)), os_localtime = (\<lambda>_. None), os_strftime = (\<lambda>_ _ _. [])\<rparr>"

lemma failed_read_frees_twice_witness:
  "\<exists>p'. send_file_loop failing_os (Suc (Suc 3)) 4 5 (Suc 2) 7
      \<lparr>env = 0, mem = [7 \<mapsto> [98, 10, 0]], args = Map.empty, termination_flag = False, timestamp_flag = False\<rparr>
      = Inr (False, 7, p')
    \<and> c_free (mem p') 7 = Inl Bad_free"
  by (rule failed_read_frees_twice [where ?e1.0 = 0 and ?e2.0 = 1 and ?e3.0 = 2 and q' = 8 and u = "[97]" and block = "replicate 2 0"
        and h = "[7 \<mapsto> [98, 10, 0]](7 := None, 8 \<mapsto> replicate 2 0)"])
    (simp_all add: failing_os_def newline_def BUFFSIZE_def)

end
