(* ===== verification/Server_Main_Props.thy ===== *)
theory Server_Main_Props
  imports Server_Main Server_Socket_Props
begin

text \<open>
  The properties of the main loop: what a new thread is given, and what goes wrong when it cannot
  be started.
\<close>

section \<open>A concrete platform\<close>

text \<open>Every call succeeds; \<open>malloc\<close> returns the block \<open>1\<close>, with \<open>garbage\<close> in it, for a thread
  argument and \<open>node\<close> for a list node; \<open>create\<close> is \<open>pthread_create\<close>.\<close>

definition demo_platform ::
  "aesdsocket_thread_arg \<Rightarrow> ptr \<Rightarrow> (session proc \<Rightarrow> session proc) \<Rightarrow> session platform" where
  "demo_platform garbage node create =
     \<lparr>pl_os = demo_os, pl_fork = (\<lambda>s. Inr (Done 0, s)), pl_setsid = (\<lambda>s. Inr (Done 0, s)),
      pl_chdir = (\<lambda>_ s. Inr (Done 0, s)), pl_open_null = (\<lambda>s. Inr (Done 0, s)),
      pl_dup = (\<lambda>_ s. Inr (Done 0, s)), pl_getaddrinfo = (\<lambda>_ s. (None, s)), pl_freeaddrinfo = id,
      pl_socket = (\<lambda>_ s. Inr (Done 3, s)), pl_setsockopt = (\<lambda>_ s. Inr (Done 0, s)),
      pl_bind = (\<lambda>_ _ s. Inr (Done 0, s)), pl_listen = (\<lambda>_ _ s. Inr (Done 0, s)),
      pl_accept = (\<lambda>_ s. Inr (Interrupted, s)), pl_inet_ntop = (\<lambda>_ _. Some [49, 0]),
      pl_sigaddset = (\<lambda>_ s. Inr (Done 0, s)), pl_sigaction = (\<lambda>_ s. Inr (Done 0, s)),
      pl_timer_create = (\<lambda>s. Inr (Done 1, s)), pl_timer_settime = (\<lambda>_ _ s. Inr (Done 0, s)),
      pl_timer_delete = (\<lambda>_. id), pl_queue = None, pl_monitor = True, pl_malloc_arg = (\<lambda>_. (1, garbage)),
      pl_malloc_node = (\<lambda>_. node), pl_pthread_create = (\<lambda>_ p. Inr (Some 7, create p)),
      pl_pthread_join = (\<lambda>_ s. s), pl_remove = (\<lambda>_ s. s)\<rparr>"

definition demo_garbage :: aesdsocket_thread_arg where
  "demo_garbage = \<lparr>conn_sockfd = 0, filename = 99, remote_name = 98, seekto_command = []\<rparr>"

definition demo_main :: "session main_state" where
  "demo_main = (main_locals (demo_proc []))\<lparr>m_thread_queue := Some demo_list\<rparr>"

section \<open>Starting a thread\<close>

lemma make_thread_arg_made:
  assumes "make_thread_arg P fd (name @ [0]) (remote @ 0 # pad) seekto p = Inr (True, a, p1)"
    and "realloc_ok bound (os_realloc (pl_os P))" and "mem p NULL = None"
    and "0 \<notin> set name" and "length name < 2 ^ 63" and "0 \<notin> set remote" and "length remote \<le> INET6_ADDRSTRLEN"
  obtains f r where "a \<noteq> NULL"
    and "args p1 a = Some \<lparr>conn_sockfd = fd, filename = f, remote_name = r, seekto_command = seekto\<rparr>"
    and "mem p f = None" and "mem p r = None" and "f \<noteq> r"
    and "\<exists>x. mem p1 f = Some (name @ 0 # x)" and "\<exists>x. mem p1 r = Some (remote @ 0 # x)"
proof -
  obtain garbage f h r h' where g: "pl_malloc_arg P (args p) = (a, garbage)" "a \<noteq> NULL"
    and f: "c_strdup (os_realloc (pl_os P)) (mem p) (name @ [0]) = Inr (f, h)" "f \<noteq> NULL"
    and r: "c_strndup (os_realloc (pl_os P)) h (remote @ 0 # pad) INET6_ADDRSTRLEN = Inr (r, h')" "r \<noteq> NULL"
    and p1: "p1 = p\<lparr>mem := h', args := (args p)(a \<mapsto>
        garbage\<lparr>conn_sockfd := fd, filename := f, remote_name := r, seekto_command := seekto\<rparr>)\<rparr>"
    using assms(1) by (auto simp: make_thread_arg_def Let_def split: if_splits prod.splits)
  note copy_f = c_strdup_copies [OF f(1,2) assms(2,3,4,5)]
  obtain x where h: "h = (mem p)(f \<mapsto> name @ 0 # x)" using copy_f(2) by blast
  have "h NULL = None" using h assms(3) f(2) by simp
  moreover have "length remote < 2 ^ 63" using assms(7) by (simp add: INET6_ADDRSTRLEN_def)
  ultimately have hr: "h r = None" and "\<exists>y. h' = h(r \<mapsto> remote @ 0 # y)"
    using c_strndup_copies [OF r(1,2) assms(2) _ assms(6,7)] by blast+
  then obtain y where h': "h' = h(r \<mapsto> remote @ 0 # y)" by blast
  have "f \<noteq> r" "mem p r = None" using hr h by (auto split: if_splits)
  then show thesis
    using that [of f r] g(2) copy_f(1) p1 h h' by (cases garbage) auto
qed

text \<open>C10. When a connection is started, the thread gets an argument of its own: the descriptor, the
  name of the seek request, and copies of the file name and of the peer's name in two new
  blocks that nothing else in the process holds; its identifier joins the queue behind the older
  ones, and the main thread lets go of the argument.\<close>

theorem connection_gets_own_argument:
  assumes "start_connection P fuel (name @ [0]) seekto fd addr m = Inr (True, m')"
    and "realloc_ok bound (os_realloc (pl_os P))" and "mem (m_proc m) NULL = None"
    and "0 \<notin> set name" and "length name < 2 ^ 63"
    and "pl_inet_ntop P addr (aesdsocket_get_in_addr addr) = Some (remote @ 0 # pad)"
    and "0 \<notin> set remote" and "length remote \<le> INET6_ADDRSTRLEN"
    and "m_thread_queue m = Some q" and "queue_holds q ts" and "fresh_for_queue (pl_malloc_node P q) q"
  shows "\<exists>a f r t p1. pl_pthread_create P
        (\<lambda>p. andThen (aesdsocket_start_thread (pl_os P) fuel a p) (\<lambda>(_, p'). Inr p')) p1
      = Inr (Some t, m_proc m')
    \<and> args p1 a = Some \<lparr>conn_sockfd = fd, filename = f, remote_name = r, seekto_command = seekto\<rparr>
    \<and> f \<noteq> r \<and> mem (m_proc m) f = None \<and> mem (m_proc m) r = None
    \<and> (\<exists>x. mem p1 f = Some (name @ 0 # x)) \<and> (\<exists>x. mem p1 r = Some (remote @ 0 # x))
    \<and> m_thread_arg m' = NULL \<and> (\<exists>q'. m_thread_queue m' = Some q' \<and> queue_holds q' (ts @ [t]))"
proof -
  obtain a p1 where made: "make_thread_arg P fd (name @ [0]) (remote @ 0 # pad) seekto (m_proc m) = Inr (True, a, p1)"
    using assms(1,6) by (auto simp: start_connection_def Let_def split: if_splits)
  then obtain t p2 q' where
    created: "pl_pthread_create P
        (\<lambda>p. andThen (aesdsocket_start_thread (pl_os P) fuel a p) (\<lambda>(_, p'). Inr p')) p1 = Inr (Some t, p2)"
    and queued: "queue_enqueue (pl_malloc_node P q) q t = Inr (True, q')"
    and m': "m_proc m' = p2" "m_thread_arg m' = NULL" "m_thread_queue m' = Some q'"
    using assms(1,6,9) by (auto simp: start_connection_def Let_def split: if_splits option.splits)
  have "queue_holds q' (ts @ [t])" using tq.enq_adds [OF assms(10,11), of t] queued by auto
  with created m' show ?thesis
    by (rule_tac make_thread_arg_made [OF made assms(2,3,4,5,7,8)]) blast
qed

lemma demo_strdup:
  "c_strdup (simple_realloc 5000) Map.empty [97, 0] = Inr (1, [1 \<mapsto> [97, 0]])"
  "c_strndup (simple_realloc 5000) [1 \<mapsto> [97, 0]] [49, 0] INET6_ADDRSTRLEN
     = Inr (2, [1 \<mapsto> [97, 0], 2 \<mapsto> [49, 0]])"
  by (simp_all add: c_strdup_def c_strndup_def c_realloc_def simple_realloc_def first_free_def
      INET6_ADDRSTRLEN_def upt_conv_Cons deref_def Let_def)

definition demo_argument :: aesdsocket_thread_arg where
  "demo_argument = \<lparr>conn_sockfd = 4, filename = 1, remote_name = 2, seekto_command = [65, 0]\<rparr>"

lemma demo_make_thread_arg:
  "make_thread_arg (demo_platform demo_garbage node create) 4 [97, 0] [49, 0] [65, 0] (demo_proc [])
    = Inr (True, 1, demo_proc []\<lparr>mem := [1 \<mapsto> [97, 0], 2 \<mapsto> [49, 0]], args := [1 \<mapsto> demo_argument]\<rparr>)"
  using demo_strdup
  by (simp add: make_thread_arg_def demo_platform_def demo_garbage_def demo_argument_def
      demo_proc_def Let_def)

lemma demo_start_connection:
  assumes "queue_enqueue node demo_list 7 = Inr (queued, q')"
  shows "start_connection (demo_platform demo_garbage node create) 9 [97, 0] [65, 0] 4 (Sockaddr_in []) demo_main
    = Inr (queued, demo_main\<lparr>
        m_proc := create (demo_proc []\<lparr>mem := [1 \<mapsto> [97, 0], 2 \<mapsto> [49, 0]], args := [1 \<mapsto> demo_argument]\<rparr>),
        m_thread_queue := Some q', m_thread_arg := if queued then NULL else 1\<rparr>)"
proof -
  have "pl_inet_ntop (demo_platform demo_garbage node create) sa x = Some [49, 0]" for sa x
    by (simp add: demo_platform_def)
  moreover have "pl_pthread_create (demo_platform demo_garbage node create) x p = Inr (Some 7, create p)" for x p
    by (simp add: demo_platform_def)
  moreover have "pl_malloc_node (demo_platform demo_garbage node create) x = node" for x
    by (simp add: demo_platform_def)
  moreover have "m_proc demo_main = demo_proc []" "m_thread_queue demo_main = Some demo_list"
    by (simp_all add: demo_main_def main_locals_def)
  ultimately show ?thesis
    using assms by (simp add: start_connection_def demo_make_thread_arg Let_def)
qed

theorem connection_gets_own_argument_witness:
  "\<exists>m'. start_connection (demo_platform demo_garbage 5 id) 9 ([97] @ [0]) [65, 0] 4 (Sockaddr_in []) demo_main
      = Inr (True, m')
    \<and> (\<exists>a f r t p1. pl_pthread_create (demo_platform demo_garbage 5 id)
        (\<lambda>p. andThen (aesdsocket_start_thread (pl_os (demo_platform demo_garbage 5 id)) 9 a p) (\<lambda>(_, p'). Inr p')) p1
      = Inr (Some t, m_proc m')
    \<and> args p1 a = Some \<lparr>conn_sockfd = 4, filename = f, remote_name = r, seekto_command = [65, 0]\<rparr>
    \<and> f \<noteq> r \<and> mem (m_proc demo_main) f = None \<and> mem (m_proc demo_main) r = None
    \<and> (\<exists>x. mem p1 f = Some ([97] @ 0 # x)) \<and> (\<exists>x. mem p1 r = Some ([49] @ 0 # x))
    \<and> m_thread_arg m' = NULL
    \<and> (\<exists>q'. m_thread_queue m' = Some q' \<and> queue_holds q' ([14, 13, 12, 11] @ [t])))"
proof -
  obtain q' where q': "queue_enqueue 5 demo_list 7 = Inr (True, q')"
    using tq.enq_adds [OF demo_queue_holds demo_fresh(2), of 7] by blast
  let ?P = "demo_platform demo_garbage 5 id :: session platform"
  obtain m' where m': "start_connection ?P 9 ([97] @ [0]) [65, 0] 4 (Sockaddr_in []) demo_main = Inr (True, m')"
    using demo_start_connection [OF q', of id] by auto
  have P: "os_realloc (pl_os ?P) = simple_realloc 5000" "pl_malloc_node ?P q = 5"
    "pl_inet_ntop ?P sa x = Some ([49] @ 0 # [])" for q sa x
    by (simp_all add: demo_platform_def)
  have "realloc_ok 5000 (os_realloc (pl_os ?P))" unfolding P by (rule simple_realloc_ok)
  moreover have "mem (m_proc demo_main) NULL = None" "m_thread_queue demo_main = Some demo_list"
    by (simp_all add: demo_main_def main_locals_def)
  moreover have "fresh_for_queue (pl_malloc_node ?P demo_list) demo_list" unfolding P by (rule demo_fresh(2))
  ultimately show ?thesis
    using m' connection_gets_own_argument [OF m' _ _ _ _ P(3) _ _ _ demo_queue_holds]
    by (simp add: INET6_ADDRSTRLEN_def)
qed

section \<open>Failures while starting a thread\<close>

lemma queue_enqueue_no_memory: "queue_enqueue NULL q t = Inr (False, q)"
  by (simp add: queue_enqueue_def doubly_linked_list_insert_head_def insert_new_node_def node_new_def)

text \<open>The end of the loop up to the thread argument: the threads in the queue are joined.\<close>

lemma mainloop_done_joined:
  assumes "m_thread_queue m = Some q" and "queue_holds q ts" and "length ts \<le> fuel"
    and "\<And>e. free_thread_arg (m_thread_arg m) ((m_proc m)\<lparr>env := e\<rparr>) = Inl s"
  shows "mainloop_done P fuel name reg m = Inl s"
proof -
  let ?e = "if m_timer m \<noteq> NULL then pl_timer_delete P (m_timer m) (env (m_proc m)) else env (m_proc m)"
  obtain q' where drained: "drain queue_is_empty queue_dequeue (pl_pthread_join P) fuel q ?e
      = Inr (q', fold (pl_pthread_join P) ts ?e)" and "queue_holds q' []"
    using tq.drain_in_order [OF assms(2,3), where act = "pl_pthread_join P" and w = ?e] by blast
  then have destroyed: "queue_destroy q' = Inr ()" using queue_emptied by blast
  show ?thesis
    unfolding mainloop_done_def Let_def assms(1) option.case drained andThen.simps prod.case destroyed
      assms(4) by (rule refl)
qed

text \<open>C36. When the thread has been created but its identifier cannot be queued, the main thread
  frees the argument that the thread has taken over and freed: it reads a block that is gone.\<close>

theorem failed_enqueue_uses_freed_argument:
  assumes "pl_inet_ntop P addr (aesdsocket_get_in_addr addr) = Some remote"
    and "make_thread_arg P fd name remote seekto (m_proc m) = Inr (True, a, p1)"
    and "pl_pthread_create P
        (\<lambda>p. andThen (aesdsocket_start_thread (pl_os P) fuel a p) (\<lambda>(_, p'). Inr p')) p1 = Inr (Some t, p2)"
    and "args p2 a = None" and "m_thread_queue m = Some q" and "queue_holds q ts"
    and "length ts \<le> fuel'" and "pl_malloc_node P q = NULL"
  shows "\<exists>m'. start_connection P fuel name seekto fd addr m = Inr (False, m')
    \<and> mainloop_done P fuel' name is_regular_file m' = Inl Dangling"
proof -
  let ?m = "m\<lparr>m_proc := p2, m_thread_arg := a, m_thread_queue := Some q\<rparr>"
  have "a \<noteq> NULL" using assms(2) by (auto simp: make_thread_arg_def Let_def split: if_splits prod.splits)
  then have "free_thread_arg (m_thread_arg ?m) ((m_proc ?m)\<lparr>env := e\<rparr>) = Inl Dangling" for e
    using assms(4) by (simp add: free_thread_arg_def)
  then have "mainloop_done P fuel' name is_regular_file ?m = Inl Dangling"
    using assms(6,7) by (intro mainloop_done_joined) simp_all
  moreover have "start_connection P fuel name seekto fd addr m = Inr (False, ?m)"
    using assms(1-3,5,8) by (simp add: start_connection_def queue_enqueue_no_memory Let_def)
  ultimately show ?thesis by blast
qed

theorem failed_enqueue_uses_freed_argument_witness:
  "\<exists>m'. start_connection (demo_platform demo_garbage NULL (\<lambda>p. p\<lparr>args := Map.empty\<rparr>)) 9 [97, 0] [65, 0] 4
      (Sockaddr_in []) demo_main = Inr (False, m')
    \<and> mainloop_done (demo_platform demo_garbage NULL (\<lambda>p. p\<lparr>args := Map.empty\<rparr>)) 4 [97, 0] False m' = Inl Dangling"
proof -
  let ?P = "demo_platform demo_garbage NULL (\<lambda>p. p\<lparr>args := Map.empty\<rparr>)"
  have P: "pl_inet_ntop ?P sa x = Some [49, 0]" "pl_malloc_node ?P q = NULL"
    "pl_pthread_create ?P f p = Inr (Some 7, p\<lparr>args := Map.empty\<rparr>)" for sa x q f p
    by (simp_all add: demo_platform_def)
  have m: "m_proc demo_main = demo_proc []" "m_thread_queue demo_main = Some demo_list"
    by (simp_all add: demo_main_def main_locals_def)
  show ?thesis
    by (rule failed_enqueue_uses_freed_argument [OF P(1) demo_make_thread_arg [folded m(1)] P(3) _ m(2) demo_queue_holds _ P(2)])
      simp_all
qed

text \<open>When the copy of the file name fails, the field for the peer's name still has what
  \<open>malloc\<close> left there, and the main thread frees it.\<close>

lemma unset_field_is_freed:
  assumes "pl_inet_ntop P addr (aesdsocket_get_in_addr addr) = Some remote"
    and "pl_malloc_arg P (args (m_proc m)) = (a, garbage)" and "a \<noteq> NULL"
    and "c_strdup (os_realloc (pl_os P)) (mem (m_proc m)) name = Inr (NULL, h)"
    and "remote_name garbage \<noteq> NULL" and "h (remote_name garbage) = None"
    and "m_thread_queue m = Some q" and "queue_holds q ts" and "length ts \<le> fuel'"
  shows "\<exists>m'. start_connection P fuel name seekto fd addr m = Inr (False, m')
    \<and> mainloop_done P fuel' name is_regular_file m' = Inl Bad_free"
proof -
  let ?arg = "garbage\<lparr>conn_sockfd := fd, filename := NULL\<rparr>"
  let ?p = "(m_proc m)\<lparr>mem := h, args := (args (m_proc m))(a \<mapsto> ?arg)\<rparr>"
  let ?m = "m\<lparr>m_proc := ?p, m_thread_arg := a\<rparr>"
  have "free_thread_arg (m_thread_arg ?m) ((m_proc ?m)\<lparr>env := e\<rparr>) = Inl Bad_free" for e
    using assms(3,5,6) by (simp add: free_thread_arg_def c_free_def)
  then have "mainloop_done P fuel' name is_regular_file ?m = Inl Bad_free"
    using assms(7-9) by (intro mainloop_done_joined) simp_all
  moreover have "start_connection P fuel name seekto fd addr m = Inr (False, ?m)"
    using assms(1-4) by (simp add: start_connection_def make_thread_arg_def Let_def)
  ultimately show ?thesis by blast
qed

lemma unset_field_is_freed_witness:
  "\<exists>m'. start_connection (demo_platform demo_garbage 5 id) 9 (replicate 6000 97 @ [0]) [65, 0] 4 (Sockaddr_in [])
      demo_main = Inr (False, m')
    \<and> mainloop_done (demo_platform demo_garbage 5 id) 4 (replicate 6000 97 @ [0]) False m' = Inl Bad_free"
proof -
  let ?P = "demo_platform demo_garbage 5 id :: session platform"
  have P: "pl_inet_ntop ?P sa x = Some [49, 0]" "pl_malloc_arg ?P as = (1, demo_garbage)"
    "os_realloc (pl_os ?P) = simple_realloc 5000" for sa x as
    by (simp_all add: demo_platform_def)
  have m: "mem (m_proc demo_main) = Map.empty" "m_thread_queue demo_main = Some demo_list"
    by (simp_all add: demo_main_def main_locals_def)
  have "unat (of_nat 6001 :: u64) = 6001" by (intro unat_of_nat_u64) simp
  then have "simple_realloc 5000 Map.empty NULL (of_nat (6000 + 1)) = (NULL, Map.empty)"
    by (simp add: simple_realloc_def Let_def)
  moreover have "c_strlen (replicate 6000 97 @ [0]) = Inr 6000"
    using c_strlen_text [of "replicate 6000 97" "[]"] by simp
  ultimately have "c_strdup (simple_realloc 5000) Map.empty (replicate 6000 97 @ [0]) = Inr (NULL, Map.empty)"
    by (simp add: c_strdup_def c_strndup_def c_realloc_def)
  then show ?thesis
    using m P by (intro unset_field_is_freed [OF P(1,2) _ _ _ _ m(2) demo_queue_holds])
      (simp_all add: demo_garbage_def)
qed

end
