(* ===== verification/Server_Release.thy ===== *)
theory Server_Release
  imports Server_Main
begin

text \<open>
  What the main loop holds and gives back when calls fail: on a network in which every call succeeds
  or fails as a list of verdicts says, all ways through \<open>aesdsocket_mainloop\<close> that accept no
  connection return what they have acquired, but for a timer whose identifier is \<open>NULL\<close>.
\<close>

section \<open>A network that fails on demand\<close>

text \<open>Each call succeeds or fails as the next of the \<open>verdicts\<close> says; with the open sockets, the
  number of address lists that have not been freed, and the identifiers of the timers.\<close>

record network =
  verdicts :: "bool list"
  socks :: "int list"
  infos :: nat
  timers :: "ptr list"

definition verdict :: "network \<Rightarrow> bool \<times> network" where
  "verdict e = (case verdicts e of [] \<Rightarrow> (True, e) | v # vs \<Rightarrow> (v, e\<lparr>verdicts := vs\<rparr>))"

definition net_call :: "network \<Rightarrow> stop + (int io \<times> network)" where
  "net_call e = (case verdict e of (v, e') \<Rightarrow> Inr (if v then Done 0 else Failed, e'))"

definition net_socket :: "network \<Rightarrow> stop + (int io \<times> network)" where
  "net_socket e =
     (case verdict e of (v, e') \<Rightarrow>
        let fd = int (length (socks e')) + 3
        in Inr (if v then (Done fd, e'\<lparr>socks := fd # socks e'\<rparr>) else (Failed, e')))"

definition net_getaddrinfo :: "addrinfo \<Rightarrow> network \<Rightarrow> addrinfo option \<times> network" where
  "net_getaddrinfo info e =
     (case verdict e of (v, e') \<Rightarrow>
        if v then (Some info, e'\<lparr>infos := infos e' + 1\<rparr>) else (None, e'))"

text \<open>\<open>t\<close> is the identifier the kernel and its library choose for the timer.\<close>

definition net_timer :: "ptr \<Rightarrow> network \<Rightarrow> stop + (ptr io \<times> network)" where
  "net_timer t e =
     (case verdict e of (v, e') \<Rightarrow>
        Inr (if v then (Done t, e'\<lparr>timers := t # timers e'\<rparr>) else (Failed, e')))"

text \<open>No peer connects: \<open>accept\<close> is interrupted, or fails, at the latest when the verdicts end.\<close>

definition net_accept :: "network \<Rightarrow> stop + ((int \<times> sockaddr) io \<times> network)" where
  "net_accept e =
     Inr (case verdicts e of [] \<Rightarrow> (Failed, e)
          | v # vs \<Rightarrow> (if v then Interrupted else Failed, e\<lparr>verdicts := vs\<rparr>))"

definition net_os :: "network os" where
  "net_os =
     \<lparr>os_realloc = (\<lambda>h p n. (NULL, h)), os_signal = (\<lambda>e. (None, e)), os_recv = (\<lambda>_ _ e. Inr (Failed, e)),
      os_send = (\<lambda>_ _ e. Inr (Failed, e)), os_read = (\<lambda>_ _ e. Inr (Failed, e)),
      os_write = (\<lambda>_ _ e. Inr (Failed, e)), os_open = (\<lambda>_ _ e. Inr (Failed, e)),
      os_close = (\<lambda>fd e. e\<lparr>socks := remove1 fd (socks e)\<rparr>), os_ioctl_seekto = (\<lambda>_ _ e. Inr (Failed, e)),
      os_monitor = (\<lambda>_ e. Inr e), os_clock = (\<lambda>e. Inr (Failed, e)), os_localtime = (\<lambda>_. None),
      os_strftime = (\<lambda>_ _ _. [])\<rparr>"

text \<open>\<open>queue\<close> and \<open>got\<close>: whether there is memory for the queue and the monitor.\<close>

definition net_platform :: "addrinfo \<Rightarrow> ptr \<Rightarrow> bool \<Rightarrow> bool \<Rightarrow> network platform" where
  "net_platform info t queue got =
     \<lparr>pl_os = net_os, pl_fork = net_call, pl_setsid = net_call, pl_chdir = (\<lambda>_. net_call),
      pl_open_null = net_call, pl_dup = (\<lambda>_. net_call), pl_getaddrinfo = (\<lambda>_. net_getaddrinfo info),
      pl_freeaddrinfo = (\<lambda>e. e\<lparr>infos := infos e - 1\<rparr>), pl_socket = (\<lambda>_. net_socket),
      pl_setsockopt = (\<lambda>_. net_call), pl_bind = (\<lambda>_ _. net_call), pl_listen = (\<lambda>_ _. net_call),
      pl_accept = (\<lambda>_. net_accept), pl_inet_ntop = (\<lambda>_ _. None),
      pl_sigaddset = (\<lambda>_. net_call), pl_sigaction = (\<lambda>_. net_call),
      pl_timer_create = net_timer t, pl_timer_settime = (\<lambda>_ _. net_call),
      pl_timer_delete = (\<lambda>t e. e\<lparr>timers := remove1 t (timers e)\<rparr>),
      pl_queue = (if queue then Some \<lparr>head = NULL, tail = NULL, dsize = 0, nodes = Map.empty\<rparr> else None),
      pl_monitor = got,
      pl_malloc_arg = (\<lambda>_. (NULL, \<lparr>conn_sockfd = 0, filename = NULL, remote_name = NULL, seekto_command = []\<rparr>)),
      pl_malloc_node = (\<lambda>_. NULL), pl_pthread_create = (\<lambda>_ p. Inr (None, p)), pl_pthread_join = (\<lambda>_ e. e),
      pl_remove = (\<lambda>_ e. e)\<rparr>"

lemma net_platform_simps [simp]:
  "pl_fork (net_platform info t queue got) = net_call" "pl_setsid (net_platform info t queue got) = net_call"
  "pl_chdir (net_platform info t queue got) d = net_call" "pl_open_null (net_platform info t queue got) = net_call"
  "pl_dup (net_platform info t queue got) fd = net_call"
  "pl_getaddrinfo (net_platform info t queue got) port = net_getaddrinfo info"
  "pl_freeaddrinfo (net_platform info t queue got) e = e\<lparr>infos := infos e - 1\<rparr>"
  "pl_socket (net_platform info t queue got) f = net_socket" "pl_setsockopt (net_platform info t queue got) fd = net_call"
  "pl_bind (net_platform info t queue got) fd a = net_call" "pl_listen (net_platform info t queue got) fd backlog = net_call"
  "pl_accept (net_platform info t queue got) fd = net_accept" "pl_sigaddset (net_platform info t queue got) n = net_call"
  "pl_sigaction (net_platform info t queue got) n = net_call" "pl_timer_create (net_platform info t queue got) = net_timer t"
  "pl_timer_settime (net_platform info t queue got) t' k = net_call"
  "pl_timer_delete (net_platform info t queue got) t' e = e\<lparr>timers := remove1 t' (timers e)\<rparr>"
  "pl_remove (net_platform info t queue got) name e = e" "pl_monitor (net_platform info t queue got) = got"
  "os_close (pl_os (net_platform info t queue got)) fd e = e\<lparr>socks := remove1 fd (socks e)\<rparr>"
  "os_signal (pl_os (net_platform info t queue got)) e = (None, e)"
  by (simp_all add: net_platform_def net_os_def)

section \<open>What the calls change\<close>

text \<open>Same sockets, address lists and timers, and no more verdicts than before.\<close>

definition keeps :: "network \<Rightarrow> network \<Rightarrow> bool" where
  "keeps e e' \<longleftrightarrow> socks e' = socks e \<and> infos e' = infos e \<and> timers e' = timers e
     \<and> length (verdicts e') \<le> length (verdicts e)"

lemma keeps_refl [simp]: "keeps e e"
  by (simp add: keeps_def)

lemma keeps_trans: "keeps e e1 \<Longrightarrow> keeps e1 e2 \<Longrightarrow> keeps e e2"
  by (simp add: keeps_def)

lemma verdict_keeps: "verdict e = (v, e') \<Longrightarrow> keeps e e'"
  by (auto simp: verdict_def keeps_def split: list.splits)

lemma net_calls: "set calls \<subseteq> {net_call} \<Longrightarrow> \<exists>ok e'. try_all calls e = Inr (ok, e') \<and> keeps e e'"
proof (induction calls arbitrary: e)
  case (Cons call calls)
  obtain v e1 where v: "verdict e = (v, e1)" by fastforce
  have call: "call = net_call" and rest: "set calls \<subseteq> {net_call}" using Cons.prems by auto
  obtain ok e2 where "try_all calls e1 = Inr (ok, e2)" "keeps e1 e2" using Cons.IH [OF rest] by blast
  with v call keeps_trans [OF verdict_keeps [OF v]] verdict_keeps [OF v] show ?case
    by (cases v) (auto simp: net_call_def)
qed (auto intro: exI [of _ True])

lemma net_timer_held:
  "\<exists>v e'. try_errno (net_timer t e) = Inr (if v then Some t else None, e')
     \<and> keeps (e\<lparr>timers := (if v then [t] else []) @ timers e\<rparr>) e'"
proof -
  obtain v e1 where v: "verdict e = (v, e1)" by fastforce
  then show ?thesis using verdict_keeps [OF v] by (cases v) (auto simp: net_timer_def keeps_def)
qed

section \<open>The listening socket\<close>

text \<open>Whichever of its calls fail, opening the listening socket returns, frees its list of
  addresses, and leaves exactly one new open socket, the one it hands out, on success and none
  on failure.\<close>

lemma listening_socket_never_leaks:
  "\<exists>ok sockfd e'. aesdsocket_open_listening_socket (net_platform info t queue got) port backlog e = Inr (ok, sockfd, e')
    \<and> (if ok then \<exists>fd. sockfd = Some fd \<and> fd \<noteq> - 1 \<and> keeps (e\<lparr>socks := fd # socks e\<rparr>) e'
       else sockfd = None \<and> keeps e e')"
proof -
  let ?P = "net_platform info t queue got"
  obtain v e1 where v: "verdict e = (v, e1)" by fastforce
  show ?thesis
  proof (cases v)
    case False
    then show ?thesis
      using verdict_keeps [OF v] v by (auto simp: aesdsocket_open_listening_socket_def net_getaddrinfo_def)
  next
    case True
    let ?e1 = "e1\<lparr>infos := infos e1 + 1\<rparr>"
    obtain w e2 where w: "verdict ?e1 = (w, e2)" by fastforce
    note same = verdict_keeps [OF v] verdict_keeps [OF w]
    let ?fd = "int (length (socks e2)) + 3"
    let ?e2 = "e2\<lparr>socks := ?fd # socks e2\<rparr>"
    obtain ok e3 where calls: "try_all [net_call, net_call, net_call] ?e2 = Inr (ok, e3)" "keeps ?e2 e3"
      using net_calls [of "[net_call, net_call, net_call]" ?e2] by auto
    have "net_getaddrinfo info e = (Some info, ?e1)" using True v by (simp add: net_getaddrinfo_def)
    moreover have "try_errno (net_socket ?e1) = Inr (if w then (Some ?fd, ?e2) else (None, e2))"
      using w by (simp add: net_socket_def Let_def)
    ultimately have "aesdsocket_open_listening_socket ?P port backlog e =
      (if w then andThen (Inr (ok, e3)) (\<lambda>(ok, e3).
         if ok then Inr (True, Some ?fd, e3\<lparr>infos := infos e3 - 1\<rparr>)
         else Inr (False, None, e3\<lparr>socks := remove1 ?fd (socks e3), infos := infos e3 - 1\<rparr>))
       else Inr (False, None, e2\<lparr>infos := infos e2 - 1\<rparr>))"
      unfolding aesdsocket_open_listening_socket_def net_platform_simps Let_def
      by (cases w) (simp_all only: prod.case option.case andThen.simps if_True if_False calls(1), simp_all)
    then show ?thesis using calls(2) same by (cases w; cases ok) (auto simp: keeps_def)
  qed
qed

section \<open>What the main loop holds\<close>

text \<open>\<open>t\<close> is the identifier of the timer, if one has been created.\<close>

definition holding :: "ptr \<Rightarrow> network proc \<Rightarrow> network main_state \<Rightarrow> bool" where
  "holding t p m \<longleftrightarrow> m_conn_sockfd m = - 1 \<and> m_thread_arg m = NULL
     \<and> (\<exists>e created. m_proc m = p\<lparr>env := e\<rparr> \<and> m_timer m = (if created then t else NULL) \<and> keeps ((env p)\<lparr>
           socks := (if m_sockfd m = - 1 then [] else [m_sockfd m]) @ socks (env p),
           timers := (if created then [t] else []) @ timers (env p)\<rparr>) e)
     \<and> (case m_thread_queue m of None \<Rightarrow> True | Some q \<Rightarrow> queue_holds q [])"

lemma holdingI:
  "m_proc m = p\<lparr>env := e\<rparr> \<Longrightarrow> m_conn_sockfd m = - 1 \<Longrightarrow> m_thread_arg m = NULL \<Longrightarrow>
    m_timer m = (if created then t else NULL) \<Longrightarrow>
    keeps ((env p)\<lparr>socks := (if m_sockfd m = - 1 then [] else [m_sockfd m]) @ socks (env p),
             timers := (if created then [t] else []) @ timers (env p)\<rparr>) e \<Longrightarrow>
    (\<And>q. m_thread_queue m = Some q \<Longrightarrow> queue_holds q []) \<Longrightarrow> holding t p m"
  unfolding holding_def
  by (intro conjI exI [of _ e] exI [of _ created]) (assumption+, simp split: option.split)

lemma holding_locals: "holding t p (main_locals p)"
  by (rule holdingI [where e = "env p" and created = False]) (simp_all add: main_locals_def)

lemma holding_keeps:
  assumes "holding t p m" and "keeps (env (m_proc m)) e"
  shows "holding t p (m\<lparr>m_proc := (m_proc m)\<lparr>env := e\<rparr>\<rparr>)"
proof -
  obtain e0 created where m: "m_proc m = p\<lparr>env := e0\<rparr>" "m_timer m = (if created then t else NULL)"
    "keeps ((env p)\<lparr>socks := (if m_sockfd m = - 1 then [] else [m_sockfd m]) @ socks (env p),
       timers := (if created then [t] else []) @ timers (env p)\<rparr>) e0"
    using assms(1) unfolding holding_def by blast
  then have "keeps e0 e" using assms(2) by simp
  note k = keeps_trans [OF m(3) this]
  have rest: "m_conn_sockfd m = - 1" "m_thread_arg m = NULL" "m_thread_queue m = Some q \<Longrightarrow> queue_holds q []" for q
    using assms(1) by (simp_all add: holding_def)
  show ?thesis
    by (rule holdingI [where e = e and created = created])
      (use k m(1,2) rest in \<open>simp_all del: append.simps split del: if_split cong del: if_weak_cong\<close>)
qed

lemma setup_holds:
  "\<exists>ok m. mainloop_setup (net_platform info t queue got) port backlog use_timestamp freq (main_locals p) = Inr (ok, m)
    \<and> holding t p m"
proof -
  let ?P = "net_platform info t queue got"
  have calls: "\<exists>ok e'. try_all [net_call, net_call, net_call, net_call] e = Inr (ok, e') \<and> keeps e e'"
    "\<exists>ok e'. try_all [net_call, net_call] e = Inr (ok, e') \<and> keeps e e'"
    "\<exists>ok e'. try_all [net_call] e = Inr (ok, e') \<and> keeps e e'" for e
    by (rule net_calls, simp)+
  obtain ok e1 where one: "try_all [net_call, net_call, net_call, net_call] (env p) = Inr (ok, e1)" "keeps (env p) e1"
    using calls(1) by blast
  obtain opened fd e2 where two: "aesdsocket_open_listening_socket ?P port backlog e1 = Inr (opened, fd, e2)"
    "if opened then \<exists>s. fd = Some s \<and> s \<noteq> - 1 \<and> keeps (e1\<lparr>socks := s # socks e1\<rparr>) e2 else fd = None \<and> keeps e1 e2"
    using listening_socket_never_leaks [of info t queue got port backlog e1] by blast
  obtain handled e3 where three: "try_all [net_call, net_call] e2 = Inr (handled, e3)" "keeps e2 e3"
    using calls(2) by blast
  obtain created e4 where four: "try_errno (net_timer t e3) = Inr (if created then Some t else None, e4)"
    "keeps (e3\<lparr>timers := (if created then [t] else []) @ timers e3\<rparr>) e4" using net_timer_held by blast
  obtain started e5 where five: "try_all [net_call] e4 = Inr (started, e5)" "keeps e4 e5" using calls(3) by blast
  have queue: "queue_holds q []" if "queue_new (pl_queue ?P) = Some q" for q
    using that queue_new_holds [of "\<lparr>head = NULL, tail = NULL, dsize = 0, nodes = Map.empty\<rparr>"]
    by (auto simp: net_platform_def queue_new_def doubly_linked_list_new_def split: if_splits)
  note step = one(1) two(1) three(1) four(1) five(1)
  note chain = keeps_trans [OF one(2)] keeps_def
  let ?prepared = "mainloop_setup ?P port backlog use_timestamp freq (main_locals p)"
  consider "\<not> ok" | "ok" "\<not> opened" | "ok" "opened" "queue_new (pl_queue ?P) = None"
    | q where "ok" "opened" "queue_new (pl_queue ?P) = Some q" by blast
  then show ?thesis
  proof cases
    case 1
    then have "?prepared = Inr (False, (main_locals p)\<lparr>m_proc := p\<lparr>env := e1\<rparr>\<rparr>)"
      using step by (simp del: try_all.simps add: mainloop_setup_def main_locals_def)
    moreover have "holding t p ((main_locals p)\<lparr>m_proc := p\<lparr>env := e1\<rparr>\<rparr>)"
      using one(2) by (intro holdingI [where e = e1 and created = False]) (simp_all add: main_locals_def)
    ultimately show ?thesis by blast
  next
    case 2
    then have "?prepared = Inr (False, (main_locals p)\<lparr>m_proc := p\<lparr>env := e2\<rparr>\<rparr>)"
      using step two(2) by (simp del: try_all.simps add: mainloop_setup_def main_locals_def Let_def)
    moreover have "holding t p ((main_locals p)\<lparr>m_proc := p\<lparr>env := e2\<rparr>\<rparr>)"
      using one(2) two(2) 2 by (intro holdingI [where e = e2 and created = False]) (simp_all add: main_locals_def keeps_def)
    ultimately show ?thesis by blast
  next
    case 3
    then obtain s where s: "fd = Some s" "s \<noteq> - 1" "keeps (e1\<lparr>socks := s # socks e1\<rparr>) e2" using two(2) by auto
    with 3 have "?prepared = Inr (False, (main_locals p)\<lparr>m_proc := p\<lparr>env := e2\<rparr>, m_sockfd := s\<rparr>)"
      using step by (simp del: try_all.simps add: mainloop_setup_def main_locals_def Let_def)
    moreover have "holding t p ((main_locals p)\<lparr>m_proc := p\<lparr>env := e2\<rparr>, m_sockfd := s\<rparr>)"
      using one(2) s by (intro holdingI [where e = e2 and created = False]) (simp_all add: main_locals_def keeps_def)
    ultimately show ?thesis by blast
  next
    case 4
    then obtain s where s: "fd = Some s" "s \<noteq> - 1" "keeps (e1\<lparr>socks := s # socks e1\<rparr>) e2" using two(2) by auto
    let ?m = "\<lambda>e mon timer. (main_locals p)\<lparr>m_proc := p\<lparr>env := e\<rparr>, m_sockfd := s, m_thread_queue := Some q,
      m_monitor := mon, m_timer := timer\<rparr>"
    have "?prepared = Inr (if got
        then if \<not> use_timestamp then (True, ?m e2 True NULL)
             else if \<not> handled then (False, ?m e3 True NULL)
             else if created then (started, ?m e5 True t) else (False, ?m e4 True NULL)
        else (False, ?m e2 False NULL))"
      using 4 s(1) step
      by (simp del: try_all.simps add: mainloop_setup_def main_locals_def Let_def monitor_new_def monitor_initialize_def)
    moreover have "holding t p (?m e2 made NULL)" for made
      using one(2) s queue 4
      by (intro holdingI [where e = e2 and created = False]) (simp_all add: main_locals_def keeps_def)
    moreover have "holding t p (?m e3 True NULL)"
      using one(2) s three(2) queue 4
      by (intro holdingI [where e = e3 and created = False]) (simp_all add: main_locals_def keeps_def)
    moreover have "holding t p (?m e4 True NULL)" if "\<not> created"
      using that one(2) s three(2) four(2) queue 4
      by (intro holdingI [where e = e4 and created = False]) (simp_all add: main_locals_def keeps_def)
    moreover have "holding t p (?m e5 True t)" if created
      using that one(2) s three(2) four(2) five(2) queue 4
      by (intro holdingI [where e = e5 and created = True]) (simp_all add: main_locals_def keeps_def)
    ultimately show ?thesis by (cases got; cases use_timestamp; cases handled; cases created) auto
  qed
qed

section \<open>Waiting for peers\<close>

lemma round_holds:
  assumes m: "holding t p m" and flags: "\<not> timestamp_flag p" and name: "P' = net_platform info t queue got"
  shows "\<exists>go_on m'. accept_round P' fuel name fmt seekto m = Inr (go_on, m') \<and> holding t p m'
    \<and> (go_on \<longrightarrow> length (verdicts (env (m_proc m'))) < length (verdicts (env (m_proc m))))"
proof -
  have quiet: "deliver_signal (pl_os P') q = q" for q unfolding name by (rule deliver_none) simp
  obtain e where e: "m_proc m = p\<lparr>env := e\<rparr>" using m by (auto simp: holding_def)
  let ?m = "\<lambda>e. m\<lparr>m_proc := p\<lparr>env := e\<rparr>, m_conn_sockfd := - 1\<rparr>"
  have same: "?m e = m\<lparr>m_proc := (m_proc m)\<lparr>env := e\<rparr>\<rparr>" for e using m e by (cases m) (simp add: holding_def)
  have round: "accept_round P' fuel name fmt seekto m = Inr (case verdicts e of [] \<Rightarrow> (False, ?m e)
      | v # vs \<Rightarrow> (v, ?m (e\<lparr>verdicts := vs\<rparr>)))"
    using flags e quiet unfolding name
    by (simp add: accept_round_def net_accept_def Let_def split: list.split)
  show ?thesis
  proof (cases "verdicts e")
    case Nil
    moreover have "holding t p (?m e)" unfolding same using holding_keeps [OF m, of e] e by simp
    ultimately show ?thesis using round by (intro exI [of _ False] exI [of _ "?m e"]) simp
  next
    case (Cons v vs)
    then have "keeps (env (m_proc m)) (e\<lparr>verdicts := vs\<rparr>)" using e by (simp add: keeps_def)
    then have "holding t p (?m (e\<lparr>verdicts := vs\<rparr>))" unfolding same by (rule holding_keeps [OF m])
    then show ?thesis using round Cons e by simp
  qed
qed

lemma loop_holds:
  assumes flags: "\<not> timestamp_flag p"
  shows "holding t p m \<Longrightarrow> length (verdicts (env (m_proc m))) < n \<Longrightarrow>
    \<exists>ok m'. accept_loop (net_platform info t queue got) fuel name fmt seekto n m = Inr (ok, m') \<and> holding t p m'"
proof (induction n arbitrary: m)
  case (Suc n)
  let ?P = "net_platform info t queue got"
  have quiet: "deliver_signal (pl_os ?P) q = q" for q by (rule deliver_none) simp
  obtain go_on m1 where m1: "accept_round ?P fuel name fmt seekto m = Inr (go_on, m1)" "holding t p m1"
    "go_on \<longrightarrow> length (verdicts (env (m_proc m1))) < length (verdicts (env (m_proc m)))"
    using round_holds [OF Suc.prems(1) flags refl] by blast
  show ?case
  proof (cases "termination_flag (m_proc m) \<or> \<not> go_on")
    case True
    then show ?thesis using m1 Suc.prems(1) by (auto simp: quiet Let_def)
  next
    case False
    then have "length (verdicts (env (m_proc m1))) < n" using m1(3) Suc.prems(2) by simp
    with Suc.IH [OF m1(2)] False m1(1) show ?thesis by (simp add: quiet)
  qed
qed simp

section \<open>The end\<close>

text \<open>The timer goes unless its identifier is \<open>NULL\<close>.\<close>

definition released :: "ptr \<Rightarrow> network \<Rightarrow> network \<Rightarrow> bool" where
  "released t e e' \<longleftrightarrow> socks e' = socks e \<and> infos e' = infos e
     \<and> (timers e' = timers e \<or> t = NULL \<and> timers e' = NULL # timers e)"

lemma done_releases:
  assumes m: "holding t p m" and no_sockets: "socks (env p) = []"
  shows "\<exists>e. mainloop_done (net_platform info t queue got) fuel name reg m = Inr (p\<lparr>env := e\<rparr>) \<and> released t (env p) e"
proof -
  let ?P = "net_platform info t queue got"
  obtain e created where e: "m_proc m = p\<lparr>env := e\<rparr>" and timer: "m_timer m = (if created then t else NULL)"
    and k: "keeps ((env p)\<lparr>
       socks := (if m_sockfd m = - 1 then [] else [m_sockfd m]) @ socks (env p),
       timers := (if created then [t] else []) @ timers (env p)\<rparr>) e"
    using m unfolding holding_def by blast
  define e0 where "e0 = (if m_timer m \<noteq> NULL then e\<lparr>timers := remove1 (m_timer m) (timers e)\<rparr> else e)"
  have env: "(if m_timer m \<noteq> NULL then pl_timer_delete ?P (m_timer m) (env (m_proc m)) else env (m_proc m)) = e0"
    by (simp add: e e0_def)
  have deleted: "socks e0 = socks e" "infos e0 = infos (env p)"
    "timers e0 = timers (env p) \<or> t = NULL \<and> timers e0 = NULL # timers (env p)"
    using k timer by (cases created, auto simp: e0_def keeps_def)
  have queue: "(case m_thread_queue m of None \<Rightarrow> Inr e0
       | Some q \<Rightarrow> andThen (drain queue_is_empty queue_dequeue (pl_pthread_join ?P) fuel q e0) (\<lambda>(q', e').
             andThen (queue_destroy q') (\<lambda>_. Inr e'))) = Inr e0"
  proof (cases "m_thread_queue m")
    case (Some q)
    then have q: "queue_holds q []" using m by (simp add: holding_def)
    obtain q' where "drain queue_is_empty queue_dequeue (pl_pthread_join ?P) fuel q e0
        = Inr (q', fold (pl_pthread_join ?P) [] e0)" and "queue_holds q' []"
      using tq.drain_in_order [OF q, where act = "pl_pthread_join ?P" and w = e0 and fuel = fuel] by auto
    then show ?thesis using Some queue_emptied by simp
  qed simp
  let ?e' = "e0\<lparr>socks := if m_sockfd m = - 1 then socks e0 else remove1 (m_sockfd m) (socks e0)\<rparr>"
  have "mainloop_done ?P fuel name reg m = Inr (p\<lparr>env := ?e'\<rparr>)"
    using m unfolding mainloop_done_def Let_def unfolding env unfolding queue andThen.simps unfolding e
    by (simp add: free_thread_arg_def close_fd_def holding_def)
  moreover have "released t (env p) ?e'" using k no_sockets deleted by (auto simp: released_def keeps_def)
  ultimately show ?thesis by blast
qed

lemma daemonize_keeps:
  assumes "socks e = []"
  shows "\<exists>ok e'. aesdsocket_daemonize (net_platform info t queue got) e = Inr (Returned ok, e') \<and> keeps e e'"
proof -
  obtain v e1 where v: "verdict e = (v, e1)" by fastforce
  note k = verdict_keeps [OF v]
  obtain ok e2 where two: "try_all [net_call, net_call] e1 = Inr (ok, e2)" "keeps e1 e2"
    using net_calls [of "[net_call, net_call]" e1] by auto
  have closed: "fold (os_close net_os) [0, 1, 2] e2 = e2"
    using assms k two(2) by (cases e2) (simp add: net_os_def keeps_def)
  obtain ok' e3 where three: "try_all [net_call, net_call, net_call] e2 = Inr (ok', e3)" "keeps e2 e3"
    using net_calls [of "[net_call, net_call, net_call]" e2] by auto
  have os: "pl_os (net_platform info t queue got) = net_os" by (simp add: net_platform_def)
  have "aesdsocket_daemonize (net_platform info t queue got) e
      = Inr (if v then if ok then (Returned ok', e3) else (Returned False, e2) else (Returned False, e1))"
    using v two(1) three(1) closed unfolding aesdsocket_daemonize_def os
    by (simp del: try_all.simps fold.simps add: net_call_def Let_def)
  then show ?thesis
    using k two(2) three(2) by (cases v; cases ok) (auto simp: keeps_def)
qed

text \<open>C11. Whichever calls of the main loop fail, and whether or not there is memory for the queue and
  the monitor: as long as no peer connects, the loop returns and has given back all it
  acquired. No socket is open, every address list is freed, every timer is deleted, and the memory of
  the process is as it was. The only exception is a timer whose identifier \<open>t\<close> is the null
  value of \<open>timer_t\<close>: the test \<open>if (timestamp_timer)\<close> takes it for none, and it may be left.\<close>

theorem mainloop_releases_everything:
  assumes "socks (env p) = []" and "\<not> timestamp_flag p" and "length (verdicts (env p)) < fuel"
  shows "\<exists>ok e. aesdsocket_mainloop (net_platform info t queue got) fuel port backlog name is_regular_file daemon
        use_timestamp freq fmt seekto p = Inr (Returned ok, p\<lparr>env := e\<rparr>)
    \<and> socks e = [] \<and> infos e = infos (env p)
    \<and> (timers e = timers (env p) \<or> t = NULL \<and> timers e = NULL # timers (env p))"
proof -
  let ?P = "net_platform info t queue got"
  obtain d e1 where start: "(if daemon then aesdsocket_daemonize ?P (env p) else Inr (Returned True, env p))
      = Inr (Returned d, e1)" and k1: "keeps (env p) e1"
    using daemonize_keeps [OF assms(1), of info t queue got] by (cases daemon) auto
  let ?p = "p\<lparr>env := e1\<rparr>"
  obtain ok m where body: "(if \<not> d then Inr (False, main_locals ?p)
      else andThen (mainloop_setup ?P port backlog use_timestamp freq (main_locals ?p)) (\<lambda>(ready, m1).
        if ready then accept_loop ?P fuel name fmt seekto fuel m1 else Inr (False, m1))) = Inr (ok, m)"
    and m: "holding t ?p m"
  proof (cases d)
    case True
    obtain ready m1 where ready: "mainloop_setup ?P port backlog use_timestamp freq (main_locals ?p) = Inr (ready, m1)"
      and m1: "holding t ?p m1" using setup_holds by blast
    have "length (verdicts (env (m_proc m1))) < fuel" using m1 k1 assms(3) by (auto simp: holding_def keeps_def)
    from loop_holds [OF _ m1 this, of info queue got fuel name fmt seekto] assms(2)
    obtain ok m2 where "accept_loop ?P fuel name fmt seekto fuel m1 = Inr (ok, m2)" "holding t ?p m2" by auto
    with ready True m1 that show thesis by (cases ready) auto
  qed (use that holding_locals in auto)
  have "socks (env ?p) = []" using assms(1) k1 by (simp add: keeps_def)
  from done_releases [OF m this, of info queue got fuel name is_regular_file]
  obtain e where "mainloop_done ?P fuel name is_regular_file m = Inr (p\<lparr>env := e\<rparr>)" "released t e1 e" by auto
  with start body k1 assms(1) show ?thesis
    by (intro exI [of _ ok] exI [of _ e]) (simp add: aesdsocket_mainloop_def Let_def keeps_def released_def)
qed

text \<open>The server becomes a daemon with a timestamp every ten seconds; its 19 calls up to the
  timer succeed, \<open>accept\<close> is interrupted once and then fails.\<close>

definition demo_net :: "network proc" where
  "demo_net = \<lparr>env = \<lparr>verdicts = replicate 20 True @ [False], socks = [], infos = 0, timers = []\<rparr>,
     mem = Map.empty, args = Map.empty, termination_flag = False, timestamp_flag = False\<rparr>"

theorem mainloop_releases_everything_witness:
  "\<exists>ok e. aesdsocket_mainloop (net_platform \<lparr>ai_family = 2, ai_addr = Sockaddr_in []\<rparr> 1 True True) 30 PORT BACKLOG
        (FILENAME False) True True True STAMPFREQSEC STAMPFORMAT SEEKTO_COMMAND demo_net
      = Inr (Returned ok, demo_net\<lparr>env := e\<rparr>)
    \<and> socks e = [] \<and> infos e = 0 \<and> timers e = []"
  using mainloop_releases_everything [of demo_net 30 _ 1] by (simp add: demo_net_def)

text \<open>A timer whose identifier is the null value, which a library that hands out the kernel's
  numbers from \<open>0\<close> on gives the first one, is indeed left by \<open>done\<close>.\<close>

lemma null_timer_is_kept:
  assumes "m_timer m = NULL" and "m_thread_queue m = None" and "m_thread_arg m = NULL"
    and "timers (env (m_proc m)) = NULL # ts"
  shows "\<exists>p'. mainloop_done (net_platform info NULL queue got) fuel name reg m = Inr p' \<and> timers (env p') = NULL # ts"
  using assms by (simp add: mainloop_done_def free_thread_arg_def close_fd_def Let_def)

end
