(* ===== verification/Server_List_Props.thy ===== *)
theory Server_List_Props
  imports Server_Queue
begin

text \<open>The properties of the queue and of the doubly linked list under it.\<close>

section \<open>The queue\<close>

text \<open>C13. The queue is first in, first out: with memory an enqueue appends, without memory it
  reports failure and changes nothing, and a dequeue of a non-empty queue returns the element
  enqueued first; no assertion fails, no pointer dangles and the nodes in the heap are exactly
  the ones of the queue.\<close>

theorem queue_is_fifo:
  assumes "queue_holds q xs" and "fresh_for_queue p q"
  shows "(\<exists>q'. queue_enqueue p q t = Inr (True, q') \<and> queue_holds q' (xs @ [t]))
    \<and> queue_enqueue NULL q t = Inr (False, q)
    \<and> (case xs of [] \<Rightarrow> queue_is_empty q
       | x # rest \<Rightarrow> \<not> queue_is_empty q \<and> (\<exists>q'. queue_dequeue q = Inr (x, q') \<and> queue_holds q' rest))"
proof -
  have "queue_enqueue NULL q t = Inr (False, q)"
    by (simp add: queue_enqueue_def doubly_linked_list_insert_head_def insert_new_node_def node_unfold)
  moreover have "\<exists>q'. queue_enqueue p q t = Inr (True, q') \<and> queue_holds q' (xs @ [t])"
    by (rule tq.enq_adds [OF assms])
  ultimately show ?thesis
    using assms(1) tq.deq_takes tq.empty_iff [OF assms(1)] by (cases xs) auto
qed

theorem queue_is_fifo_witness:
  "(\<exists>q'. queue_enqueue 5 demo_list 15 = Inr (True, q') \<and> queue_holds q' [14, 13, 12, 11, 15])
    \<and> queue_enqueue NULL demo_list 15 = Inr (False, demo_list)
    \<and> (\<exists>q'. queue_dequeue demo_list = Inr (14, q') \<and> queue_holds q' [13, 12, 11])"
  using queue_is_fifo [OF demo_queue_holds demo_fresh(2), of 15] by simp

text \<open>The loop at the end of the main loop joins every thread once, in the order in which they
  were started, ends after as many rounds as there are threads, frees every node and leaves a
  queue that \<open>queue_destroy\<close> accepts.\<close>

lemma drain_joins_every_thread:
  assumes "queue_holds q xs" and "length xs \<le> fuel"
  shows "\<exists>q'. drain queue_is_empty queue_dequeue (\<lambda>t joined. joined @ [t]) fuel q joined
      = Inr (q', joined @ xs)
    \<and> nodes q' = Map.empty \<and> queue_destroy q' = Inr ()"
proof -
  have "fold (\<lambda>t joined. joined @ [t]) xs joined = joined @ xs"
    by (induction xs arbitrary: joined) simp_all
  with tq.drain_in_order [OF assms, of "\<lambda>t joined. joined @ [t]" joined] queue_emptied
  show ?thesis by auto
qed

lemma drain_joins_every_thread_witness:
  "\<exists>q'. drain queue_is_empty queue_dequeue (\<lambda>t joined. joined @ [t]) 4 demo_list [] = Inr (q', [14, 13, 12, 11])
    \<and> nodes q' = Map.empty \<and> queue_destroy q' = Inr ()"
  using drain_joins_every_thread [OF demo_queue_holds, of 4 "[]"] by simp

section \<open>The list\<close>

text \<open>C27. An insertion at the front, at the end or at a position of the first half places the
  value there and shifts the others, keeping both link directions, the size and the set of
  nodes.\<close>

theorem insert_places_value:
  assumes "represents_list l ts" and "fresh_node l p"
    and "pos = 0 \<or> unat pos = length ts \<or> first_half pos ts"
  shows "\<exists>l'. doubly_linked_list_insert p l pos t = Inr (True, l')
    \<and> represents_list l' (take (unat pos) ts @ t # drop (unat pos) ts)"
proof -
  obtain ps where ps: "dll_repr l ps ts" using assms(1) by (auto simp: represents_list_def)
  have size: "unat (doubly_linked_list_size l) = length ts" by (rule repr_size [OF ps])
  consider (front) "pos = 0" | (ending) "pos \<noteq> 0" "unat pos = length ts"
    | (inner) "pos \<noteq> 0" "first_half pos ts" using assms(3) by blast
  then show ?thesis
  proof cases
    case front
    then have "doubly_linked_list_insert p l pos t = doubly_linked_list_insert_head p l t"
      by (simp add: doubly_linked_list_insert_def doubly_linked_list_insert_head_def word_le_nat_alt
          cong: if_cong)
    with insert_head_repr [OF ps assms(2), of t] front show ?thesis by (auto simp: represents_list_def)
  next
    case ending
    have "pos = doubly_linked_list_size l" using ending size by (metis unsigned_word_eqI)
    then have "doubly_linked_list_insert p l pos t = doubly_linked_list_insert_tail p l t"
      using ending new_node_linked [OF assms(2)]
      by (simp add: doubly_linked_list_insert_def doubly_linked_list_insert_tail_def
          doubly_linked_list_size_def doubly_linked_list_is_empty_def)
    with insert_tail_repr [OF ps assms(2), of t] ending show ?thesis by (auto simp: represents_list_def)
  next
    case inner
    then show ?thesis
      using insert_inner_repr [OF ps assms(2) inner(2,1), of t] by (auto simp: represents_list_def)
  qed
qed

theorem insert_places_value_witness:
  "\<exists>l'. doubly_linked_list_insert 5 demo_list 1 15 = Inr (True, l')
    \<and> represents_list l' [11, 15, 12, 13, 14]"
  using insert_places_value [OF demo_list_represents demo_fresh(1), of 1 15] by (simp add: first_half_def)

text \<open>C28. A removal at the front of a list with more than one value, or at another position of
  the first half, returns the value there, closes the gap in both directions and frees exactly
  its node.\<close>

theorem remove_takes_value:
  assumes "represents_list l ts" and "first_half pos ts" and "Suc (unat pos) < length ts"
  shows "\<exists>l'. doubly_linked_list_remove l pos = Inr (ts ! unat pos, l')
    \<and> represents_list l' (take (unat pos) ts @ drop (Suc (unat pos)) ts)"
proof -
  obtain ps where ps: "dll_repr l ps ts" using assms(1) by (auto simp: represents_list_def)
  show ?thesis
  proof (cases "pos = 0")
    case False
    then show ?thesis using remove_inner_repr [OF ps assms(2) _ assms(3)] by simp
  next
    case True
    obtain p qs t us where s: "ps = p # qs" "ts = t # us"
      using assms(3) dll_reprD(7) [OF ps] by (cases ps; cases ts) auto
    have "0 < doubly_linked_list_size l" "doubly_linked_list_size l \<noteq> 1" "\<not> doubly_linked_list_is_empty l"
      using repr_size [OF ps] repr_one [OF ps] repr_empty [OF ps] assms(3) s
      by (auto simp: word_less_nat_alt)
    then have "doubly_linked_list_remove l pos = doubly_linked_list_remove_head l"
      using True by (simp add: doubly_linked_list_remove_def doubly_linked_list_remove_head_def)
    with remove_head_repr [of l p qs t us] ps s True show ?thesis by (auto simp: represents_list_def)
  qed
qed

theorem remove_takes_value_witness:
  "\<exists>l'. doubly_linked_list_remove demo_list 1 = Inr (12, l') \<and> represents_list l' [11, 13, 14]"
  using remove_takes_value [OF demo_list_represents, of 1] by (simp add: first_half_def)

text \<open>C40. A lookup in the second half never finds its node, because the walk from the tail starts
  at the head: the last position yields the first value, and every other position of the second
  half dereferences \<open>NULL\<close>.\<close>

theorem second_half_lookup_fails:
  assumes "represents_list l ts" and "0 < unat pos" and "length ts div 2 \<le> unat pos"
    and "unat pos < length ts"
  shows "doubly_linked_list_get l pos
    = (if Suc (unat pos) = length ts then Inr (hd ts) else Inl Null_deref)"
proof -
  obtain ps where ps: "dll_repr l ps ts" using assms(1) by (auto simp: represents_list_def)
  then have linked: "dll_linked l ps ts" by (simp add: repr_linked)
  have ne: "ts \<noteq> []" "0 < length ps" using assms(4) dll_reprD(7) [OF ps] by auto
  note walk = walk_prev_from_head [OF linked ne(1)]
  note node = get_node_second_half [OF linked assms(2-4)]
  have pos: "pos < doubly_linked_list_size l"
    using assms(4) repr_size [OF ps] by (simp add: word_less_nat_alt)
  consider (last) "Suc (unat pos) = length ts" | (one) "length ts - 1 - unat pos = 1"
    | (more) n where "length ts - 1 - unat pos = Suc (Suc n)"
  proof -
    assume last: "Suc (unat pos) = length ts \<Longrightarrow> thesis" and one: "length ts - 1 - unat pos = 1 \<Longrightarrow> thesis"
      and more: "\<And>n. length ts - 1 - unat pos = Suc (Suc n) \<Longrightarrow> thesis"
    show thesis
    proof (cases "length ts - 1 - unat pos")
      case 0
      then show thesis using last assms(4) by simp
    next
      case (Suc m)
      then show thesis using one more by (cases m) auto
    qed
  qed
  then show ?thesis
  proof cases
    case last
    then have "doubly_linked_list_get_node l pos = Inr (ps ! 0)" using node walk(1) by simp
    moreover have "node_get (nodes l) (ps ! 0) = Inr (ts ! 0)"
      using dseg_nth [OF dll_reprD(1) [OF ps] ne(2)] by (simp add: node_get_def node_at_def)
    ultimately show ?thesis using pos last ne by (simp add: doubly_linked_list_get_def hd_conv_nth)
  next
    case one
    then have "doubly_linked_list_get_node l pos = Inr NULL" using node walk(2) by simp
    then show ?thesis using pos one by (auto simp: doubly_linked_list_get_def node_get_def)
  next
    case (more n)
    then have "doubly_linked_list_get_node l pos = Inl Null_deref" using node walk(3) by simp
    then show ?thesis using pos more by (auto simp: doubly_linked_list_get_def)
  qed
qed

theorem second_half_lookup_fails_witness:
  "doubly_linked_list_get demo_list 3 = Inr 11 \<and> doubly_linked_list_get demo_list 2 = Inl Null_deref"
  using second_half_lookup_fails [OF demo_list_represents, of 3]
    second_half_lookup_fails [OF demo_list_represents, of 2] by simp

text \<open>Removing the last position, or the only one, always fails an assertion: the tests for
  these cases compare with the size instead of the size less one.\<close>

lemma remove_last_position_aborts:
  assumes "represents_list l ts" and "Suc (unat pos) = length ts"
  shows "doubly_linked_list_remove l pos = Inl Assert_failed"
proof -
  obtain ps where ps: "dll_repr l ps ts" using assms(1) by (auto simp: represents_list_def)
  let ?n = "doubly_linked_list_size l"
  have size: "unat ?n = length ts" by (rule repr_size [OF ps])
  have "?n = of_nat (Suc (unat pos))" using size unfolding assms(2) by (rule word_of_unat)
  then have n: "?n = pos + 1" by (simp add: add.commute)
  have "pos < ?n" "\<not> doubly_linked_list_is_empty l" "pos \<noteq> ?n"
    using size assms(2) by (auto simp: word_less_nat_alt doubly_linked_list_is_empty_def)
  moreover have "\<not> 1 < ?n" if "pos = 0" using that n by simp
  moreover have "\<not> pos < ?n - 1" using n by simp
  ultimately show ?thesis
    by (simp add: doubly_linked_list_remove_def doubly_linked_list_remove_head_node_def
        doubly_linked_list_remove_middle_node_def)
qed

lemma remove_last_position_aborts_witness:
  "doubly_linked_list_remove demo_list 3 = Inl Assert_failed"
  using remove_last_position_aborts [OF demo_list_represents, of 3] by simp

end
