(* ===== verification/Server_Monitor_Props.thy ===== *)
theory Server_Monitor_Props
  imports Server_Monitor
begin

text \<open>
  What the monitor guarantees in every reachable state of any number of threads, with spurious
  wake-ups or without, and the mutual exclusion it does not guarantee.
\<close>

definition st :: "u32 \<Rightarrow> u32 \<Rightarrow> u32 \<Rightarrow> u32 \<Rightarrow> pc list \<Rightarrow> system" where
  "st ar aw wr ww ps = \<lparr>mon = \<lparr>active_readers = ar, active_writers = aw, waiting_readers = wr,
     waiting_writers = ww\<rparr>, pcs = ps\<rparr>"

lemma st_simps [simp]:
  "pcs (st ar aw wr ww ps) = ps"
  "mon (st ar aw wr ww ps) = \<lparr>active_readers = ar, active_writers = aw, waiting_readers = wr,
     waiting_writers = ww\<rparr>"
  by (simp_all add: st_def)

text \<open>The steps on explicit states.\<close>

lemma st_steps:
  "t < length ps \<Longrightarrow> ps ! t = Idle \<Longrightarrow> aw = 0 \<and> ww = 0 \<Longrightarrow>
     mon_step b (st ar aw wr ww ps) (st (ar + 1) aw wr ww (ps[t := RBcast]))"
  "t < length ps \<Longrightarrow> ps ! t = Idle \<Longrightarrow> aw \<noteq> 0 \<or> ww \<noteq> 0 \<Longrightarrow>
     mon_step b (st ar aw wr ww ps) (st ar aw (wr + 1) ww (ps[t := RWait]))"
  "t < length ps \<Longrightarrow> ps ! t = RSig \<Longrightarrow>
     mon_step b (st ar aw wr ww ps) (st (ar + 1) aw (wr - 1) ww (ps[t := RBcast]))"
  "t < length ps \<Longrightarrow> ps ! t = RBcast \<Longrightarrow>
     mon_step b (st ar aw wr ww ps) (st ar aw wr ww (wake_readers (ps[t := Reading])))"
  "t < length ps \<Longrightarrow> ps ! t = Reading \<Longrightarrow> ar = 1 \<Longrightarrow>
     mon_step b (st ar aw wr ww ps) (st 0 aw wr ww (wake_writers (ps[t := Idle])))"
  "t < length ps \<Longrightarrow> ps ! t = Idle \<Longrightarrow> aw = 0 \<and> ar = 0 \<and> wr = 0 \<and> ww = 0 \<Longrightarrow>
     mon_step b (st ar aw wr ww ps) (st ar (aw + 1) wr ww (ps[t := Writing]))"
  "t < length ps \<Longrightarrow> ps ! t = Idle \<Longrightarrow> aw \<noteq> 0 \<or> ar \<noteq> 0 \<or> wr \<noteq> 0 \<or> ww \<noteq> 0 \<Longrightarrow>
     mon_step b (st ar aw wr ww ps) (st ar aw wr (ww + 1) (ps[t := WWait]))"
  "t < length ps \<Longrightarrow> ps ! t = WSig \<Longrightarrow>
     mon_step b (st ar aw wr ww ps) (st ar (aw + 1) wr (ww - 1) (ps[t := Writing]))"
  "t < length ps \<Longrightarrow> ps ! t = Writing \<Longrightarrow> aw = 1 \<Longrightarrow> wr = 0 \<and> ww \<noteq> 0 \<Longrightarrow>
     mon_step b (st ar aw wr ww ps) (st ar 0 wr ww (wake_writers (ps[t := Idle])))"
  using mon_step.start_reading [of t "st ar aw wr ww ps" _ _ b]
    mon_step.resume_reading [of t "st ar aw wr ww ps" b]
    mon_step.broadcast_readers [of t "st ar aw wr ww ps" b]
    mon_step.stop_reading [of t "st ar aw wr ww ps" _ _ b]
    mon_step.start_writing [of t "st ar aw wr ww ps" _ _ b]
    mon_step.resume_writing [of t "st ar aw wr ww ps" b]
    mon_step.stop_writing [of t "st ar aw wr ww ps" _ _ _ b]
  by (auto simp: monitor_unfold st_def cong: if_cong)

text \<open>C15. In every reachable state the four counters of the monitor are exactly the numbers of
  threads reading, writing, waiting to read and waiting to write: no counter wraps below zero or
  above its width, with or without spurious wake-ups.\<close>

theorem counters_count_threads:
  assumes "reachable (\<lambda>s. \<exists>n < 2 ^ 32. mon_init n s) (mon_step spurious) s"
  shows "unat (active_readers (mon s)) = count_list (pcs s) RBcast + count_list (pcs s) Reading
    \<and> unat (active_writers (mon s)) = count_list (pcs s) Writing
    \<and> unat (waiting_readers (mon s)) = count_list (pcs s) RWait + count_list (pcs s) RSig
    \<and> unat (waiting_writers (mon s)) = count_list (pcs s) WWait + count_list (pcs s) WSig"
  using moni.reachable_inv [OF assms] by (simp add: mon_inv_def accounts_def)

text \<open>No wake-up is lost: whenever a thread waits on a condition variable, some thread is
  inside, about to be inside, or woken, so the waiting threads are never left alone.\<close>

lemma waiting_is_never_stuck:
  assumes "reachable (\<lambda>s. \<exists>n < 2 ^ 32. mon_init n s) (mon_step spurious) s"
    and "RWait \<in> set (pcs s) \<or> WWait \<in> set (pcs s)"
  shows "\<exists>p \<in> set (pcs s). p \<in> {Reading, Writing, RBcast, RSig, WSig}"
proof -
  have pos: "0 < count_list (pcs s) p \<longleftrightarrow> p \<in> set (pcs s)" for p
    using count_list_0_iff [of "pcs s" p] by auto
  from moni.reachable_inv [OF assms(1)] assms(2) show ?thesis
    by (auto simp: mon_inv_def no_lost_wakeup_def pos)
qed

lemma three_start: "reachable (\<lambda>s. \<exists>n < 2 ^ 32. mon_init n s) (mon_step b) (st 0 0 0 0 [Idle, Idle, Idle])"
  by (rule reach_init) (auto simp: mon_init_def monitor_clear_def numeral_3_eq_3 intro!: exI [of _ 3])

lemma writer_blocks_writer:
  "reachable (\<lambda>s. \<exists>n < 2 ^ 32. mon_init n s) (mon_step b) (st 0 1 0 1 [Writing, WWait, Idle])"
proof -
  have "reachable (\<lambda>s. \<exists>n < 2 ^ 32. mon_init n s) (mon_step b) (st 0 1 0 0 [Writing, Idle, Idle])"
    using reach_step [OF three_start st_steps(6) [of 0]] by simp
  from reach_step [OF this st_steps(7) [of 1]] show ?thesis by simp
qed

theorem counters_count_threads_witness:
  "unat (active_writers (mon (st 0 1 0 1 [Writing, WWait, Idle]))) = count_list [Writing, WWait, Idle] Writing
    \<and> unat (waiting_writers (mon (st 0 1 0 1 [Writing, WWait, Idle])))
        = count_list [Writing, WWait, Idle] WWait + count_list [Writing, WWait, Idle] WSig"
  using counters_count_threads [OF writer_blocks_writer] by simp

lemma waiting_is_never_stuck_witness:
  "\<exists>p \<in> set [Writing, WWait, Idle]. p \<in> {Reading, Writing, RBcast, RSig, WSig}"
  using waiting_is_never_stuck [OF writer_blocks_writer] by simp

lemma spurious_writers: "reachable (mon_init 2) (mon_step True) (st 0 2 0 0 [Writing, Writing])"
proof -
  let ?R = "reachable (mon_init 2) (mon_step True)"
  have "?R (st 0 0 0 0 [Idle, Idle])"
    by (rule reach_init) (simp add: mon_init_def monitor_clear_def numeral_2_eq_2)
  from reach_step [OF this st_steps(6) [of 0]] have "?R (st 0 1 0 0 [Writing, Idle])" by simp
  from reach_step [OF this st_steps(7) [of 1]] have "?R (st 0 1 0 1 [Writing, WWait])" by simp
  from reach_step [OF this mon_step.spurious_writer [of True 1]] have "?R (st 0 1 0 1 [Writing, WSig])"
    by (simp add: st_def)
  from reach_step [OF this st_steps(8) [of 1]] show ?thesis by simp
qed

text \<open>C16. The monitor does not exclude: after \<open>pthread_cond_wait\<close> returns the condition is not
  tested again, so already without spurious wake-ups three threads reach a state with two
  writers inside, and a state with a reader and a writer inside; with a spurious wake-up, which
  POSIX allows, two threads are enough.\<close>

theorem exclusion_is_violated:
  "(\<exists>s. reachable (\<lambda>s. \<exists>n < 2 ^ 32. mon_init n s) (mon_step False) s \<and> pcs s = [Idle, Writing, Writing])
    \<and> (\<exists>s. reachable (\<lambda>s. \<exists>n < 2 ^ 32. mon_init n s) (mon_step False) s \<and> pcs s = [Idle, Writing, Reading])
    \<and> (\<exists>s. reachable (mon_init 2) (mon_step True) s \<and> pcs s = [Writing, Writing])"
proof (intro conjI)
  let ?R = "reachable (\<lambda>s. \<exists>n < 2 ^ 32. mon_init n s) (mon_step False)"
  have "?R (st 0 1 0 2 [Writing, WWait, WWait])"
    using reach_step [OF writer_blocks_writer st_steps(7) [of 2]] by simp
  from reach_step [OF this st_steps(9) [of 0]] have "?R (st 0 0 0 2 [Idle, WSig, WSig])"
    by (simp add: wake_writers_def)
  from reach_step [OF this st_steps(8) [of 1]] have "?R (st 0 1 0 1 [Idle, Writing, WSig])" by simp
  from reach_step [OF this st_steps(8) [of 2]] have "?R (st 0 2 0 0 [Idle, Writing, Writing])" by simp
  then show "\<exists>s. ?R s \<and> pcs s = [Idle, Writing, Writing]" by force
  have "?R (st 1 0 0 0 [RBcast, Idle, Idle])" using reach_step [OF three_start st_steps(1) [of 0]] by simp
  from reach_step [OF this st_steps(7) [of 1]] have "?R (st 1 0 0 1 [RBcast, WWait, Idle])" by simp
  from reach_step [OF this st_steps(2) [of 2]] have "?R (st 1 0 1 1 [RBcast, WWait, RWait])" by simp
  from reach_step [OF this st_steps(4) [of 0]] have "?R (st 1 0 1 1 [Reading, WWait, RSig])"
    by (simp add: wake_readers_def)
  from reach_step [OF this st_steps(5) [of 0]] have "?R (st 0 0 1 1 [Idle, WSig, RSig])"
    by (simp add: wake_writers_def)
  from reach_step [OF this st_steps(8) [of 1]] have "?R (st 0 1 1 0 [Idle, Writing, RSig])" by simp
  from reach_step [OF this st_steps(3) [of 2]] have "?R (st 1 1 0 0 [Idle, Writing, RBcast])" by simp
  from reach_step [OF this st_steps(4) [of 2]] have "?R (st 1 1 0 0 [Idle, Writing, Reading])"
    by (simp add: wake_readers_def)
  then show "\<exists>s. ?R s \<and> pcs s = [Idle, Writing, Reading]" by force
  show "\<exists>s. reachable (mon_init 2) (mon_step True) s \<and> pcs s = [Writing, Writing]"
    using spurious_writers by force
qed

end
