(* ===== verification/Server_Monitor_Drain.thy ===== *)
theory Server_Monitor_Drain
  imports Server_Monitor_Props
begin

text \<open>
  The monitor empties itself: when no further thread asks to enter, every run ends after a number
  of steps that depends on the number of threads only, and it ends with every thread outside. So no
  thread waits for ever for the others to leave.
\<close>

section \<open>Steps without arrivals\<close>

definition drain_step :: "bool \<Rightarrow> system \<Rightarrow> system \<Rightarrow> bool" where
  "drain_step spurious s s' \<longleftrightarrow> mon_step spurious s s'
     \<and> (\<forall>t < length (pcs s). pcs s ! t = Idle \<longrightarrow> pcs s' ! t = Idle)"

text \<open>The steps a thread has ahead of it until it is outside.\<close>

fun steps_ahead :: "pc \<Rightarrow> nat" where
  "steps_ahead Idle = 0"
| "steps_ahead RWait = 4"
| "steps_ahead RSig = 3"
| "steps_ahead RBcast = 2"
| "steps_ahead Reading = 1"
| "steps_ahead WWait = 3"
| "steps_ahead WSig = 2"
| "steps_ahead Writing = 1"

definition load :: "pc list \<Rightarrow> nat" where
  "load ps = sum_list (map steps_ahead ps)"

lemma load_bound: "load ps \<le> 4 * length ps"
proof (induction ps)
  case (Cons p ps)
  then show ?case by (cases p) (simp_all add: load_def)
qed (simp add: load_def)

lemma load_update: "t < length ps \<Longrightarrow> load (ps[t := p]) + steps_ahead (ps ! t) = load ps + steps_ahead p"
proof (induction ps arbitrary: t)
  case (Cons q ps)
  then show ?case by (cases t) (simp_all add: load_def)
qed simp

lemma load_wake: "load (wake_readers ps) \<le> load ps" "load (wake_writers ps) \<le> load ps"
  unfolding load_def wake_readers_def wake_writers_def map_map
  by (rule sum_list_mono, simp)+

lemma update_load:
  "t < length ps \<Longrightarrow> ps ! t = p \<Longrightarrow> steps_ahead q < steps_ahead p \<Longrightarrow> load (ps[t := q]) < load ps"
  using load_update [of t ps q] by simp

lemma drain_step_load:
  assumes "drain_step spurious s s'"
  shows "load (pcs s') < load (pcs s)"
proof -
  have step: "mon_step spurious s s'"
    and idle: "pcs s' ! t = Idle" if "t < length (pcs s)" "pcs s ! t = Idle" for t
    using assms that by (simp_all add: drain_step_def)
  show ?thesis
    using assms[unfolded drain_step_def, THEN conjunct1]
  proof cases
    case (start_reading t waits m)
    then show ?thesis using idle [of t] by (simp split: if_splits)
  next
    case (start_writing t waits m)
    then show ?thesis using idle [of t] by (simp split: if_splits)
  next
    case (broadcast_readers t)
    then show ?thesis
      using update_load [of t "pcs s" RBcast Reading] load_wake(1) [of "(pcs s)[t := Reading]"] by simp
  next
    case (stop_reading t wake m)
    then show ?thesis
      using update_load [of t "pcs s" Reading Idle] load_wake(2) [of "(pcs s)[t := Idle]"] by simp
  next
    case (stop_writing t wake_r wake_w m)
    then show ?thesis
      using update_load [of t "pcs s" Writing Idle] load_wake [of "(pcs s)[t := Idle]"] by auto
  qed (simp_all add: update_load)
qed

section \<open>A thread that can move\<close>

lemma idle_stays_idle:
  "p \<noteq> Idle \<Longrightarrow> ps ! t = p \<Longrightarrow> u < length ps \<Longrightarrow> ps ! u = Idle \<Longrightarrow> ps[t := q] ! u = Idle"
  by (cases "u = t") simp_all

lemma wake_idle:
  "u < length ps \<Longrightarrow> ps ! u = Idle \<Longrightarrow> wake_readers ps ! u = Idle \<and> wake_writers ps ! u = Idle"
  by (simp add: wake_readers_def wake_writers_def)

lemma active_thread_moves:
  assumes t: "t < length (pcs s)" and p: "pcs s ! t \<in> {Reading, Writing, RBcast, RSig, WSig}"
  shows "\<exists>s'. drain_step spurious s s'"
proof -
  note keep = idle_stays_idle [of "pcs s ! t" "pcs s" t, OF _ refl]
  consider "pcs s ! t = Reading" | "pcs s ! t = Writing" | "pcs s ! t = RBcast" | "pcs s ! t = RSig"
    | "pcs s ! t = WSig" using p by auto
  then show ?thesis
  proof cases
    case 1
    obtain wake m where m: "monitor_stop_reading (mon s) = (wake, m)" by (cases "monitor_stop_reading (mon s)")
    show ?thesis
      unfolding drain_step_def
      by (rule exI, rule conjI, rule mon_step.stop_reading [OF t 1 m]) (simp add: keep 1 wake_idle)
  next
    case 2
    obtain r w m where m: "monitor_stop_writing (mon s) = (r, w, m)" by (metis prod_cases3)
    show ?thesis
      unfolding drain_step_def
      by (rule exI, rule conjI, rule mon_step.stop_writing [OF t 2 m]) (simp add: keep 2 wake_idle)
  next
    case 3
    show ?thesis
      unfolding drain_step_def
      by (rule exI, rule conjI, rule mon_step.broadcast_readers [OF t 3]) (simp add: keep 3 wake_idle)
  next
    case 4
    show ?thesis
      unfolding drain_step_def
      by (rule exI, rule conjI, rule mon_step.resume_reading [OF t 4]) (simp add: keep 4)
  next
    case 5
    show ?thesis
      unfolding drain_step_def
      by (rule exI, rule conjI, rule mon_step.resume_writing [OF t 5]) (simp add: keep 5)
  qed
qed

lemma drains_or_idle:
  assumes "mon_inv s"
  shows "(\<exists>s'. drain_step spurious s s') \<or> set (pcs s) \<subseteq> {Idle}"
proof (rule disjCI)
  assume "\<not> set (pcs s) \<subseteq> {Idle}"
  then obtain p where p: "p \<in> set (pcs s)" "p \<noteq> Idle" by blast
  have pos: "0 < count_list (pcs s) q \<longleftrightarrow> q \<in> set (pcs s)" for q
    using count_list_0_iff [of "pcs s" q] by auto
  have "\<exists>q \<in> set (pcs s). q \<in> {Reading, Writing, RBcast, RSig, WSig}"
  proof (cases "p \<in> {RWait, WWait}")
    case True
    then show ?thesis using p assms by (auto simp: mon_inv_def no_lost_wakeup_def pos)
  next
    case False
    then show ?thesis using p by (intro bexI [of _ p]) (cases p; simp)+
  qed
  then show "\<exists>s'. drain_step spurious s s'"
    using active_thread_moves [of _ s spurious] by (auto simp: in_set_conv_nth)
qed

lemma drain_steps_inv:
  "(drain_step spurious)\<^sup>*\<^sup>* s s' \<Longrightarrow> mon_inv s \<Longrightarrow> mon_inv s'"
  by (induction rule: rtranclp_induct) (auto simp: drain_step_def intro: mon_step_inv)

lemma drain_run_load: "(drain_step spurious ^^ k) s s' \<Longrightarrow> k + load (pcs s') \<le> load (pcs s)"
proof (induction k arbitrary: s')
  case (Suc k)
  then obtain u where u: "(drain_step spurious ^^ k) s u" "drain_step spurious u s'" by auto
  show ?case using Suc.IH [OF u(1)] drain_step_load [OF u(2)] by simp
qed simp

text \<open>C14. From every reachable state, with or without spurious wake-ups: a run in which no further
  thread asks to enter has at most four steps per thread, and it can only stop when every thread
  is outside. So the threads that are inside, woken or waiting all get in and out.\<close>

theorem monitor_always_drains:
  assumes "reachable (\<lambda>s. \<exists>n < 2 ^ 32. mon_init n s) (mon_step spurious) s"
  shows "((drain_step spurious ^^ k) s s' \<longrightarrow> k \<le> 4 * length (pcs s))
    \<and> ((drain_step spurious)\<^sup>*\<^sup>* s s' \<longrightarrow> (\<exists>s''. drain_step spurious s' s'') \<or> set (pcs s') \<subseteq> {Idle})"
  using drain_run_load [of k spurious s s'] load_bound [of "pcs s"]
    drain_steps_inv [of spurious s s'] drains_or_idle [of s' spurious] moni.reachable_inv [OF assms]
  by auto

theorem monitor_always_drains_witness:
  "\<exists>s'. drain_step False (st 0 1 0 1 [Writing, WWait, Idle]) s'"
  using monitor_always_drains [OF writer_blocks_writer, where s' = "st 0 1 0 1 [Writing, WWait, Idle]"] by simp

end
