(* ===== verification/Server_Monitor_Two.thy ===== *)
theory Server_Monitor_Two
  imports Server_Monitor
begin

text \<open>
  Two threads and no spurious wake-ups: here the monitor does exclude. The invariant lists, for
  each place of one thread, the places of the other.
\<close>

definition partners :: "pc \<Rightarrow> pc set" where
  "partners p = (case p of
     Idle \<Rightarrow> {Idle, RSig, RBcast, Reading, WSig, Writing}
   | RWait \<Rightarrow> {WSig, Writing}
   | RSig \<Rightarrow> {Idle, RBcast, Reading, WWait}
   | RBcast \<Rightarrow> {Idle, RSig, RBcast, Reading, WWait}
   | Reading \<Rightarrow> {Idle, RSig, RBcast, Reading, WWait}
   | WWait \<Rightarrow> {RSig, RBcast, Reading, WSig, Writing}
   | WSig \<Rightarrow> {Idle, RWait, WWait}
   | Writing \<Rightarrow> {Idle, RWait, WWait})"

text \<open>The two places, in either order.\<close>

definition pair_of :: "pc list \<Rightarrow> pc \<Rightarrow> pc \<Rightarrow> bool" where
  "pair_of ps a b \<longleftrightarrow> ps = [a, b] \<or> ps = [b, a]"

definition pair_inv :: "system \<Rightarrow> bool" where
  "pair_inv s \<longleftrightarrow> accounts s \<and> (\<exists>a b. pair_of (pcs s) a b \<and> b \<in> partners a)"

lemma partners_sym: "b \<in> partners a \<Longrightarrow> a \<in> partners b"
  by (cases a; cases b) (simp_all add: partners_def)

lemma pair_thread:
  assumes "pair_of ps a b" and "b \<in> partners a" and "t < length ps" and "ps ! t = p"
  obtains x where "pair_of ps p x" and "x \<in> partners p" and "\<And>q. pair_of (ps[t := q]) q x"
proof -
  have "t = 0 \<or> t = Suc 0" using assms(1,3) by (auto simp: pair_of_def)
  with assms partners_sym [OF assms(2)] that show thesis by (auto simp: pair_of_def)
qed

lemma pair_wake:
  "pair_of ps a b \<Longrightarrow> pair_of (wake_readers ps) (if a = RWait then RSig else a) (if b = RWait then RSig else b)"
  "pair_of ps a b \<Longrightarrow> pair_of (wake_writers ps) (if a = WWait then WSig else a) (if b = WWait then WSig else b)"
  by (auto simp: pair_of_def wake_readers_def wake_writers_def)

lemma pair_count: "pair_of ps a b \<Longrightarrow> count_list ps q = (if a = q then 1 else 0) + (if b = q then 1 else 0)"
  by (auto simp: pair_of_def)

definition pair_good :: "pc list \<Rightarrow> bool" where
  "pair_good ps \<longleftrightarrow> (\<exists>a b. pair_of ps a b \<and> b \<in> partners a)"

lemma pair_goodI: "pair_of ps a b \<Longrightarrow> b \<in> partners a \<Longrightarrow> pair_good ps"
  by (auto simp: pair_good_def)

lemma pair_good_wake:
  "pair_of ps Idle x \<Longrightarrow> x \<in> {RWait, WWait} \<Longrightarrow> wake = (if x = RWait then wake_readers else wake_writers) \<Longrightarrow>
     pair_good (wake ps)"
  using pair_wake [of ps Idle x] by (auto intro!: pair_goodI simp: partners_def)

lemma two_step:
  assumes acc: "accounts s" and good: "pair_good (pcs s)" and step: "mon_step False s s'"
  shows "pair_good (pcs s')"
proof -
  obtain a b where ab: "pair_of (pcs s) a b" "b \<in> partners a" using good by (auto simp: pair_good_def)
  note zero = counter_zero [OF acc]
  show ?thesis
    using step
  proof cases
    case (start_reading t waits m)
    obtain x where x: "pair_of (pcs s) Idle x" "x \<in> partners Idle" "\<And>q. pair_of ((pcs s)[t := q]) q x"
      using pair_thread [OF ab start_reading(2,3)] by metis
    have "waits \<longleftrightarrow> active_writers (mon s) \<noteq> 0 \<or> waiting_writers (mon s) \<noteq> 0"
      using start_reading(4) by (simp add: monitor_start_reading_def split: if_splits)
    then have "waits \<longleftrightarrow> x \<in> {Writing, WWait, WSig}" unfolding zero pair_count [OF x(1)] by auto
    then have "x \<in> partners (if waits then RWait else RBcast)"
      using x(2) by (cases x) (simp_all add: partners_def)
    from pair_goodI [OF x(3) this] start_reading(1) show ?thesis by simp
  next
    case (resume_reading t)
    obtain x where x: "x \<in> partners RSig" "\<And>q. pair_of ((pcs s)[t := q]) q x"
      using pair_thread [OF ab resume_reading(2,3)] by metis
    then have "x \<in> partners RBcast" by (cases x) (simp_all add: partners_def)
    from pair_goodI [OF x(2) this] resume_reading(1) show ?thesis by simp
  next
    case (broadcast_readers t)
    obtain x where x: "x \<in> partners RBcast" "\<And>q. pair_of ((pcs s)[t := q]) q x"
      using pair_thread [OF ab broadcast_readers(2,3)] by metis
    have "(if x = RWait then RSig else x) \<in> partners Reading" using x(1) by (cases x) (simp_all add: partners_def)
    moreover have "pair_of (wake_readers ((pcs s)[t := Reading])) Reading (if x = RWait then RSig else x)"
      using pair_wake(1) [OF x(2) [of Reading]] by simp
    ultimately show ?thesis using pair_goodI broadcast_readers(1) by simp
  next
    case (stop_reading t wake m)
    obtain x where x: "pair_of (pcs s) Reading x" "x \<in> partners Reading" "\<And>q. pair_of ((pcs s)[t := q]) q x"
      using pair_thread [OF ab stop_reading(2,3)] by metis
    have "wake \<longleftrightarrow> active_readers (mon s') = 0"
      using stop_reading(1,4) by (auto simp: monitor_stop_reading_def Let_def)
    moreover have c': "count_list (pcs s') q = count_list ((pcs s)[t := Idle]) q" if "q \<noteq> WWait" "q \<noteq> WSig" for q
      using that stop_reading(1) by (simp add: count_wake_writers)
    ultimately have "wake \<longleftrightarrow> x \<notin> {RBcast, Reading}"
      using counter_zero(1) [OF mon_step_accounts [OF acc step]] by (simp add: c' pair_count [OF x(3)])
    moreover have "pair_good (wake_writers ((pcs s)[t := Idle]))" if "x = WWait"
      using pair_good_wake [OF x(3) [of Idle]] that by simp
    moreover have "pair_good ((pcs s)[t := Idle])" "wake_writers ((pcs s)[t := Idle]) = (pcs s)[t := Idle]"
      if "x \<noteq> WWait"
      using x(2) x(3) [of Idle] that
      by (cases x; auto intro!: pair_goodI simp: partners_def pair_of_def wake_writers_def)+
    ultimately show ?thesis using stop_reading(1) by (cases "x = WWait") auto
  next
    case (start_writing t waits m)
    obtain x where x: "pair_of (pcs s) Idle x" "x \<in> partners Idle" "\<And>q. pair_of ((pcs s)[t := q]) q x"
      using pair_thread [OF ab start_writing(2,3)] by metis
    have "waits \<longleftrightarrow> active_writers (mon s) \<noteq> 0 \<or> active_readers (mon s) \<noteq> 0
        \<or> waiting_readers (mon s) \<noteq> 0 \<or> waiting_writers (mon s) \<noteq> 0"
      using start_writing(4) by (simp add: monitor_start_writing_def split: if_splits)
    then have "waits \<longleftrightarrow> x \<noteq> Idle" unfolding zero pair_count [OF x(1)] by (cases x) simp_all
    then have "x \<in> partners (if waits then WWait else Writing)"
      using x(2) by (cases x) (simp_all add: partners_def)
    from pair_goodI [OF x(3) this] start_writing(1) show ?thesis by simp
  next
    case (resume_writing t)
    obtain x where x: "x \<in> partners WSig" "\<And>q. pair_of ((pcs s)[t := q]) q x"
      using pair_thread [OF ab resume_writing(2,3)] by metis
    then have "x \<in> partners Writing" by (cases x) (simp_all add: partners_def)
    from pair_goodI [OF x(2) this] resume_writing(1) show ?thesis by simp
  next
    case (stop_writing t wake_r wake_w m)
    obtain x where x: "x \<in> partners Writing" "\<And>q. pair_of ((pcs s)[t := q]) q x"
      using pair_thread [OF ab stop_writing(2,3)] by metis
    have acc': "accounts \<lparr>mon = m, pcs = (pcs s)[t := Idle]\<rparr>"
      by (rule step_writing_accounts(3) [OF acc stop_writing(2-4)])
    have "(wake_r \<longleftrightarrow> active_writers m = 0 \<and> waiting_readers m \<noteq> 0)
        \<and> (wake_w \<longleftrightarrow> active_writers m = 0 \<and> waiting_readers m = 0 \<and> waiting_writers m \<noteq> 0)"
      using stop_writing(4) by (auto simp: monitor_stop_writing_def Let_def split: if_splits)
    then have "(wake_r \<longleftrightarrow> x = RWait) \<and> (wake_w \<longleftrightarrow> x = WWait)"
      using counter_zero(2-4) [OF acc'] x(1)
      by (cases x) (simp_all add: pair_count [OF x(2)] partners_def)
    moreover have "pair_good ((pcs s)[t := Idle])" if "x = Idle"
      using x(2) [of Idle] that by (auto intro!: pair_goodI simp: partners_def)
    moreover have "x \<in> {Idle, RWait, WWait}" using x(1) by (simp add: partners_def)
    ultimately show ?thesis
      using stop_writing(1) pair_good_wake [OF x(2) [of Idle]] by auto
  qed simp_all
qed

lemma pair_step_inv: "pair_inv s \<Longrightarrow> mon_step False s s' \<Longrightarrow> pair_inv s'"
  using two_step [of s s'] mon_step_accounts [of s False s'] by (simp add: pair_inv_def pair_good_def)

lemma pair_init_inv: "mon_init 2 s \<Longrightarrow> pair_inv s"
proof -
  assume init: "mon_init 2 s"
  then have "accounts s" using mon_init_inv [of 2 s] by (simp add: mon_inv_def)
  moreover have "pair_of (pcs s) Idle Idle" "Idle \<in> partners Idle"
    using init by (simp_all add: mon_init_def partners_def numeral_2_eq_2 pair_of_def)
  ultimately show ?thesis by (auto simp: pair_inv_def)
qed

interpretation pairi: invariant_system "mon_init 2" "mon_step False" pair_inv
  by unfold_locales (rule pair_init_inv, assumption, rule pair_step_inv)

text \<open>Two threads exclude each other when no wake-up is spurious: a writer inside is alone.\<close>

lemma two_threads_exclude:
  assumes "reachable (mon_init 2) (mon_step False) s" and "Writing \<in> set (pcs s)"
  shows "count_list (pcs s) Writing = 1 \<and> RBcast \<notin> set (pcs s) \<and> Reading \<notin> set (pcs s)"
proof -
  obtain a b where ab: "pair_of (pcs s) a b" "b \<in> partners a"
    using pairi.reachable_inv [OF assms(1)] by (auto simp: pair_inv_def)
  obtain t where t: "t < length (pcs s)" "pcs s ! t = Writing"
    using assms(2) by (metis in_set_conv_nth)
  obtain x where x: "pair_of (pcs s) Writing x" "x \<in> partners Writing"
    using pair_thread [OF ab t] by metis
  then have "x \<in> {Idle, RWait, WWait}" by (simp add: partners_def)
  with x(1) show ?thesis by (auto simp: pair_of_def)
qed

lemma two_threads_exclude_witness:
  "count_list [Writing, Idle] Writing = 1 \<and> RBcast \<notin> set [Writing, Idle] \<and> Reading \<notin> set [Writing, Idle]"
proof -
  let ?s = "\<lparr>mon = monitor_clear, pcs = [Idle, Idle]\<rparr>"
  have "reachable (mon_init 2) (mon_step False) ?s"
    by (rule reach_init) (simp add: mon_init_def numeral_2_eq_2)
  moreover have "mon_step False ?s \<lparr>mon = snd (monitor_start_writing monitor_clear), pcs = [Writing, Idle]\<rparr>"
    using mon_step.start_writing [of 0 ?s False _ False] by (simp add: monitor_unfold)
  ultimately have "reachable (mon_init 2) (mon_step False)
      \<lparr>mon = snd (monitor_start_writing monitor_clear), pcs = [Writing, Idle]\<rparr>"
    by (rule reach_step)
  from two_threads_exclude [OF this] show ?thesis by simp
qed

end
