(* ===== verification/Server_Writers.thy ===== *)
theory Server_Writers
  imports Server_Monitor_Two Server_Monitor_Props Server_Streams Aesd_Driver_Inv "HOL-Library.Multiset"
begin

text \<open>
  Threads that append their lines to one file under the monitor. The steps are those of the
  monitor and the single \<open>write\<close> calls of the loop in \<open>aesdsocket_write_line\<close>, each of which the
  kernel may cut short or fail, interleaved in any order. As long as the monitor excludes, the file
  is made of whole received lines; where it does not, lines are torn.
\<close>

section \<open>The loop of a writer, call by call\<close>

text \<open>The variables of \<open>aesdsocket_write_line\<close>: the line with its terminator, and the bytes
  that are left to write.\<close>

record write_job =
  job_line :: "byte list"
  bytes_to_write :: u64

text \<open>\<open>jobs\<close> is the line a thread has received and not yet finished. \<open>received\<close> collects all
  lines that were ever received.\<close>

record shared_file =
  sys :: system
  jobs :: "nat \<Rightarrow> write_job option"
  file_bytes :: "byte list"
  received :: "byte list multiset"

definition text_line :: "byte list \<Rightarrow> bool" where
  "text_line l \<longleftrightarrow> is_line l \<and> 0 \<notin> set l \<and> length l < 2 ^ 64"

definition new_job :: "byte list \<Rightarrow> write_job" where
  "new_job l = \<lparr>job_line = l @ [0], bytes_to_write = of_nat (length l)\<rparr>"

text \<open>A thread asks to write when it has a line and to read when it has none, and leaves
  the loop of \<open>aesdsocket_write_line\<close> when no byte is left.\<close>

definition follows_code :: "pc \<Rightarrow> write_job option \<Rightarrow> pc \<Rightarrow> bool" where
  "follows_code p job p' \<longleftrightarrow>
     (p = Idle \<and> p' \<in> {WWait, Writing} \<longrightarrow> job \<noteq> None)
     \<and> (p = Idle \<and> p' \<in> {RWait, RBcast} \<longrightarrow> job = None)
     \<and> (p = Writing \<and> p' = Idle \<longrightarrow> (\<exists>j. job = Some j \<and> bytes_to_write j = 0))"

definition jobs_after :: "pc list \<Rightarrow> pc list \<Rightarrow> (nat \<Rightarrow> write_job option) \<Rightarrow> nat \<Rightarrow> write_job option" where
  "jobs_after ps ps' js t =
     (if t < length ps \<and> ps ! t = Writing \<and> ps' ! t = Idle then None else js t)"

inductive file_step :: "bool \<Rightarrow> shared_file \<Rightarrow> shared_file \<Rightarrow> bool" for spurious where
  receive: "t < length (pcs (sys s)) \<Longrightarrow> pcs (sys s) ! t = Idle \<Longrightarrow> jobs s t = None \<Longrightarrow> text_line l \<Longrightarrow>
    file_step spurious s
      (s\<lparr>jobs := (jobs s)(t := Some (new_job l)), received := add_mset l (received s)\<rparr>)"
| use_monitor: "mon_step spurious (sys s) m \<Longrightarrow>
    \<forall>t < length (pcs (sys s)). follows_code (pcs (sys s) ! t) (jobs s t) (pcs m ! t) \<Longrightarrow>
    file_step spurious s
      (s\<lparr>sys := m, jobs := jobs_after (pcs (sys s)) (pcs m) (jobs s)\<rparr>)"
| write_some: "t < length (pcs (sys s)) \<Longrightarrow> pcs (sys s) ! t = Writing \<Longrightarrow> jobs s t = Some j \<Longrightarrow>
    bytes_to_write j \<noteq> 0 \<Longrightarrow> last_bytes (job_line j) (bytes_to_write j) = Inr bs \<Longrightarrow>
    k \<le> length bs \<Longrightarrow>
    file_step spurious s
      (s\<lparr>jobs := (jobs s)(t := Some (j\<lparr>bytes_to_write := bytes_to_write j - of_nat k\<rparr>)),
         file_bytes := file_bytes s @ take k bs\<rparr>)"
| write_fails: "t < length (pcs (sys s)) \<Longrightarrow> pcs (sys s) ! t = Writing \<Longrightarrow> jobs s t = Some j \<Longrightarrow>
    bytes_to_write j \<noteq> 0 \<Longrightarrow>
    file_step spurious s (s\<lparr>jobs := (jobs s)(t := None)\<rparr>)"

text \<open>After \<open>write_fails\<close> the thread has jumped past \<open>monitor_stop_writing\<close>: its place stays
  \<open>Writing\<close> for the monitor, and it has no line with which it could leave.\<close>

definition file_init :: "nat \<Rightarrow> shared_file \<Rightarrow> bool" where
  "file_init n s \<longleftrightarrow> mon_init n (sys s) \<and> (\<forall>t. jobs s t = None) \<and> file_bytes s = [] \<and> received s = {#}"

section \<open>Where a step of the monitor takes a thread\<close>

definition moves :: "(pc \<times> pc) set" where
  "moves = Id \<union> {(Idle, RWait), (Idle, RBcast), (Idle, WWait), (Idle, Writing), (RWait, RSig),
     (RSig, RBcast), (RBcast, Reading), (Reading, Idle), (WWait, WSig), (WSig, Writing), (Writing, Idle)}"

lemma wake_nth:
  "t < length ps \<Longrightarrow> wake_readers ps ! t = (if ps ! t = RWait then RSig else ps ! t)"
  "t < length ps \<Longrightarrow> wake_writers ps ! t = (if ps ! t = WWait then WSig else ps ! t)"
  by (simp_all add: wake_readers_def wake_writers_def)

lemma mon_step_length: "mon_step spurious s s' \<Longrightarrow> length (pcs s') = length (pcs s)"
  by (erule mon_step.cases) auto

lemma mon_step_moves:
  assumes "mon_step spurious s s'" and "t < length (pcs s)"
  shows "(pcs s ! t, pcs s' ! t) \<in> moves"
  by (rule mon_step.cases [OF assms(1)])
    (use assms(2) in \<open>auto simp: moves_def wake_nth nth_list_update\<close>)

section \<open>Jobs\<close>

definition job_text :: "write_job \<Rightarrow> byte list" where
  "job_text j = butlast (job_line j)"

definition job_written :: "write_job \<Rightarrow> byte list" where
  "job_written j = take (length (job_text j) - unat (bytes_to_write j)) (job_text j)"

definition job_fits :: "pc \<Rightarrow> write_job option \<Rightarrow> bool" where
  "job_fits p job = (case job of
     None \<Rightarrow> p \<notin> {WWait, WSig}
   | Some j \<Rightarrow> p \<in> {Idle, WWait, WSig, Writing} \<and> text_line (job_text j)
       \<and> job_line j = job_text j @ [0] \<and> unat (bytes_to_write j) \<le> length (job_text j)
       \<and> (p \<noteq> Writing \<longrightarrow> unat (bytes_to_write j) = length (job_text j)))"

definition pending_line :: "write_job option \<Rightarrow> byte list multiset" where
  "pending_line job = (case job of None \<Rightarrow> {#} | Some j \<Rightarrow> {#job_text j#})"

lemma job_text_new [simp]: "job_text (new_job l) = l"
  by (simp add: job_text_def new_job_def)

lemma new_job_fits: "text_line l \<Longrightarrow> job_fits Idle (Some (new_job l))"
  by (simp add: job_fits_def) (simp add: new_job_def text_line_def unat_of_nat_u64)

lemma job_fits_move:
  assumes "job_fits p job" and "(p, p') \<in> moves" and "follows_code p job p'"
  shows "job_fits p' (if p = Writing \<and> p' = Idle then None else job)"
  using assms by (cases job) (auto simp: job_fits_def moves_def follows_code_def)

lemma job_written_fresh: "job_fits p (Some j) \<Longrightarrow> p \<noteq> Writing \<Longrightarrow> job_written j = []"
  by (simp add: job_fits_def job_written_def)

lemma job_written_all: "job_fits p (Some j) \<Longrightarrow> bytes_to_write j = 0 \<Longrightarrow> job_written j = job_text j"
  by (simp add: job_written_def)

lemma job_write:
  assumes fits: "job_fits Writing (Some j)" and bs: "last_bytes (job_line j) (bytes_to_write j) = Inr bs"
    and k: "k \<le> length bs"
  defines "j' \<equiv> j\<lparr>bytes_to_write := bytes_to_write j - of_nat k\<rparr>"
  shows "job_fits Writing (Some j')" and "job_text j' = job_text j"
    and "job_written j' = job_written j @ take k bs"
proof -
  let ?l = "job_text j" and ?n = "unat (bytes_to_write j)"
  have j: "text_line ?l" "job_line j = ?l @ [0]" "?n \<le> length ?l" using fits by (simp_all add: job_fits_def)
  have "last_bytes (job_line j) (of_nat ?n) = Inr (drop (length ?l - ?n) ?l)"
    unfolding j(2) by (rule last_bytes_text) (use j in \<open>simp_all add: text_line_def\<close>)
  then have bs': "bs = drop (length ?l - ?n) ?l" using bs by simp
  then have "k \<le> ?n" using k j(3) by simp
  moreover have "?n < 2 ^ 64" using j(1,3) by (simp add: text_line_def)
  ultimately have n': "unat (bytes_to_write j - of_nat k) = ?n - k"
    by (simp add: unat_minus_ge word_le_nat_alt unat_of_nat_u64)
  show text': "job_text j' = ?l" by (simp add: j'_def job_text_def)
  show "job_fits Writing (Some j')"
    using j n' unfolding job_fits_def by (simp add: text' [unfolded j'_def] j'_def)
  show "job_written j' = job_written j @ take k bs"
    unfolding job_written_def text' bs'
    using \<open>k \<le> ?n\<close> j(3) by (simp add: j'_def n' take_add [symmetric])
qed

section \<open>Whole lines while the monitor excludes\<close>

definition exclusive :: "pc list \<Rightarrow> bool" where
  "exclusive ps \<longleftrightarrow> (\<forall>t < length ps. ps ! t = Writing \<longrightarrow>
     (\<forall>u < length ps. u \<noteq> t \<longrightarrow> ps ! u \<notin> {Writing, RBcast, Reading}))"

text \<open>\<open>ls\<close> are the complete lines of the file, \<open>w\<close> is what follows them, \<open>lost\<close> a line whose
  writer has given up.\<close>

definition tail_ok :: "shared_file \<Rightarrow> byte list \<Rightarrow> byte list multiset \<Rightarrow> bool" where
  "tail_ok s w lost \<longleftrightarrow>
     (Writing \<notin> set (pcs (sys s)) \<longrightarrow> w = [] \<and> lost = {#})
     \<and> (\<forall>t < length (pcs (sys s)). pcs (sys s) ! t = Writing \<longrightarrow>
          (case jobs s t of
             None \<Rightarrow> \<exists>l v. lost = {#l#} \<and> is_line l \<and> l = w @ v \<and> v \<noteq> []
           | Some j \<Rightarrow> lost = {#} \<and> w = job_written j))"

definition pending_lines :: "shared_file \<Rightarrow> byte list multiset" where
  "pending_lines s = (\<Sum>t < length (pcs (sys s)). pending_line (jobs s t))"

definition lines_whole :: "shared_file \<Rightarrow> byte list list \<Rightarrow> byte list \<Rightarrow> byte list multiset \<Rightarrow> bool" where
  "lines_whole s ls w lost \<longleftrightarrow> (\<forall>l \<in> set ls. is_line l) \<and> file_bytes s = concat ls @ w
     \<and> received s = mset ls + pending_lines s + lost \<and> tail_ok s w lost"

definition jobs_fit :: "shared_file \<Rightarrow> bool" where
  "jobs_fit s \<longleftrightarrow> (\<forall>t < length (pcs (sys s)). job_fits (pcs (sys s) ! t) (jobs s t))"

definition file_inv :: "shared_file \<Rightarrow> bool" where
  "file_inv s \<longleftrightarrow> jobs_fit s \<and> (\<exists>ls w lost. lines_whole s ls w lost)"

lemma file_invI: "jobs_fit s \<Longrightarrow> lines_whole s ls w lost \<Longrightarrow> file_inv s"
  by (auto simp: file_inv_def)

lemma file_init_inv: "file_init n s \<Longrightarrow> file_inv s"
  by (rule file_invI [of _ "[]" "[]" "{#}"])
     (simp_all add: file_init_def mon_init_def jobs_fit_def job_fits_def lines_whole_def tail_ok_def
       pending_lines_def pending_line_def)

lemma pending_update:
  fixes t n :: nat
  assumes "t < n"
  shows "(\<Sum>u < n. pending_line ((js(t := job)) u)) + pending_line (js t)
    = (\<Sum>u < n. pending_line (js u)) + pending_line job"
proof -
  have "(\<Sum>u < n. pending_line ((js(t := job)) u)) = pending_line job + (\<Sum>u \<in> {..<n} - {t}. pending_line (js u))"
    using assms by (subst sum.remove [of _ t]) (auto intro!: sum.cong)
  moreover have "(\<Sum>u < n. pending_line (js u)) = pending_line (js t) + (\<Sum>u \<in> {..<n} - {t}. pending_line (js u))"
    using assms by (subst sum.remove [of _ t]) auto
  ultimately show ?thesis by (simp add: ac_simps)
qed

lemma exclusiveD:
  "exclusive ps \<Longrightarrow> t < length ps \<Longrightarrow> ps ! t = Writing \<Longrightarrow> u < length ps \<Longrightarrow>
     ps ! u \<in> {Writing, RBcast, Reading} \<Longrightarrow> u = t"
  unfolding exclusive_def by blast

lemma exclusive_reader:
  assumes "exclusive ps" and "p \<in> set ps" and "p \<in> {RBcast, Reading}"
  shows "Writing \<notin> set ps"
proof
  assume "Writing \<in> set ps"
  then obtain t where t: "t < length ps" "ps ! t = Writing" by (metis in_set_conv_nth)
  obtain u where u: "u < length ps" "ps ! u = p" using assms(2) by (metis in_set_conv_nth)
  then have "u = t" using exclusiveD [OF assms(1) t] assms(3) by auto
  then show False using t u assms(3) by auto
qed

lemma tail_writer:
  assumes "exclusive (pcs (sys s))" and "t < length (pcs (sys s))" and "pcs (sys s) ! t = Writing"
  shows "tail_ok s w lost \<longleftrightarrow> (case jobs s t of
             None \<Rightarrow> \<exists>l v. lost = {#l#} \<and> is_line l \<and> l = w @ v \<and> v \<noteq> []
           | Some j \<Rightarrow> lost = {#} \<and> w = job_written j)"
proof -
  have "Writing \<in> set (pcs (sys s))" using assms(2,3) by (metis nth_mem)
  moreover have "u < length (pcs (sys s)) \<and> pcs (sys s) ! u = Writing \<longleftrightarrow> u = t" for u
    using exclusiveD [OF assms, of u] assms(2,3) by auto
  ultimately show ?thesis by (simp add: tail_ok_def imp_conjL [symmetric])
qed

lemma receive_inv:
  assumes "file_inv s" and "t < length (pcs (sys s))" and "pcs (sys s) ! t = Idle" and "jobs s t = None"
    and "text_line l"
  shows "file_inv (s\<lparr>jobs := (jobs s)(t := Some (new_job l)), received := add_mset l (received s)\<rparr>)"
    (is "file_inv ?s")
proof -
  obtain ls w lost where fit: "jobs_fit s" and inv: "lines_whole s ls w lost"
    using assms(1) by (auto simp: file_inv_def)
  have "jobs_fit ?s" using fit new_job_fits [OF assms(5)] assms(3) by (auto simp: jobs_fit_def)
  moreover have "tail_ok ?s w lost" using inv assms(3) by (auto simp: lines_whole_def tail_ok_def)
  moreover have "pending_lines ?s = add_mset l (pending_lines s)"
    using pending_update [OF assms(2), of "jobs s" "Some (new_job l)"] assms(4)
    by (simp add: pending_lines_def pending_line_def)
  ultimately show ?thesis using inv by (intro file_invI [of _ ls w lost]) (simp_all add: lines_whole_def)
qed

lemma write_some_inv:
  assumes "file_inv s" and excl: "exclusive (pcs (sys s))"
    and t: "t < length (pcs (sys s))" "pcs (sys s) ! t = Writing" and j: "jobs s t = Some j"
    and bs: "last_bytes (job_line j) (bytes_to_write j) = Inr bs" "k \<le> length bs"
  shows "file_inv (s\<lparr>jobs := (jobs s)(t := Some (j\<lparr>bytes_to_write := bytes_to_write j - of_nat k\<rparr>)),
         file_bytes := file_bytes s @ take k bs\<rparr>)" (is "file_inv ?s")
proof -
  obtain ls w lost where fit: "jobs_fit s" and inv: "lines_whole s ls w lost"
    using assms(1) by (auto simp: file_inv_def)
  have "job_fits Writing (Some j)" using fit t j by (auto simp: jobs_fit_def)
  note w = job_write [OF this bs]
  have "jobs_fit ?s" using fit w(1) t by (auto simp: jobs_fit_def)
  moreover have "lost = {#}" "w = job_written j"
    using inv tail_writer [OF excl t] j by (simp_all add: lines_whole_def)
  moreover have "tail_ok ?s (w @ take k bs) lost"
    using excl t w(3) \<open>lost = {#}\<close> \<open>w = job_written j\<close> by (subst tail_writer [of _ t]) simp_all
  moreover have "pending_lines ?s = pending_lines s"
    using pending_update [OF t(1), of "jobs s" "Some (j\<lparr>bytes_to_write := bytes_to_write j - of_nat k\<rparr>)"] j w(2)
    by (simp add: pending_lines_def pending_line_def)
  ultimately show ?thesis
    using inv by (intro file_invI [of _ ls "w @ take k bs" lost]) (simp_all add: lines_whole_def)
qed

lemma write_fails_inv:
  assumes "file_inv s" and excl: "exclusive (pcs (sys s))"
    and t: "t < length (pcs (sys s))" "pcs (sys s) ! t = Writing" and j: "jobs s t = Some j"
    and left: "bytes_to_write j \<noteq> 0"
  shows "file_inv (s\<lparr>jobs := (jobs s)(t := None)\<rparr>)" (is "file_inv ?s")
proof -
  obtain ls w lost where fit: "jobs_fit s" and inv: "lines_whole s ls w lost"
    using assms(1) by (auto simp: file_inv_def)
  have fits: "job_fits Writing (Some j)" using fit t j by (auto simp: jobs_fit_def)
  have "jobs_fit ?s" using fit t by (auto simp: jobs_fit_def job_fits_def)
  moreover have w: "lost = {#}" "w = job_written j"
    using inv tail_writer [OF excl t] j by (simp_all add: lines_whole_def)
  moreover have "tail_ok ?s w {#job_text j#}"
  proof -
    let ?v = "drop (length (job_text j) - unat (bytes_to_write j)) (job_text j)"
    have "unat (bytes_to_write j) \<noteq> 0" using left by (simp add: unat_eq_zero)
    then have "?v \<noteq> []" using fits by (auto simp: job_fits_def)
    moreover have "job_text j = w @ ?v" by (simp add: w job_written_def)
    moreover have "is_line (job_text j)" using fits by (simp add: job_fits_def text_line_def)
    ultimately have "\<exists>l v. {#job_text j#} = {#l#} \<and> is_line l \<and> l = w @ v \<and> v \<noteq> []"
      by (intro exI [of _ "job_text j"] exI [of _ ?v]) simp
    then show ?thesis using tail_writer [of ?s t w "{#job_text j#}"] excl t by simp
  qed
  moreover have "pending_lines ?s + {#job_text j#} = pending_lines s"
    using pending_update [OF t(1), of "jobs s" None] j by (simp add: pending_lines_def pending_line_def)
  ultimately show ?thesis
    using inv by (intro file_invI [of _ ls w "{#job_text j#}"]) (simp_all add: lines_whole_def ac_simps)
qed

lemma entering_writer:
  assumes "job_fits p job" and "(p, Writing) \<in> moves" and "follows_code p job Writing" and "p \<noteq> Writing"
  obtains j where "job = Some j" and "job_written j = []"
proof -
  have "job \<noteq> None" using assms by (cases job) (auto simp: job_fits_def moves_def follows_code_def)
  then show thesis using job_written_fresh [of p] assms(1,4) that by auto
qed

lemma use_monitor_inv:
  assumes "file_inv s" and excl: "exclusive (pcs (sys s))" and excl': "exclusive (pcs m)"
    and step: "mon_step spurious (sys s) m"
    and code: "\<forall>t < length (pcs (sys s)). follows_code (pcs (sys s) ! t) (jobs s t) (pcs m ! t)"
  shows "file_inv (s\<lparr>sys := m, jobs := jobs_after (pcs (sys s)) (pcs m) (jobs s)\<rparr>)" (is "file_inv ?s")
proof -
  let ?ps = "pcs (sys s)" and ?n = "length (pcs (sys s))"
  obtain ls w lost where fit: "jobs_fit s" and inv: "lines_whole s ls w lost"
    using assms(1) by (auto simp: file_inv_def)
  have len: "length (pcs m) = ?n" by (rule mon_step_length [OF step])
  have fits: "job_fits (?ps ! t) (jobs s t)" "(?ps ! t, pcs m ! t) \<in> moves"
    "follows_code (?ps ! t) (jobs s t) (pcs m ! t)" if "t < ?n" for t
    using that fit code mon_step_moves [OF step] by (simp_all add: jobs_fit_def)
  have fit': "jobs_fit ?s"
    unfolding jobs_fit_def using job_fits_move [OF fits] by (simp add: len jobs_after_def)
  have entered: "\<exists>j. jobs s t = Some j \<and> job_written j = []"
    if "t < ?n" "pcs m ! t = Writing" "?ps ! t \<noteq> Writing" for t
    using entering_writer [of "?ps ! t" "jobs s t"] fits [OF that(1)] that(2,3) by auto
  show ?thesis
  proof (cases "\<exists>t < ?n. ?ps ! t = Writing \<and> pcs m ! t = Idle")
    case True
    then obtain t where t: "t < ?n" "?ps ! t = Writing" "pcs m ! t = Idle" by blast
    then obtain j where j: "jobs s t = Some j" "bytes_to_write j = 0"
      using fits(3) [of t] by (auto simp: follows_code_def)
    have w: "lost = {#}" "w = job_text j"
      using inv tail_writer [OF excl t(1,2)] j job_written_all [of "?ps ! t" j] fits(1) [OF t(1)]
      by (simp_all add: lines_whole_def)
    have others: "?ps ! u \<noteq> Writing" if "u < ?n" "u \<noteq> t" for u
      using exclusiveD [OF excl t(1,2) that(1)] that(2) by blast
    have after: "jobs_after ?ps (pcs m) (jobs s) u = ((jobs s)(t := None)) u" if "u < ?n" for u
      using others [OF that] t by (auto simp: jobs_after_def)
    have "pending_lines ?s = (\<Sum>u < ?n. pending_line (((jobs s)(t := None)) u))"
      unfolding pending_lines_def by (simp add: len after)
    then have pending: "pending_lines s = add_mset (job_text j) (pending_lines ?s)"
      using pending_update [OF t(1), of "jobs s" None] j
      by (simp add: pending_lines_def pending_line_def)
    have "\<exists>j. jobs ?s u = Some j \<and> job_written j = []" if u: "u < ?n" "pcs m ! u = Writing" for u
    proof -
      have "u \<noteq> t" using u(2) t(3) by auto
      then show ?thesis using entered [OF u] others [OF u(1)] after [OF u(1)] by simp
    qed
    then have "tail_ok ?s [] {#}" unfolding tail_ok_def using len by fastforce
    moreover have "is_line (job_text j)" using fits(1) [OF t(1)] j by (simp add: job_fits_def t(2) text_line_def)
    ultimately show ?thesis
      using inv pending w by (intro file_invI [OF fit', of "ls @ [job_text j]" "[]" "{#}"]) (simp add: lines_whole_def)
  next
    case False
    then have after: "jobs_after ?ps (pcs m) (jobs s) = jobs s" by (auto simp: jobs_after_def fun_eq_iff)
    have "tail_ok ?s w lost"
    proof (cases "Writing \<in> set ?ps")
      case True
      then obtain t where t: "t < ?n" "?ps ! t = Writing" by (metis in_set_conv_nth)
      then have "pcs m ! t = Writing" using fits(2) [of t] False by (auto simp: moves_def)
      then show ?thesis
        using inv tail_writer [OF excl t] tail_writer [of ?s t] excl' t len
        by (simp add: lines_whole_def after)
    next
      case False
      then have "w = []" "lost = {#}" using inv by (simp_all add: lines_whole_def tail_ok_def)
      moreover have "\<exists>j. jobs s t = Some j \<and> job_written j = []" if "t < ?n" "pcs m ! t = Writing" for t
        using entered [OF that] False nth_mem [OF that(1)] by metis
      ultimately show ?thesis unfolding tail_ok_def using len by (fastforce simp: after)
    qed
    then show ?thesis
      using inv by (intro file_invI [OF fit', of ls w lost]) (simp add: lines_whole_def pending_lines_def len after)
  qed
qed

lemma file_step_inv:
  assumes "file_inv s" and "exclusive (pcs (sys s))" and "exclusive (pcs (sys s'))" and "file_step spurious s s'"
  shows "file_inv s'"
  using assms(4)
proof cases
  case (use_monitor m)
  then show ?thesis using use_monitor_inv [OF assms(1,2), of m] assms(3) by simp
qed (use assms receive_inv write_some_inv write_fails_inv in simp_all)

text \<open>While a reader is inside no step touches the file.\<close>

lemma reader_sees_still_file:
  assumes "exclusive (pcs (sys s))" and "p \<in> set (pcs (sys s))" and "p \<in> {RBcast, Reading}"
    and "file_step spurious s s'"
  shows "file_bytes s' = file_bytes s"
  using assms(4)
proof cases
  case (write_some t j bs k)
  then show ?thesis using exclusive_reader [OF assms(1-3)] by (metis nth_mem)
qed simp_all

section \<open>Two threads\<close>

lemma pair_exclusive: "pair_inv s \<Longrightarrow> exclusive (pcs s)"
proof -
  assume "pair_inv s"
  then obtain a b where ab: "pair_of (pcs s) a b" "b \<in> partners a" by (auto simp: pair_inv_def)
  have "pcs s ! u \<notin> {Writing, RBcast, Reading}"
    if tu: "t < length (pcs s)" "pcs s ! t = Writing" "u < length (pcs s)" "u \<noteq> t" for t u
  proof -
    have "pcs s ! u \<in> partners Writing"
      using ab tu partners_sym [OF ab(2)] by (auto simp: pair_of_def less_Suc_eq)
    then show ?thesis by (auto simp: partners_def)
  qed
  then show ?thesis by (simp add: exclusive_def)
qed

lemma file_step_sys: "file_step spurious s s' \<Longrightarrow> sys s' = sys s \<or> mon_step spurious (sys s) (sys s')"
  by (erule file_step.cases) auto

definition pair_file_inv :: "shared_file \<Rightarrow> bool" where
  "pair_file_inv s \<longleftrightarrow> pair_inv (sys s) \<and> file_inv s"

lemma pair_file_step: "pair_file_inv s \<Longrightarrow> file_step False s s' \<Longrightarrow> pair_file_inv s'"
proof -
  assume inv: "pair_file_inv s" and step: "file_step False s s'"
  have "pair_inv (sys s')"
    using file_step_sys [OF step] pair_step_inv inv by (auto simp: pair_file_inv_def)
  then show ?thesis
    using file_step_inv [OF _ _ _ step] inv pair_exclusive by (auto simp: pair_file_inv_def)
qed

interpretation pair_file: invariant_system "file_init 2" "file_step False" pair_file_inv
proof
  show "pair_file_inv s" if "file_init 2 s" for s
    using that file_init_inv [OF that] pair_init_inv [of "sys s"] by (simp add: pair_file_inv_def file_init_def)
qed (rule pair_file_step)

end
