(* ===== verification/Server_Writers_Props.thy ===== *)
theory Server_Writers_Props
  imports Server_Writers
begin

text \<open>
  The file that several threads append to: whole lines with two threads, torn lines with three.
\<close>

lemma pending_received:
  assumes "lines_whole s ls w lost" and "t < length (pcs (sys s))" and "jobs s t = Some j"
  shows "job_text j \<in># received s - mset ls"
proof -
  have "job_text j \<in># pending_lines s"
    using assms(2,3) unfolding pending_lines_def
    by (subst sum.remove [of _ t]) (simp_all add: pending_line_def)
  then show ?thesis using assms(1) by (simp add: lines_whole_def)
qed

lemma tail_is_started_line:
  assumes whole: "lines_whole s ls w lost" and "w \<noteq> []"
  shows "Writing \<in> set (pcs (sys s)) \<and> (\<exists>l. l \<in># received s - mset ls \<and> take (length w) l = w)"
proof
  have ok: "tail_ok s w lost" using whole by (simp add: lines_whole_def)
  then show W: "Writing \<in> set (pcs (sys s))" using assms(2) by (auto simp: tail_ok_def)
  then obtain t where t: "t < length (pcs (sys s))" "pcs (sys s) ! t = Writing" by (metis in_set_conv_nth)
  show "\<exists>l. l \<in># received s - mset ls \<and> take (length w) l = w"
  proof (cases "jobs s t")
    case None
    then obtain l v where "lost = {#l#}" "l = w @ v"
      using ok t by (fastforce simp: tail_ok_def)
    then show ?thesis using whole by (intro exI [of _ l]) (simp add: lines_whole_def)
  next
    case (Some j)
    then have "w = job_written j" using ok t by (auto simp: tail_ok_def)
    then show ?thesis using pending_received [OF whole t(1) Some] by (auto simp: job_written_def)
  qed
qed

lemma all_idle_all_written:
  assumes "lines_whole s ls w lost"
    and "\<And>t. t < length (pcs (sys s)) \<Longrightarrow> pcs (sys s) ! t = Idle \<and> jobs s t = None"
  shows "w = [] \<and> mset ls = received s"
proof -
  have "Writing \<notin> set (pcs (sys s))" using assms(2) by (metis in_set_conv_nth pc.distinct(13))
  moreover have "pending_lines s = {#}" using assms(2) by (simp add: pending_lines_def pending_line_def)
  ultimately show ?thesis using assms(1) by (simp add: lines_whole_def tail_ok_def)
qed

text \<open>C17. Two threads that append lines to the file under the monitor, without spurious wake-ups
  but with \<open>write\<close> calls cut short or failing at any point: in every reachable state the file
  consists of whole received lines, each written once, followed by the beginning of the line
  of the thread that is writing; once both threads are outside it is made of exactly the lines
  received. While a thread is reading the file ends with a whole line and no step changes it.\<close>

theorem two_writers_keep_lines_whole:
  assumes "reachable (file_init 2) (file_step False) s"
  shows "\<exists>ls w. (\<forall>l \<in> set ls. is_line l) \<and> file_bytes s = concat ls @ w \<and> mset ls \<subseteq># received s
    \<and> (w = [] \<or> Writing \<in> set (pcs (sys s)) \<and> (\<exists>l. l \<in># received s - mset ls \<and> take (length w) l = w))
    \<and> ((\<forall>t < 2. pcs (sys s) ! t = Idle \<and> jobs s t = None) \<longrightarrow> w = [] \<and> mset ls = received s)
    \<and> (RBcast \<in> set (pcs (sys s)) \<or> Reading \<in> set (pcs (sys s)) \<longrightarrow>
         w = [] \<and> (\<forall>s'. file_step False s s' \<longrightarrow> file_bytes s' = file_bytes s))"
proof -
  have inv: "pair_inv (sys s)" "file_inv s" using pair_file.reachable_inv [OF assms] by (simp_all add: pair_file_inv_def)
  then obtain ls w lost where whole: "lines_whole s ls w lost" by (auto simp: file_inv_def)
  have excl: "exclusive (pcs (sys s))" and two: "length (pcs (sys s)) = 2"
    using inv pair_exclusive by (auto simp: pair_inv_def pair_of_def)
  have "w = []" if "p \<in> set (pcs (sys s))" "p \<in> {RBcast, Reading}" for p
    using tail_is_started_line [OF whole] exclusive_reader [OF excl that] by blast
  moreover have "\<forall>s'. file_step False s s' \<longrightarrow> file_bytes s' = file_bytes s"
    if "p \<in> set (pcs (sys s))" "p \<in> {RBcast, Reading}" for p
    using reader_sees_still_file [OF excl that] by blast
  moreover have "w = [] \<and> mset ls = received s" if "\<forall>t < 2. pcs (sys s) ! t = Idle \<and> jobs s t = None"
    using all_idle_all_written [OF whole] that two by simp
  moreover have "mset ls \<subseteq># received s" using whole by (simp add: lines_whole_def)
  ultimately show ?thesis
    using whole tail_is_started_line [OF whole] unfolding lines_whole_def
    by (intro exI [of _ ls] exI [of _ w]) blast
qed

section \<open>Runs\<close>

text \<open>The steps on explicit states; \<open>only\<close> gives the jobs of threads 1 and 2.\<close>

definition only :: "write_job option \<Rightarrow> write_job option \<Rightarrow> nat \<Rightarrow> write_job option" where
  "only a b t = (if t = 1 then a else if t = 2 then b else None)"

definition fs :: "system \<Rightarrow> (nat \<Rightarrow> write_job option) \<Rightarrow> byte list \<Rightarrow> byte list multiset \<Rightarrow> shared_file" where
  "fs m js bs R = \<lparr>sys = m, jobs = js, file_bytes = bs, received = R\<rparr>"

lemma fs_simps [simp]: "sys (fs m js bs R) = m" "jobs (fs m js bs R) = js" "file_bytes (fs m js bs R) = bs"
    "received (fs m js bs R) = R"
  by (simp_all add: fs_def)

definition job :: "byte list \<Rightarrow> nat \<Rightarrow> write_job option" where
  "job l n = Some \<lparr>job_line = l @ [0], bytes_to_write = of_nat n\<rparr>"

lemma only_update: "(only a b)(Suc 0 := c) = only c b" "(only a b)(2 := c) = only a c"
  by (auto simp: only_def)

lemma fs_receive:
  "t < length (pcs m) \<Longrightarrow> pcs m ! t = Idle \<Longrightarrow> js t = None \<Longrightarrow> text_line l \<Longrightarrow>
     file_step b (fs m js bs R) (fs m (js(t := job l (length l))) bs (add_mset l R))"
  using file_step.receive [of t "fs m js bs R" l b] by (simp add: fs_def job_def new_job_def)

lemma fs_write:
  assumes "t < length (pcs m)" and "pcs m ! t = Writing" and "js t = job l n"
    and "text_line l" and "0 < n" and "n \<le> length l" and "k \<le> n"
  shows "file_step b (fs m js bs R) (fs m (js(t := job l (n - k))) (bs @ take k (drop (length l - n) l)) R)"
proof -
  have "n < 2 ^ 64" using assms(4,6) by (simp add: text_line_def)
  then have "(of_nat n :: u64) \<noteq> 0" using assms(5) unat_of_nat_u64 [of n] by auto
  moreover have "last_bytes (l @ [0]) (of_nat n) = Inr (drop (length l - n) l)"
    using assms(4,6) by (intro last_bytes_text) (simp_all add: text_line_def)
  ultimately show ?thesis
    using file_step.write_some [of t "fs m js bs R" _ "drop (length l - n) l" k b] assms
    by (simp add: fs_def job_def of_nat_diff)
qed

lemma fs_monitor:
  "mon_step b m m' \<Longrightarrow>
   \<forall>t < length (pcs m). follows_code (pcs m ! t) (js t) (pcs m' ! t) \<and> \<not> (pcs m ! t = Writing \<and> pcs m' ! t = Idle) \<Longrightarrow>
     file_step b (fs m js bs R) (fs m' js bs R)"
proof -
  assume step: "mon_step b m m'" and code: "\<forall>t < length (pcs m). follows_code (pcs m ! t) (js t) (pcs m' ! t)
      \<and> \<not> (pcs m ! t = Writing \<and> pcs m' ! t = Idle)"
  then have "jobs_after (pcs m) (pcs m') js = js" by (auto simp: jobs_after_def fun_eq_iff)
  then show ?thesis
    using file_step.use_monitor [of b "fs m js bs R" m'] step code by (simp add: fs_def)
qed

lemma fs_leave:
  assumes "mon_step b m m'" and "pcs m ! t = Writing" and "pcs m' = (pcs m)[t := Idle]" and "t < length (pcs m)"
    and "js t = job l 0"
  shows "file_step b (fs m js bs R) (fs m' (js(t := None)) bs R)"
proof -
  have "jobs_after (pcs m) (pcs m') js = js(t := None)"
    using assms by (auto simp: jobs_after_def fun_eq_iff nth_list_update)
  moreover have "\<forall>u < length (pcs m). follows_code (pcs m ! u) (js u) (pcs m' ! u)"
    using assms by (auto simp: follows_code_def nth_list_update job_def)
  ultimately show ?thesis
    using file_step.use_monitor [of b "fs m js bs R" m'] assms(1) by (simp add: fs_def)
qed

definition line_a :: "byte list" where "line_a = [97, 10]"
definition line_b :: "byte list" where "line_b = [98, 10]"

lemma line_ab [simp]: "text_line line_a" "text_line line_b" "length line_a = 2" "length line_b = 2"
  by (simp_all add: line_a_def line_b_def text_line_def is_line_def TERMINATOR_CHARACTER_def)

lemma none_left [simp]: "only None None = (\<lambda>t. None)"
  by (simp add: only_def fun_eq_iff)

lemma stop_writing_quietly:
  "t < length ps \<Longrightarrow> ps ! t = Writing \<Longrightarrow> aw = 2 \<or> aw = 1 \<and> wr = 0 \<and> ww = 0 \<Longrightarrow>
     mon_step b (st ar aw wr ww ps) (st ar (aw - 1) wr ww (ps[t := Idle]))"
  using mon_step.stop_writing [of t "st ar aw wr ww ps" False False _ b]
  by (auto simp: monitor_unfold st_def cong: if_cong)

lemma half_written:
  "reachable (file_init 2) (file_step False)
     (fs (st 0 1 0 0 [Idle, Writing]) (only (job line_a 1) None) [97] {#line_a#})"
proof -
  let ?R = "reachable (file_init 2) (file_step False)"
  have "?R (fs (st 0 0 0 0 [Idle, Idle]) (only None None) [] {#})"
    by (rule reach_init)
       (simp add: file_init_def mon_init_def monitor_clear_def numeral_2_eq_2 del: One_nat_def)
  from reach_step [OF this fs_receive [of 1 _ _ line_a]]
  have "?R (fs (st 0 0 0 0 [Idle, Idle]) (only (job line_a 2) None) [] {#line_a#})"
    by (simp add: only_update del: none_left) (simp add: only_def)
  from reach_step [OF this fs_monitor [OF st_steps(6) [of 1]]]
  have "?R (fs (st 0 1 0 0 [Idle, Writing]) (only (job line_a 2) None) [] {#line_a#})"
    by (simp add: All_less_Suc numeral_2_eq_2 follows_code_def only_def job_def)
  from reach_step [OF this fs_write [of 1 _ _ line_a 2 1]] show ?thesis
    by (simp add: only_update) (simp add: only_def line_a_def)
qed

theorem two_writers_keep_lines_whole_witness:
  "\<exists>ls w. [97] = concat ls @ w \<and> mset ls \<subseteq># {#line_a#}
    \<and> (w = [] \<or> (\<exists>l. l \<in># {#line_a#} - mset ls \<and> take (length w) l = w))"
  using two_writers_keep_lines_whole [OF half_written] by (simp only: fs_simps) blast

text \<open>Three threads: a reader leaves and wakes both writers.\<close>

lemma two_writers_inside:
  "reachable (file_init 3) (file_step False)
     (fs (st 0 2 0 0 [Idle, Writing, Writing]) (only (job line_a 2) (job line_b 2)) [] {#line_a, line_b#})"
proof -
  let ?R = "reachable (file_init 3) (file_step False)"
  note simps = All_less_Suc numeral_3_eq_3 follows_code_def only_def job_def
  have "?R (fs (st 0 0 0 0 [Idle, Idle, Idle]) (only None None) [] {#})"
    by (rule reach_init) (simp add: file_init_def mon_init_def monitor_clear_def numeral_3_eq_3)
  from reach_step [OF this fs_receive [of 1 _ _ line_a]]
  have "?R (fs (st 0 0 0 0 [Idle, Idle, Idle]) (only (job line_a 2) None) [] {#line_a#})"
    by (simp add: only_update del: none_left) (simp add: only_def)
  from reach_step [OF this fs_receive [of 2 _ _ line_b]]
  have "?R (fs (st 0 0 0 0 [Idle, Idle, Idle]) (only (job line_a 2) (job line_b 2)) [] {#line_a, line_b#})"
    by (simp add: only_update add_mset_commute) (simp add: only_def)
  from reach_step [OF this fs_monitor [OF st_steps(1) [of 0]]]
  have "?R (fs (st 1 0 0 0 [RBcast, Idle, Idle]) (only (job line_a 2) (job line_b 2)) [] {#line_a, line_b#})"
    by (simp add: simps)
  from reach_step [OF this fs_monitor [OF st_steps(4) [of 0]]]
  have "?R (fs (st 1 0 0 0 [Reading, Idle, Idle]) (only (job line_a 2) (job line_b 2)) [] {#line_a, line_b#})"
    by (simp add: simps wake_readers_def)
  from reach_step [OF this fs_monitor [OF st_steps(7) [of 1]]]
  have "?R (fs (st 1 0 0 1 [Reading, WWait, Idle]) (only (job line_a 2) (job line_b 2)) [] {#line_a, line_b#})"
    by (simp add: simps)
  from reach_step [OF this fs_monitor [OF st_steps(7) [of 2]]]
  have "?R (fs (st 1 0 0 2 [Reading, WWait, WWait]) (only (job line_a 2) (job line_b 2)) [] {#line_a, line_b#})"
    by (simp add: simps)
  from reach_step [OF this fs_monitor [OF st_steps(5) [of 0]]]
  have "?R (fs (st 0 0 0 2 [Idle, WSig, WSig]) (only (job line_a 2) (job line_b 2)) [] {#line_a, line_b#})"
    by (simp add: simps wake_writers_def)
  from reach_step [OF this fs_monitor [OF st_steps(8) [of 1]]]
  have "?R (fs (st 0 1 0 1 [Idle, Writing, WSig]) (only (job line_a 2) (job line_b 2)) [] {#line_a, line_b#})"
    by (simp add: simps)
  from reach_step [OF this fs_monitor [OF st_steps(8) [of 2]]] show ?thesis by (simp add: simps)
qed

text \<open>C18. Three threads tear lines, without spurious wake-ups and with every line written
  completely: two writers woken together write at the same time, and when all threads are outside
  again the file is not made of the received lines in any order.\<close>

theorem three_threads_tear_lines:
  "\<exists>s. reachable (file_init 3) (file_step False) s
    \<and> (\<forall>t. jobs s t = None) \<and> pcs (sys s) = [Idle, Idle, Idle]
    \<and> received s = {#line_a, line_b#} \<and> \<not> (\<exists>ls. mset ls = received s \<and> file_bytes s = concat ls)"
proof -
  let ?R = "reachable (file_init 3) (file_step False)"
  from reach_step [OF two_writers_inside fs_write [of 1 _ _ line_a 2 1]]
  have "?R (fs (st 0 2 0 0 [Idle, Writing, Writing]) (only (job line_a 1) (job line_b 2)) [97] {#line_a, line_b#})"
    by (simp add: only_update) (simp add: only_def line_a_def)
  from reach_step [OF this fs_write [of 2 _ _ line_b 2 2]]
  have "?R (fs (st 0 2 0 0 [Idle, Writing, Writing]) (only (job line_a 1) (job line_b 0)) [97, 98, 10] {#line_a, line_b#})"
    by (simp add: only_update) (simp add: only_def line_b_def)
  from reach_step [OF this fs_write [of 1 _ _ line_a 1 1]]
  have "?R (fs (st 0 2 0 0 [Idle, Writing, Writing]) (only (job line_a 0) (job line_b 0)) [97, 98, 10, 10] {#line_a, line_b#})"
    by (simp add: only_update) (simp add: only_def line_a_def)
  from reach_step [OF this fs_leave [where t = 1 and l = line_a, OF stop_writing_quietly [of 1]]]
  have "?R (fs (st 0 1 0 0 [Idle, Idle, Writing]) (only None (job line_b 0)) [97, 98, 10, 10] {#line_a, line_b#})"
    by (simp add: only_update) (simp add: only_def)
  from reach_step [OF this fs_leave [where t = 2 and l = line_b, OF stop_writing_quietly [of 2]]]
  have end_state: "?R (fs (st 0 0 0 0 [Idle, Idle, Idle]) (\<lambda>t. None) [97, 98, 10, 10] {#line_a, line_b#})"
    by (simp add: only_update) (simp add: only_def)
  have "concat ls \<noteq> [97, 98, 10, 10]" if ls: "mset ls = {#line_a, line_b#}" for ls
  proof -
    have "length ls = 2" using arg_cong [OF ls, of size] by simp
    then obtain x y where xy: "ls = [x, y]" by (auto simp: length_Suc_conv numeral_2_eq_2)
    then have "x \<in># {#line_a, line_b#}" "length y = 2" using ls by (auto simp: add_eq_conv_ex)
    then show ?thesis by (auto simp: xy line_a_def line_b_def)
  qed
  then have "\<not> (\<exists>ls. mset ls = {#line_a, line_b#} \<and> [97, 98, 10, 10] = concat ls)" by metis
  with end_state show ?thesis by (intro exI conjI) (assumption, simp_all)
qed

end
