(* ===== verification/Server_Writers_Run.thy ===== *)
theory Server_Writers_Run
  imports Server_Writers
begin

text \<open>
  The steps of \<open>file_step\<close> are those of the code: when \<open>aesdsocket_write_line\<close>, as it is
  modelled in \<open>Server_Socket\<close>, runs in a thread whose calls act on the shared file, what it does is a
  run of the step relation, whichever parts of the line the kernel accepts and wherever it fails.
  The second component of the environment decides that.
\<close>

type_synonym 'x file_env = "shared_file \<times> 'x"

definition wrote :: "nat \<Rightarrow> u64 \<Rightarrow> byte list \<Rightarrow> shared_file \<Rightarrow> shared_file" where
  "wrote t k bs s = s\<lparr>jobs := (jobs s)(t := map_option
       (\<lambda>j. j\<lparr>bytes_to_write := bytes_to_write j - k\<rparr>) (jobs s t)),
     file_bytes := file_bytes s @ take (unat k) bs\<rparr>"

text \<open>The calls of thread \<open>t\<close>: \<open>write\<close> appends, fails or is interrupted; the monitor's functions
  act on the shared monitor, and a call that waits does not come back.\<close>

definition thread_writes :: "nat \<Rightarrow> 'x file_env os \<Rightarrow> bool" where
  "thread_writes t S \<longleftrightarrow> (\<forall>fd bs s x. \<exists>r s' x'. os_write S fd bs (s, x) = Inr (r, s', x') \<and>
     (case r of
        Done k \<Rightarrow> unat k \<le> length bs \<and> s' = wrote t k bs s
      | Interrupted \<Rightarrow> s' = s
      | Failed \<Rightarrow> s' = s\<lparr>jobs := (jobs s)(t := None)\<rparr>))"

definition enter_writing :: "nat \<Rightarrow> shared_file \<Rightarrow> stop + shared_file" where
  "enter_writing t s = (let (waits, m) = monitor_start_writing (mon (sys s))
     in if waits then Inl No_return
        else Inr (s\<lparr>sys := \<lparr>mon = m, pcs = (pcs (sys s))[t := Writing]\<rparr>\<rparr>))"

definition leave_writing :: "nat \<Rightarrow> shared_file \<Rightarrow> shared_file" where
  "leave_writing t s = (let (wake_r, wake_w, m) = monitor_stop_writing (mon (sys s));
       ps = (pcs (sys s))[t := Idle];
       ps' = (if wake_r then wake_readers ps else if wake_w then wake_writers ps else ps)
     in s\<lparr>sys := \<lparr>mon = m, pcs = ps'\<rparr>, jobs := (jobs s)(t := None)\<rparr>)"

definition thread_monitors :: "nat \<Rightarrow> 'x file_env os \<Rightarrow> bool" where
  "thread_monitors t S \<longleftrightarrow> (\<forall>s x.
     os_monitor S Start_writing (s, x) = andThen (enter_writing t s) (\<lambda>s'. Inr (s', x))
     \<and> os_monitor S Stop_writing (s, x) = Inr (leave_writing t s, x))"

definition inside :: "nat \<Rightarrow> byte list \<Rightarrow> u64 \<Rightarrow> shared_file \<Rightarrow> bool" where
  "inside t line n s \<longleftrightarrow> t < length (pcs (sys s)) \<and> pcs (sys s) ! t = Writing
     \<and> jobs s t = Some \<lparr>job_line = line, bytes_to_write = n\<rparr>"

lemma one_write:
  assumes S: "thread_writes t S" and s: "inside t line n s" and n: "n \<noteq> 0" and bs: "last_bytes line n = Inr bs"
    and r: "retry_on_eintr f (os_write S fd bs) (s, x) = Inr (r, s', x')"
  shows "file_step b s s' \<and> sys s' = sys s \<and> (case r of None \<Rightarrow> jobs s' t = None | Some k \<Rightarrow> inside t line (n - k) s')"
  using r
proof (induction f arbitrary: x)
  case (Suc f)
  obtain q s1 x1 where call: "os_write S fd bs (s, x) = Inr (q, s1, x1)"
    and q: "case q of Done k \<Rightarrow> unat k \<le> length bs \<and> s1 = wrote t k bs s | Interrupted \<Rightarrow> s1 = s
      | Failed \<Rightarrow> s1 = s\<lparr>jobs := (jobs s)(t := None)\<rparr>"
    using S [unfolded thread_writes_def, rule_format, of fd bs s x] by (elim exE conjE) (rule that)
  let ?j = "\<lparr>job_line = line, bytes_to_write = n\<rparr>"
  have t: "t < length (pcs (sys s))" "pcs (sys s) ! t = Writing" "jobs s t = Some ?j"
    using s by (simp_all add: inside_def)
  show ?case
  proof (cases q)
    case (Done k)
    then have "r = Some k" "s' = wrote t k bs s" "unat k \<le> length bs" using Suc.prems call q by simp_all
    then show ?thesis
      using file_step.write_some [of t s ?j bs "unat k" b] t n bs by (simp add: wrote_def inside_def)
  next
    case Interrupted
    then show ?thesis using Suc.IH [of x1] Suc.prems call q by simp
  next
    case Failed
    then show ?thesis using Suc.prems call q file_step.write_fails [of t s ?j b] t n by auto
  qed
qed simp

lemma write_loop_run:
  assumes S: "thread_writes t S"
  shows "inside t line n s \<Longrightarrow> write_loop S fd f line n (s, x) = Inr (ok, s', x') \<Longrightarrow>
    (file_step b)\<^sup>*\<^sup>* s s' \<and> sys s' = sys s \<and> (if ok then inside t line 0 s' else jobs s' t = None)"
proof (induction f arbitrary: n s x)
  case (Suc f)
  show ?case
  proof (cases "n = 0")
    case False
    obtain bs where bs: "last_bytes line n = Inr bs"
      using Suc.prems(2) False by (cases "last_bytes line n") auto
    obtain r s1 x1 where r: "retry_on_eintr (Suc f) (os_write S fd bs) (s, x) = Inr (r, s1, x1)"
      using Suc.prems(2) False bs by (cases "retry_on_eintr (Suc f) (os_write S fd bs) (s, x)") auto
    note step = one_write [OF S Suc.prems(1) False bs r, of b]
    show ?thesis
    proof (cases r)
      case None
      then show ?thesis using Suc.prems(2) False bs r step by (auto simp del: retry_on_eintr.simps)
    next
      case (Some k)
      then have "write_loop S fd f line (n - k) (s1, x1) = Inr (ok, s', x')"
        using Suc.prems(2) False bs r by (simp del: retry_on_eintr.simps)
      then show ?thesis
        using Suc.IH [of "n - k" s1 x1] step Some by (auto intro: converse_rtranclp_into_rtranclp)
    qed
  qed (use Suc.prems in auto)
qed (auto split: if_splits)

lemma enter_writing_step:
  assumes "enter_writing t s = Inr s'" and "t < length (pcs (sys s))" and "pcs (sys s) ! t = Idle"
    and "jobs s t = Some j"
  shows "file_step b s s'" and "pcs (sys s') = (pcs (sys s))[t := Writing]" and "jobs s' = jobs s"
proof -
  obtain m where m: "monitor_start_writing (mon (sys s)) = (False, m)"
    and s': "s' = s\<lparr>sys := \<lparr>mon = m, pcs = (pcs (sys s))[t := Writing]\<rparr>\<rparr>"
    using assms(1) by (auto simp: enter_writing_def split: prod.splits if_splits)
  show "pcs (sys s') = (pcs (sys s))[t := Writing]" "jobs s' = jobs s" by (simp_all add: s')
  have "jobs_after (pcs (sys s)) ((pcs (sys s))[t := Writing]) (jobs s) = jobs s"
    using assms(2,3) by (auto simp: jobs_after_def fun_eq_iff nth_list_update)
  moreover have "follows_code (pcs (sys s) ! u) (jobs s u) ((pcs (sys s))[t := Writing] ! u)"
    if "u < length (pcs (sys s))" for u
    using assms(3,4) that by (cases "u = t") (auto simp: follows_code_def)
  ultimately show "file_step b s s'"
    using file_step.use_monitor [of b s "\<lparr>mon = m, pcs = (pcs (sys s))[t := Writing]\<rparr>"]
      mon_step.start_writing [OF assms(2,3) m, of b] by (simp add: s')
qed

lemma leave_writing_step:
  assumes s: "inside t line 0 s"
  shows "file_step b s (leave_writing t s)"
proof -
  obtain wr ww m where m: "monitor_stop_writing (mon (sys s)) = (wr, ww, m)" by (metis prod_cases3)
  let ?ps = "pcs (sys s)"
  define ps' where "ps' = (if wr then wake_readers (?ps[t := Idle])
    else if ww then wake_writers (?ps[t := Idle]) else ?ps[t := Idle])"
  have t: "t < length ?ps" "?ps ! t = Writing" "jobs s t = Some \<lparr>job_line = line, bytes_to_write = 0\<rparr>"
    using s by (simp_all add: inside_def)
  have nth: "ps' ! u = (if u = t then Idle else if wr \<and> ?ps ! u = RWait then RSig
      else if \<not> wr \<and> ww \<and> ?ps ! u = WWait then WSig else ?ps ! u)" if "u < length ?ps" for u
    using that t(1) by (auto simp: ps'_def wake_nth nth_list_update)
  have "jobs_after ?ps ps' (jobs s) = (jobs s)(t := None)"
    using t(1,2) by (auto simp: jobs_after_def fun_eq_iff nth)
  moreover have "follows_code (?ps ! u) (jobs s u) (ps' ! u)" if "u < length ?ps" for u
    using t by (cases "u = t") (auto simp: nth [OF that] follows_code_def)
  ultimately show ?thesis
    using file_step.use_monitor [of b s "\<lparr>mon = m, pcs = ps'\<rparr>"] mon_step.stop_writing [OF t(1,2) m, of b]
    by (simp add: leave_writing_def m ps'_def Let_def)
qed

text \<open>C19. A call of \<open>aesdsocket_write_line\<close> by an idle thread that has received a line is a run
  of the step relation: every call it makes on the monitor or the file is a step. When it
  returns true the thread is outside again and has finished its line; when it returns false the
  thread is still inside for the monitor.\<close>

theorem write_line_is_a_run:
  assumes S: "thread_writes t S" "thread_monitors t S" and line: "text_line l"
    and s: "t < length (pcs (sys (fst (env p))))" "pcs (sys (fst (env p))) ! t = Idle"
      "jobs (fst (env p)) t = Some (new_job l)"
    and call: "aesdsocket_write_line S fuel fd (l @ [0]) p = Inr (ok, p')"
  shows "(file_step b)\<^sup>*\<^sup>* (fst (env p)) (fst (env p')) \<and> jobs (fst (env p')) t = None
    \<and> pcs (sys (fst (env p'))) ! t = (if ok then Idle else Writing)"
proof -
  obtain s x where e: "env p = (s, x)" by (cases "env p")
  note mons = S(2) [unfolded thread_monitors_def, rule_format]
  have len: "c_strlen (l @ [0]) = Inr (length l)" using line by (simp add: text_line_def)
  obtain s1 where s1: "enter_writing t s = Inr s1"
    using call by (cases "enter_writing t s") (auto simp: aesdsocket_write_line_def len e mons)
  note enter = enter_writing_step [OF s1]
  have run1: "file_step b s s1" and in1: "inside t (l @ [0]) (of_nat (length l)) s1"
    using enter s by (simp_all add: e inside_def new_job_def)
  obtain s2 x2 ok' where loop: "write_loop S fd fuel (l @ [0]) (of_nat (length l)) (s1, x) = Inr (ok', s2, x2)"
    using call by (cases "write_loop S fd fuel (l @ [0]) (of_nat (length l)) (s1, x)")
      (auto simp: aesdsocket_write_line_def len e mons s1)
  note run2 = write_loop_run [OF S(1) in1 loop, of b]
  show ?thesis
  proof (cases ok')
    case True
    then have p': "ok" "env p' = (leave_writing t s2, x2)"
      using call by (auto simp: aesdsocket_write_line_def len e mons s1 loop)
    have in2: "inside t (l @ [0]) 0 s2" using run2 True by simp
    have "jobs (leave_writing t s2) t = None" "pcs (sys (leave_writing t s2)) ! t = Idle"
      using in2 by (auto simp: leave_writing_def inside_def wake_nth Let_def split: prod.splits)
    moreover have "(file_step b)\<^sup>*\<^sup>* s (leave_writing t s2)"
      using run1 run2 leave_writing_step [OF in2, of b]
      by (meson converse_rtranclp_into_rtranclp rtranclp.rtrancl_into_rtrancl)
    ultimately show ?thesis using p' by (simp add: e)
  next
    case False
    then have "\<not> ok" "env p' = (s2, x2)"
      using call by (auto simp: aesdsocket_write_line_def len e mons s1 loop)
    then show ?thesis
      using run1 run2 False in1 by (auto simp: e inside_def intro: converse_rtranclp_into_rtranclp)
  qed
qed

text \<open>Such a system: the second component of the environment lists what the next writes do.\<close>

definition scripted_write :: "nat \<Rightarrow> byte list \<Rightarrow> u64 io list file_env \<Rightarrow> u64 io \<times> u64 io list file_env" where
  "scripted_write t bs = (\<lambda>(s, replies). case replies of
       Interrupted # rs \<Rightarrow> (Interrupted, s, rs)
     | Failed # rs \<Rightarrow> (Failed, s\<lparr>jobs := (jobs s)(t := None)\<rparr>, rs)
     | Done k # rs \<Rightarrow> (let m = (if unat k \<le> length bs then k else 0) in (Done m, wrote t m bs s, rs))
     | [] \<Rightarrow> (Done 0, wrote t 0 bs s, []))"

definition scripted_os :: "nat \<Rightarrow> u64 io list file_env os" where
  "scripted_os t =
     \<lparr>os_realloc = (\<lambda>h p n. (NULL, h)), os_signal = (\<lambda>e. (None, e)),
      os_recv = (\<lambda>fd n e. Inr (Failed, e)), os_send = (\<lambda>fd bs e. Inr (Failed, e)),
      os_read = (\<lambda>fd n e. Inr (Failed, e)), os_write = (\<lambda>fd bs e. Inr (scripted_write t bs e)),
      os_open = (\<lambda>name a e. Inr (Failed, e)), os_close = (\<lambda>fd e. e),
      os_ioctl_seekto = (\<lambda>fd r e. Inr (Failed, e)),
      os_monitor = (\<lambda>op (s, x). case op of
          Start_writing \<Rightarrow> andThen (enter_writing t s) (\<lambda>s'. Inr (s', x))
        | Stop_writing \<Rightarrow> Inr (leave_writing t s, x)
        | _ \<Rightarrow> Inl No_return),
      os_clock = (\<lambda>e. Inr (Failed, e)), os_localtime = (\<lambda>_. None), os_strftime = (\<lambda>_ _ _. [])\<rparr>"

lemma scripted_os_writes: "thread_writes t (scripted_os t)" and scripted_os_monitors: "thread_monitors t (scripted_os t)"
  by (auto simp: thread_writes_def thread_monitors_def scripted_os_def scripted_write_def Let_def
      split: list.splits io.splits)

definition writer_proc :: "u64 io list file_env proc" where
  "writer_proc = \<lparr>env = (\<lparr>sys = \<lparr>mon = monitor_clear, pcs = [Idle, Idle]\<rparr>, jobs = (\<lambda>t. None)(0 := Some (new_job [97, 10])),
     file_bytes = [], received = {#[97, 10]#}\<rparr>, [Interrupted, Done 1, Done 1]),
     mem = (\<lambda>_. None), args = (\<lambda>_. None), termination_flag = False, timestamp_flag = False\<rparr>"

lemma writer_line: "text_line [97, 10]"
  by (simp add: text_line_def is_line_def TERMINATOR_CHARACTER_def)

lemma writer_proc_writes:
  "\<exists>p'. aesdsocket_write_line (scripted_os 0) (Suc (Suc (Suc 0))) 3 ([97, 10] @ [0]) writer_proc = Inr (True, p')
    \<and> file_bytes (fst (env p')) = [97, 10]"
  by (simp add: aesdsocket_write_line_def scripted_os_def writer_proc_def enter_writing_def leave_writing_def
      monitor_unfold scripted_write_def wrote_def new_job_def last_bytes_def)

theorem write_line_is_a_run_witness:
  "\<exists>p' :: u64 io list file_env proc. file_bytes (fst (env p')) = [97, 10] \<and> (file_step False)\<^sup>*\<^sup>* (fst (env writer_proc)) (fst (env p'))
    \<and> jobs (fst (env p')) 0 = None"
proof -
  obtain p' where p': "aesdsocket_write_line (scripted_os 0) (Suc (Suc (Suc 0))) 3 ([97, 10] @ [0]) writer_proc = Inr (True, p')"
    "file_bytes (fst (env p')) = [97, 10]" using writer_proc_writes by blast
  show ?thesis
    using write_line_is_a_run [OF scripted_os_writes scripted_os_monitors writer_line _ _ _ p'(1), of False] p'(2)
    by - (rule exI [of _ p'], simp add: writer_proc_def)
qed

end
