(* ===== verification/Server_Try.thy ===== *)
theory Server_Try
  imports Server_Os
begin

text \<open>
  The macros of \<open>server/include/try.h\<close>, each under its own name, as they expand: expressions are
  functions on the state of the process with \<open>errno\<close> and the log, and a macro ends by falling
  through to the next statement, by a jump to the label \<open>done\<close> or by a \<open>continue\<close> of the loop around it.
  The other theories use the retry loop and the test of a call without the log and with the kind of
  failure in place of \<open>errno\<close>; the last section shows that these are the same.
\<close>

section \<open>State and control\<close>

record 'e c_state =
  c_env :: 'e
  c_errno :: int
  c_log :: "string list"

datatype control = Falls_through | Goes_to_done | Continues

type_synonym ('a, 'e) expr = "'e c_state \<Rightarrow> stop + ('a \<times> 'e c_state)"
type_synonym 'e stmt = "'e c_state \<Rightarrow> stop + (control \<times> 'e c_state)"
type_synonym 'e message = "'e c_state \<Rightarrow> string"

definition errno_EINTR :: int where "errno_EINTR = 4"

text \<open>The place of the macro in the source, which the log entry starts with, is left out.\<close>

definition LOG_ERROR :: "string \<Rightarrow> 'e c_state \<Rightarrow> 'e c_state" where
  "LOG_ERROR message s = s\<lparr>c_log := c_log s @ [message]\<rparr>"

text \<open>The conditions \<open>!(expr)\<close> and \<open>(expr) == -1\<close>, and the message \<open>strerror(errno)\<close>.\<close>

definition c_not :: "(bool, 'e) expr \<Rightarrow> (bool, 'e) expr" where
  "c_not ex s = andThen (ex s) (\<lambda>(b, s'). Inr (\<not> b, s'))"

definition c_fails :: "(int, 'e) expr \<Rightarrow> (bool, 'e) expr" where
  "c_fails ex s = andThen (ex s) (\<lambda>(i, s'). Inr (i = - 1, s'))"

definition errno_message :: "(int \<Rightarrow> string) \<Rightarrow> 'e message" where
  "errno_message strerror s = strerror (c_errno s)"

definition errno_is_EINTR :: "'e c_state \<Rightarrow> bool" where
  "errno_is_EINTR s \<longleftrightarrow> c_errno s = errno_EINTR"

section \<open>Repeating a call\<close>

text \<open>The fuel bounds the evaluations of the condition of the loop.\<close>

fun TRYCATCH_RETRY ::
  "nat \<Rightarrow> (bool, 'e) expr \<Rightarrow> control \<Rightarrow> ('e c_state \<Rightarrow> bool) \<Rightarrow> 'e message \<Rightarrow> 'e stmt" where
  "TRYCATCH_RETRY 0 error_condition error_action retry_condition error_message s = Inl No_return"
| "TRYCATCH_RETRY (Suc n) error_condition error_action retry_condition error_message s =
     andThen (error_condition s) (\<lambda>(failed, s1).
       if \<not> failed then Inr (Falls_through, s1)
       else if \<not> retry_condition s1 then Inr (error_action, LOG_ERROR (error_message s1) s1)
       else TRYCATCH_RETRY n error_condition error_action retry_condition error_message s1)"

definition TRY_RETRY :: "nat \<Rightarrow> (bool, 'e) expr \<Rightarrow> ('e c_state \<Rightarrow> bool) \<Rightarrow> 'e message \<Rightarrow> 'e stmt" where
  "TRY_RETRY n ex retry_condition error_message =
     TRYCATCH_RETRY n (c_not ex) Goes_to_done retry_condition error_message"

definition TRYC_RETRY :: "nat \<Rightarrow> (int, 'e) expr \<Rightarrow> ('e c_state \<Rightarrow> bool) \<Rightarrow> 'e message \<Rightarrow> 'e stmt" where
  "TRYC_RETRY n ex retry_condition error_message =
     TRYCATCH_RETRY n (c_fails ex) Goes_to_done retry_condition error_message"

definition TRY_RETRY_ERRNO :: "(int \<Rightarrow> string) \<Rightarrow> nat \<Rightarrow> (bool, 'e) expr \<Rightarrow> ('e c_state \<Rightarrow> bool) \<Rightarrow> 'e stmt" where
  "TRY_RETRY_ERRNO strerror n ex retry_condition = TRY_RETRY n ex retry_condition (errno_message strerror)"

definition TRYC_RETRY_ERRNO :: "(int \<Rightarrow> string) \<Rightarrow> nat \<Rightarrow> (int, 'e) expr \<Rightarrow> ('e c_state \<Rightarrow> bool) \<Rightarrow> 'e stmt" where
  "TRYC_RETRY_ERRNO strerror n ex retry_condition = TRYC_RETRY n ex retry_condition (errno_message strerror)"

definition TRY_RETRY_ON_EINTR :: "(int \<Rightarrow> string) \<Rightarrow> nat \<Rightarrow> (bool, 'e) expr \<Rightarrow> 'e stmt" where
  "TRY_RETRY_ON_EINTR strerror n ex = TRY_RETRY_ERRNO strerror n ex errno_is_EINTR"

definition TRYC_RETRY_ON_EINTR :: "(int \<Rightarrow> string) \<Rightarrow> nat \<Rightarrow> (int, 'e) expr \<Rightarrow> 'e stmt" where
  "TRYC_RETRY_ON_EINTR strerror n ex = TRYC_RETRY_ERRNO strerror n ex errno_is_EINTR"

section \<open>Continuing the loop around\<close>

definition TRYCATCH_CONTINUE ::
  "(bool, 'e) expr \<Rightarrow> control \<Rightarrow> ('e c_state \<Rightarrow> bool) \<Rightarrow> 'e message \<Rightarrow> 'e stmt" where
  "TRYCATCH_CONTINUE error_condition error_action continue_condition error_message s =
     andThen (error_condition s) (\<lambda>(failed, s1).
       if failed
       then if continue_condition s1 then Inr (Continues, s1)
            else Inr (error_action, LOG_ERROR (error_message s1) s1)
       else Inr (Falls_through, s1))"

definition TRY_CONTINUE :: "(bool, 'e) expr \<Rightarrow> ('e c_state \<Rightarrow> bool) \<Rightarrow> 'e message \<Rightarrow> 'e stmt" where
  "TRY_CONTINUE ex continue_condition error_message =
     TRYCATCH_CONTINUE (c_not ex) Goes_to_done continue_condition error_message"

definition TRYC_CONTINUE :: "(int, 'e) expr \<Rightarrow> ('e c_state \<Rightarrow> bool) \<Rightarrow> 'e message \<Rightarrow> 'e stmt" where
  "TRYC_CONTINUE ex continue_condition error_message =
     TRYCATCH_CONTINUE (c_fails ex) Goes_to_done continue_condition error_message"

definition TRY_CONTINUE_ERRNO :: "(int \<Rightarrow> string) \<Rightarrow> (bool, 'e) expr \<Rightarrow> ('e c_state \<Rightarrow> bool) \<Rightarrow> 'e stmt" where
  "TRY_CONTINUE_ERRNO strerror ex continue_condition =
     TRY_CONTINUE ex continue_condition (errno_message strerror)"

definition TRYC_CONTINUE_ERRNO :: "(int \<Rightarrow> string) \<Rightarrow> (int, 'e) expr \<Rightarrow> ('e c_state \<Rightarrow> bool) \<Rightarrow> 'e stmt" where
  "TRYC_CONTINUE_ERRNO strerror ex continue_condition =
     TRYC_CONTINUE ex continue_condition (errno_message strerror)"

definition TRY_CONTINUE_ON_EINTR :: "(int \<Rightarrow> string) \<Rightarrow> (bool, 'e) expr \<Rightarrow> 'e stmt" where
  "TRY_CONTINUE_ON_EINTR strerror ex = TRY_CONTINUE_ERRNO strerror ex errno_is_EINTR"

definition TRYC_CONTINUE_ON_EINTR :: "(int \<Rightarrow> string) \<Rightarrow> (int, 'e) expr \<Rightarrow> 'e stmt" where
  "TRYC_CONTINUE_ON_EINTR strerror ex = TRYC_CONTINUE_ERRNO strerror ex errno_is_EINTR"

section \<open>Testing a call\<close>

definition TRYCATCH :: "(bool, 'e) expr \<Rightarrow> control \<Rightarrow> 'e message \<Rightarrow> 'e stmt" where
  "TRYCATCH condition action message s =
     andThen (condition s) (\<lambda>(failed, s1).
       if failed then Inr (action, LOG_ERROR (message s1) s1) else Inr (Falls_through, s1))"

definition TRY :: "(bool, 'e) expr \<Rightarrow> 'e message \<Rightarrow> 'e stmt" where
  "TRY ex message = TRYCATCH (c_not ex) Goes_to_done message"

definition TRYC :: "(int, 'e) expr \<Rightarrow> 'e message \<Rightarrow> 'e stmt" where
  "TRYC ex message = TRYCATCH (c_fails ex) Goes_to_done message"

definition TRY_ERRNO :: "(int \<Rightarrow> string) \<Rightarrow> (bool, 'e) expr \<Rightarrow> 'e stmt" where
  "TRY_ERRNO strerror ex = TRY ex (errno_message strerror)"

definition TRYC_ERRNO :: "(int \<Rightarrow> string) \<Rightarrow> (int, 'e) expr \<Rightarrow> 'e stmt" where
  "TRYC_ERRNO strerror ex = TRYC ex (errno_message strerror)"

text \<open>The function \<open>getaddrinfo\<close>, applied to its arguments, gives its status; the macro stores it.\<close>

definition TRY_GETADDRINFO :: "(int \<Rightarrow> string) \<Rightarrow> (int, 'e) expr \<Rightarrow> 'e c_state \<Rightarrow>
    stop + (int \<times> control \<times> 'e c_state)" where
  "TRY_GETADDRINFO gai_strerror getaddrinfo s =
     andThen (getaddrinfo s) (\<lambda>(status_var, s1).
       if status_var \<noteq> 0 then Inr (status_var, Goes_to_done, LOG_ERROR (gai_strerror status_var) s1)
       else Inr (status_var, Falls_through, s1))"

text \<open>\<open>dest = malloc(sizeof(type) * (number))\<close>, the size computed in 64 bits; \<open>store\<close> assigns to \<open>dest\<close>.\<close>

definition TRY_ALLOCATE_MANY ::
  "(int \<Rightarrow> string) \<Rightarrow> (u64 \<Rightarrow> (ptr, 'e) expr) \<Rightarrow> (ptr \<Rightarrow> 'e \<Rightarrow> 'e) \<Rightarrow> u64 \<Rightarrow> u64 \<Rightarrow> 'e stmt" where
  "TRY_ALLOCATE_MANY strerror malloc store type_size number =
     TRY_ERRNO strerror (\<lambda>s. andThen (malloc (type_size * number) s) (\<lambda>(p, s1).
       Inr (p \<noteq> NULL, s1\<lparr>c_env := store p (c_env s1)\<rparr>)))"

definition TRY_ALLOCATE ::
  "(int \<Rightarrow> string) \<Rightarrow> (u64 \<Rightarrow> (ptr, 'e) expr) \<Rightarrow> (ptr \<Rightarrow> 'e \<Rightarrow> 'e) \<Rightarrow> u64 \<Rightarrow> 'e stmt" where
  "TRY_ALLOCATE strerror malloc store type_size = TRY_ALLOCATE_MANY strerror malloc store type_size 1"

text \<open>The functions of pthreads return their error number, which is copied to \<open>errno\<close>.\<close>

definition TRY_PTHREAD_CREATE :: "(int \<Rightarrow> string) \<Rightarrow> (int, 'e) expr \<Rightarrow> 'e c_state \<Rightarrow>
    stop + (int \<times> control \<times> 'e c_state)" where
  "TRY_PTHREAD_CREATE strerror pthread_create s =
     andThen (pthread_create s) (\<lambda>(status_var, s1).
       if status_var \<noteq> 0
       then let s2 = s1\<lparr>c_errno := status_var\<rparr>
            in Inr (status_var, Goes_to_done, LOG_ERROR (strerror (c_errno s2)) s2)
       else Inr (status_var, Falls_through, s1))"

definition TRY_PTHREAD_JOIN_NOACTION :: "(int \<Rightarrow> string) \<Rightarrow> (int, 'e) expr \<Rightarrow> 'e c_state \<Rightarrow>
    stop + (int \<times> control \<times> 'e c_state)" where
  "TRY_PTHREAD_JOIN_NOACTION strerror pthread_join s =
     andThen (pthread_join s) (\<lambda>(status_var, s1).
       if status_var \<noteq> 0
       then let s2 = s1\<lparr>c_errno := status_var\<rparr>
            in Inr (status_var, Falls_through, LOG_ERROR (strerror (c_errno s2)) s2)
       else Inr (status_var, Falls_through, s1))"

definition TRY_PTHREAD_JOIN :: "(int \<Rightarrow> string) \<Rightarrow> (int, 'e) expr \<Rightarrow> 'e c_state \<Rightarrow>
    stop + (int \<times> control \<times> 'e c_state)" where
  "TRY_PTHREAD_JOIN strerror pthread_join s =
     andThen (pthread_join s) (\<lambda>(status_var, s1).
       if status_var \<noteq> 0
       then let s2 = s1\<lparr>c_errno := status_var\<rparr>
            in Inr (status_var, Goes_to_done, LOG_ERROR (strerror (c_errno s2)) s2)
       else Inr (status_var, Falls_through, s1))"

section \<open>The macros and the model of the server\<close>

text \<open>\<open>x = call\<close>, for a call of the record \<open>os\<close>: the variable \<open>x\<close> is the first component of the
  environment, \<open>None\<close> for \<open>-1\<close>. A failure that is not an interruption sets \<open>errno\<close> to \<open>err\<close>.\<close>

definition assigned :: "int \<Rightarrow> ('e \<Rightarrow> stop + ('a io \<times> 'e)) \<Rightarrow> (int, 'a option \<times> 'e) expr" where
  "assigned err call s = andThen (call (snd (c_env s))) (\<lambda>(r, e). Inr (case r of
       Done x \<Rightarrow> (0, s\<lparr>c_env := (Some x, e)\<rparr>)
     | Interrupted \<Rightarrow> (- 1, s\<lparr>c_env := (None, e), c_errno := errno_EINTR\<rparr>)
     | Failed \<Rightarrow> (- 1, s\<lparr>c_env := (None, e), c_errno := err\<rparr>)))"

lemmas try_defs = TRYC_RETRY_ON_EINTR_def TRYC_RETRY_ERRNO_def TRYC_RETRY_def TRYC_CONTINUE_ON_EINTR_def
  TRYC_CONTINUE_ERRNO_def TRYC_CONTINUE_def TRYCATCH_CONTINUE_def TRYC_ERRNO_def TRYC_def TRYCATCH_def
  c_fails_def errno_message_def errno_is_EINTR_def LOG_ERROR_def

text \<open>What a macro leaves when the variable is the value of the call or a failure.\<close>

definition left_by :: "'b c_state \<Rightarrow> stop + (control \<times> ('a option \<times> 'e) c_state) \<Rightarrow> stop + ('a option \<times> 'e) \<Rightarrow> bool" where
  "left_by s outcome r \<longleftrightarrow> (case r of
     Inl x \<Rightarrow> outcome = Inl x
   | Inr (v, e) \<Rightarrow> \<exists>s'. outcome = Inr (if v = None then Goes_to_done else Falls_through, s') \<and> c_env s' = (v, e)
       \<and> length (c_log s') = length (c_log s) + (if v = None then 1 else 0))"

text \<open>The retry macro is \<open>retry_on_eintr\<close>: the same calls, the same results, a jump and one entry in
  the log exactly when the call has failed.\<close>

lemma TRYC_RETRY_ON_EINTR_step:
  "TRYC_RETRY_ON_EINTR strerror (Suc n) ex s = andThen (ex s) (\<lambda>(i, s1).
     if i \<noteq> - 1 then Inr (Falls_through, s1)
     else if c_errno s1 = errno_EINTR then TRYC_RETRY_ON_EINTR strerror n ex s1
     else Inr (Goes_to_done, LOG_ERROR (strerror (c_errno s1)) s1))"
  by (cases "ex s") (auto simp: try_defs)

lemma assigned_simps:
  "call (snd (c_env s)) = Inl x \<Longrightarrow> assigned err call s = Inl x"
  "call (snd (c_env s)) = Inr (Done v, e) \<Longrightarrow> assigned err call s = Inr (0, s\<lparr>c_env := (Some v, e)\<rparr>)"
  "call (snd (c_env s)) = Inr (Interrupted, e) \<Longrightarrow>
     assigned err call s = Inr (- 1, s\<lparr>c_env := (None, e), c_errno := errno_EINTR\<rparr>)"
  "call (snd (c_env s)) = Inr (Failed, e) \<Longrightarrow>
     assigned err call s = Inr (- 1, s\<lparr>c_env := (None, e), c_errno := err\<rparr>)"
  by (simp_all add: assigned_def)

lemma TRYC_RETRY_ON_EINTR_is_retry:
  "err \<noteq> errno_EINTR \<Longrightarrow>
    left_by s (TRYC_RETRY_ON_EINTR strerror n (assigned err call) s) (retry_on_eintr n call (snd (c_env s)))"
proof (induction n arbitrary: s)
  case 0
  then show ?case by (simp add: try_defs left_by_def)
next
  case (Suc n)
  show ?case
  proof (cases "call (snd (c_env s))")
    case (Inl x)
    then show ?thesis by (simp add: TRYC_RETRY_ON_EINTR_step assigned_simps left_by_def)
  next
    case (Inr y)
    obtain r e where y: "y = (r, e)" by (cases y)
    show ?thesis
    proof (cases r)
      case Interrupted
      then show ?thesis
        using Suc.IH [OF Suc.prems, of "s\<lparr>c_env := (None, e), c_errno := errno_EINTR\<rparr>"] Inr y
        by (auto simp: TRYC_RETRY_ON_EINTR_step assigned_simps left_by_def split: sum.splits)
    qed (use Inr y Suc.prems in
          \<open>simp_all add: TRYC_RETRY_ON_EINTR_step assigned_simps left_by_def LOG_ERROR_def\<close>)
  qed
qed

text \<open>The test of a call is \<open>try_errno\<close>.\<close>

lemma TRYC_ERRNO_is_try_errno:
  "left_by s (TRYC_ERRNO strerror (assigned err call) s) (try_errno (call (snd (c_env s))))"
proof (cases "call (snd (c_env s))")
  case (Inr y)
  obtain r e where "y = (r, e)" by (cases y)
  then show ?thesis using Inr by (cases r) (simp_all add: try_defs assigned_def left_by_def)
qed (simp add: try_defs assigned_def left_by_def try_errno_def)

text \<open>The macro of the receiving and the accepting loop: an interruption starts the next round, a
  failure leaves the function, and only the failure is logged.\<close>

lemma TRYC_CONTINUE_ON_EINTR_cases:
  assumes "call (snd (c_env s)) = Inr (r, e)" and "err \<noteq> errno_EINTR"
  shows "\<exists>s'. TRYC_CONTINUE_ON_EINTR strerror (assigned err call) s
      = Inr (case r of Done _ \<Rightarrow> Falls_through | Interrupted \<Rightarrow> Continues | Failed \<Rightarrow> Goes_to_done, s')
    \<and> c_env s' = (case r of Done x \<Rightarrow> Some x | _ \<Rightarrow> None, e)
    \<and> c_log s' = c_log s @ (if r = Failed then [strerror err] else [])"
  using assms by (cases r) (simp_all add: try_defs assigned_def)

text \<open>The size asked for is the product modulo \<open>2 ^ 64\<close>: for large numbers of elements the block is too small.\<close>

lemma TRY_ALLOCATE_MANY_wraps:
  "TRY_ALLOCATE_MANY strerror malloc store 16 (2 ^ 60 + 1) = TRY_ALLOCATE_MANY strerror malloc store 16 1"
proof -
  have "(16 :: u64) * (2 ^ 60 + 1) = 16 * 1" by simp
  then show ?thesis by (simp only: TRY_ALLOCATE_MANY_def)
qed

end
