(* ===== verification/Server_Daemon.thy ===== *)
theory Server_Daemon
  imports Server_Main
begin

text \<open>
  \<open>aesdsocket_daemonize\<close> on a table of descriptors: the calls take the lowest free descriptor, as
  POSIX says, so the code's three calls after closing 0, 1 and 2 give these back in that order.
\<close>

datatype opened = Dev_null | Other nat

record table =
  fds :: "int \<Rightarrow> opened option"
  cwd :: "byte list"
  session_leader :: bool

text \<open>The limit on open descriptors.\<close>

definition OPEN_MAX :: int where "OPEN_MAX = 1024"

definition lowest_free :: "(int \<Rightarrow> opened option) \<Rightarrow> int option" where
  "lowest_free table = find (\<lambda>fd. table fd = None) [0..OPEN_MAX - 1]"

definition place :: "opened option \<Rightarrow> table \<Rightarrow> stop + (int io \<times> table)" where
  "place f e = (case (lowest_free (fds e), f) of
     (Some fd, Some x) \<Rightarrow> Inr (Done fd, e\<lparr>fds := (fds e)(fd \<mapsto> x)\<rparr>)
   | _ \<Rightarrow> Inr (Failed, e))"

text \<open>Any platform with these calls in place of its own; \<open>pid\<close> is what \<open>fork\<close> returns, so \<open>0\<close> in
  the child.\<close>

definition with_table :: "int \<Rightarrow> table platform \<Rightarrow> table platform" where
  "with_table pid P = P\<lparr>
     pl_os := (pl_os P)\<lparr>os_close := (\<lambda>fd e. e\<lparr>fds := (fds e)(fd := None)\<rparr>)\<rparr>,
     pl_fork := (\<lambda>e. Inr (if pid < 0 then Failed else Done pid, e)),
     pl_setsid := (\<lambda>e. if session_leader e then Inr (Failed, e) else Inr (Done 1, e\<lparr>session_leader := True\<rparr>)),
     pl_chdir := (\<lambda>dir e. Inr (Done 0, e\<lparr>cwd := dir\<rparr>)),
     pl_open_null := place (Some Dev_null),
     pl_dup := (\<lambda>fd e. place (fds e fd) e)\<rparr>"

lemma lowest_free_small:
  "table 0 = None \<Longrightarrow> lowest_free table = Some 0"
  "table 0 \<noteq> None \<Longrightarrow> table 1 = None \<Longrightarrow> lowest_free table = Some 1"
  "table 0 \<noteq> None \<Longrightarrow> table 1 \<noteq> None \<Longrightarrow> table 2 = None \<Longrightarrow> lowest_free table = Some 2"
proof -
  have "[0..OPEN_MAX - 1] = 0 # 1 # 2 # [3..1023]"
    by (simp add: OPEN_MAX_def upto_rec1 del: upto_rec_numeral)
  then show "table 0 = None \<Longrightarrow> lowest_free table = Some 0"
    "table 0 \<noteq> None \<Longrightarrow> table 1 = None \<Longrightarrow> lowest_free table = Some 1"
    "table 0 \<noteq> None \<Longrightarrow> table 1 \<noteq> None \<Longrightarrow> table 2 = None \<Longrightarrow> lowest_free table = Some 2"
    by (simp_all add: lowest_free_def)
qed

text \<open>The child is a session leader in the root directory with its standard descriptors on
  \<open>/dev/null\<close> and every other descriptor as it was.\<close>

lemma daemon_detaches:
  assumes "\<not> session_leader e"
  shows "aesdsocket_daemonize (with_table 0 P) e = Inr (Returned True,
    \<lparr>fds = (fds e)(0 \<mapsto> Dev_null, 1 \<mapsto> Dev_null, 2 \<mapsto> Dev_null), cwd = root_directory, session_leader = True\<rparr>)"
  using assms
  by (cases e) (simp add: aesdsocket_daemonize_def with_table_def place_def lowest_free_small fun_upd_twist)

text \<open>The parent exits with status 0 and has changed nothing, as a failing \<open>fork\<close> has not; a
  session leader cannot become a daemon and keeps its descriptors.\<close>

lemma parent_exits: "0 < pid \<Longrightarrow> aesdsocket_daemonize (with_table pid P) e = Inr (Exited 0, e)"
  by (simp add: aesdsocket_daemonize_def with_table_def)

lemma fork_fails: "pid < 0 \<Longrightarrow> aesdsocket_daemonize (with_table pid P) e = Inr (Returned False, e)"
  by (simp add: aesdsocket_daemonize_def with_table_def)

lemma leader_stays: "session_leader e \<Longrightarrow> aesdsocket_daemonize (with_table 0 P) e = Inr (Returned False, e)"
  by (simp add: aesdsocket_daemonize_def with_table_def)

end
