(* ===== verification/Example_Systemcalls.thy ===== *)
theory Example_Systemcalls
  imports Aesd_Prelude
begin

text \<open>
  \<open>examples/systemcalls/systemcalls.c\<close>: running a command with \<open>system\<close>, with \<open>fork\<close> and
  \<open>execv\<close>, and with its output in a file. \<open>fork\<close> returns in two processes, so the functions
  that call it are read once for each: a call \<open>Returns\<close> in the parent; the child \<open>Exits\<close> or
  \<open>Becomes\<close> another program. The messages are left out.
\<close>

unbundle bit_operations_syntax

section \<open>Wait statuses\<close>

type_synonym c_string = "byte list"

definition WIFEXITED :: "u32 \<Rightarrow> bool" where
  "WIFEXITED status \<longleftrightarrow> status AND 0x7F = 0"

definition WEXITSTATUS :: "u32 \<Rightarrow> u32" where
  "WEXITSTATUS status = drop_bit 8 (status AND 0xFF00)"

text \<open>The status of a process that has called \<open>exit (code)\<close>.\<close>

definition exited :: "nat \<Rightarrow> u32" where
  "exited code = of_nat (256 * (code mod 256))"

text \<open>The status of a process ended by a signal; the eighth bit says whether it left a core dump.\<close>

definition killed :: "nat \<Rightarrow> bool \<Rightarrow> u32" where
  "killed signal core = of_nat (signal + (if core then 128 else 0))"

lemma exited_word:
  assumes "code < 256"
  shows "exited code = push_bit 8 (of_nat code)" and "unat (of_nat code :: u32) = code"
proof -
  show "unat (of_nat code :: u32) = code" using assms by (intro unat_of_nat_u32) simp
  show "exited code = push_bit 8 (of_nat code)"
    using assms by (simp add: exited_def push_bit_eq_mult)
qed

lemma small_byte: "code < 256 \<Longrightarrow> (of_nat code :: u32) AND 0xFF = of_nat code"
proof -
  assume c: "code < 256"
  have "(of_nat code :: u32) AND 0xFF = take_bit 8 (of_nat code)"
    by (simp add: take_bit_eq_mask mask_eq_decr_exp)
  also have "\<dots> = of_nat code"
    using c by (simp add: take_bit_of_nat take_bit_nat_eq_self)
  finally show ?thesis .
qed

lemma exited_decoded:
  assumes "code < 256"
  shows "WIFEXITED (exited code)" and "WEXITSTATUS (exited code) = of_nat code"
proof -
  have low: "x AND 0x7F = take_bit 7 x" for x :: u32
    by (simp add: take_bit_eq_mask mask_eq_decr_exp)
  have "push_bit 8 (of_nat code) AND (0x7F :: u32) = 0"
    unfolding low take_bit_push_bit by (simp only: diff_is_0_eq' [of 7 8]) simp
  then show "WIFEXITED (exited code)" by (simp add: WIFEXITED_def exited_word(1) [OF assms])
  have shifted: "drop_bit 8 (push_bit 8 (of_nat code :: u32)) = of_nat code"
  proof (rule word_of_unat)
    show "unat (drop_bit 8 (push_bit 8 (of_nat code :: u32))) = code"
      using assms by (simp add: unat_drop_bit_eq push_bit_eq_mult drop_bit_eq_div unat_word_ariths exited_word(2))
  qed
  have "drop_bit 8 (x AND 0xFF00) = drop_bit 8 x AND 0xFF" for x :: u32
    by (simp add: drop_bit_and)
  then show "WEXITSTATUS (exited code) = of_nat code"
    unfolding WEXITSTATUS_def exited_word(1) [OF assms] by (simp only: shifted small_byte [OF assms])
qed

lemma killed_decoded:
  assumes "0 < signal" and "signal < 127"
  shows "\<not> WIFEXITED (killed signal core)"
proof -
  have "killed signal core AND 0x7F = take_bit 7 (killed signal core)"
    by (simp add: take_bit_eq_mask mask_eq_decr_exp)
  also have "\<dots> = of_nat (take_bit 7 (signal + (if core then 128 else 0)))"
    unfolding killed_def by (simp only: take_bit_of_nat)
  also have "take_bit 7 (signal + (if core then 128 else 0)) = signal"
    using assms by (simp add: take_bit_eq_mod)
  finally have "killed signal core AND 0x7F = of_nat signal" .
  moreover have "unat (of_nat signal :: u32) = signal"
    using assms(2) by (intro unat_of_nat_u32) simp
  ultimately show ?thesis using assms(1) by (metis WIFEXITED_def unat_eq_zero less_numeral_extra(3))
qed

section \<open>A command for the shell\<close>

definition do_system :: "(c_string option \<Rightarrow> u32) \<Rightarrow> c_string option \<Rightarrow> bool" where
  "do_system system cmd =
     (let status = system cmd
      in if status = - 1 then False
         else if cmd = None \<and> status = 0 then False
         else if WIFEXITED status then WEXITSTATUS status \<noteq> 127
         else False)"

section \<open>Programs\<close>

datatype ending = Returns bool | Exits nat | Becomes "c_string option list"

definition EXIT_FAILURE :: nat where "EXIT_FAILURE = 1"

text \<open>The array \<open>command\<close> of \<open>count + 1\<close> pointers: the variable arguments and \<open>NULL\<close>. Reading
  more arguments than were passed is undefined.\<close>

fun collect_arguments :: "nat \<Rightarrow> c_string list \<Rightarrow> stop + c_string option list" where
  "collect_arguments 0 arguments = Inr [None]"
| "collect_arguments (Suc n) [] = Inl Out_of_bounds"
| "collect_arguments (Suc n) (a # arguments) =
     andThen (collect_arguments n arguments) (\<lambda>command. Inr (Some a # command))"

text \<open>\<open>execv\<close> of a command that can be executed does not return.\<close>

definition do_exec_child :: "(c_string option list \<Rightarrow> bool) \<Rightarrow> c_string option list \<Rightarrow> ending" where
  "do_exec_child execv command = (if execv command then Becomes command else Exits EXIT_FAILURE)"

text \<open>From \<open>fork\<close> to \<open>return\<close>: \<open>fork\<close> is what it returns, \<open>wait_status\<close> the status that
  \<open>waitpid\<close> stores, if it succeeds.\<close>

definition wait_for_child :: "u32 option \<Rightarrow> bool" where
  "wait_for_child wait_status =
     (case wait_status of
        None \<Rightarrow> False
      | Some status \<Rightarrow> WIFEXITED status \<and> WEXITSTATUS status = 0)"

definition do_exec ::
  "(c_string option list \<Rightarrow> bool) \<Rightarrow> int \<Rightarrow> u32 option \<Rightarrow> nat \<Rightarrow> c_string list \<Rightarrow> stop + ending" where
  "do_exec execv fork wait_status count arguments =
     andThen (collect_arguments count arguments) (\<lambda>command.
       Inr (if fork = - 1 then Returns False
            else if fork = 0 then do_exec_child execv command
            else Returns (wait_for_child wait_status)))"

section \<open>Redirecting the output\<close>

text \<open>The descriptor table of the child: the file of each open descriptor. \<open>creat\<close> fails for a file
  that is not \<open>creatable\<close> (a missing directory, no permission) and when none of the 1024
  descriptors is free; otherwise it takes the first free one.\<close>

type_synonym fd_table = "nat \<Rightarrow> c_string option"

definition c_creat :: "(c_string \<Rightarrow> bool) \<Rightarrow> c_string \<Rightarrow> fd_table \<Rightarrow> nat option \<times> fd_table" where
  "c_creat creatable outputfile fds =
     (if \<not> creatable outputfile then (None, fds)
      else case List.find (\<lambda>fd. fds fd = None) [0..<1024] of
        None \<Rightarrow> (None, fds)
      | Some fd \<Rightarrow> (Some fd, fds(fd \<mapsto> outputfile)))"

definition c_close :: "nat \<Rightarrow> fd_table \<Rightarrow> bool \<times> fd_table" where
  "c_close fd fds = (fds fd \<noteq> None, fds(fd := None))"

definition c_dup2 :: "nat \<Rightarrow> nat \<Rightarrow> fd_table \<Rightarrow> bool \<times> fd_table" where
  "c_dup2 old new fds = (if fds old = None then (False, fds) else (True, fds(new := fds old)))"

definition do_exec_redirect_child ::
  "(c_string \<Rightarrow> bool) \<Rightarrow> (c_string option list \<Rightarrow> bool) \<Rightarrow> c_string \<Rightarrow> c_string option list \<Rightarrow> fd_table \<Rightarrow>
     ending \<times> fd_table" where
  "do_exec_redirect_child creatable execv outputfile command fds =
     (case c_creat creatable outputfile fds of
        (None, fds1) \<Rightarrow> (Exits EXIT_FAILURE, fds1)
      | (Some out_fd, fds1) \<Rightarrow>
          let (closed, fds2) = c_close 1 fds1;
              (duplicated, fds3) = (if closed then c_dup2 out_fd 1 fds2 else (False, fds2));
              (closed', fds4) = (if duplicated then c_close out_fd fds3 else (False, fds3))
          in if closed' \<and> execv command then (Becomes command, fds4)
             else (Exits EXIT_FAILURE, snd (c_close out_fd fds4)))"

definition do_exec_redirect ::
  "(c_string \<Rightarrow> bool) \<Rightarrow> (c_string option list \<Rightarrow> bool) \<Rightarrow> int \<Rightarrow> u32 option \<Rightarrow> c_string \<Rightarrow> nat \<Rightarrow> c_string list \<Rightarrow> fd_table \<Rightarrow>
     stop + (ending \<times> fd_table)" where
  "do_exec_redirect creatable execv fork wait_status outputfile count arguments fds =
     andThen (collect_arguments count arguments) (\<lambda>command.
       Inr (if fork = - 1 then (Returns False, fds)
            else if fork = 0 then do_exec_redirect_child creatable execv outputfile command fds
            else (Returns (wait_for_child wait_status), fds)))"

lemma collect_arguments_all: "collect_arguments (length as) (as @ more) = Inr (map Some as @ [None])"
  by (induction as) auto

lemma collect_arguments_missing: "length as < count \<Longrightarrow> collect_arguments count as = Inl Out_of_bounds"
  by (induction count as rule: collect_arguments.induct) auto

end
