(* ===== verification/Example_Systemcalls_Props.thy ===== *)
theory Example_Systemcalls_Props
  imports Example_Systemcalls
begin

text \<open>
  What the functions of \<open>systemcalls.c\<close> report: the exit codes \<open>do_system\<close> accepts, the commands
  \<open>do_exec\<close> runs, and that \<open>do_exec_redirect\<close> does the same with the output in a file.
\<close>

section \<open>Exit codes\<close>

text \<open>\<open>do_system\<close> is true for every exit code of the command but \<open>127\<close>, failures included; only
  for the question whether there is a shell (\<open>cmd\<close> is \<open>NULL\<close>) is the answer \<open>0\<close> a failure.\<close>

lemma do_system_accepts_failures:
  assumes "code < 256"
  shows "do_system (\<lambda>_. exited code) cmd \<longleftrightarrow> code \<noteq> 127 \<and> \<not> (cmd = None \<and> code = 0)"
proof -
  have small: "unat (exited code) = 256 * code"
    unfolding exited_def mod_less [OF assms] by (rule unat_of_nat_u32) (use assms in simp)
  have "unat (- 1 :: u32) = 2 ^ 32 - 1" by (simp add: unsigned_minus_1_eq_mask mask_eq_exp_minus_1)
  then have "exited code \<noteq> - 1" using small assms by auto
  moreover have "exited code = 0 \<longleftrightarrow> code = 0" using small by (metis mult_is_0 unat_eq_zero zero_neq_numeral)
  moreover have "(of_nat code :: u32) = 127 \<longleftrightarrow> code = 127"
    using exited_word(2) [OF assms] by auto
  ultimately show ?thesis using exited_decoded [OF assms] by (auto simp: do_system_def Let_def)
qed

lemma do_system_accepts_failures_witness:
  "do_system (\<lambda>_. exited 1) (Some [102, 97, 108, 115, 101])"
  by (simp add: do_system_accepts_failures)

section \<open>Parent and child\<close>

text \<open>How a process ends: with an exit code or by a signal, with or without a core dump.\<close>

datatype death = Exited nat | Killed nat bool

fun possible :: "death \<Rightarrow> bool" where
  "possible (Exited code) \<longleftrightarrow> code < 256"
| "possible (Killed signal core) \<longleftrightarrow> 0 < signal \<and> signal < 127"

fun status_of :: "death \<Rightarrow> u32" where
  "status_of (Exited code) = exited code"
| "status_of (Killed signal core) = killed signal core"

text \<open>How the child's process ends, where \<open>run\<close> says how a program does.\<close>

fun ending_death :: "(c_string option list \<Rightarrow> death) \<Rightarrow> ending \<Rightarrow> death" where
  "ending_death run (Becomes command) = run command"
| "ending_death run (Exits code) = Exited code"
| "ending_death run (Returns ok) = Exited (of_bool ok)"

lemma wait_for_child_exited:
  "code < 256 \<Longrightarrow> wait_for_child (Some (exited code)) \<longleftrightarrow> code = 0"
  using exited_decoded [of code] exited_word(2) [of code] by (auto simp: wait_for_child_def)

lemma wait_for_child_status:
  "possible d \<Longrightarrow> wait_for_child (Some (status_of d)) \<longleftrightarrow> d = Exited 0"
  by (cases d) (simp_all add: wait_for_child_exited, simp add: wait_for_child_def killed_decoded)

lemma do_exec_child_ends: "\<exists>e. do_exec execv 0 w (length as) (as @ more) = Inr e \<and> e = do_exec_child execv (map Some as @ [None])"
  by (simp add: do_exec_def collect_arguments_all)

text \<open>C21. The child of \<open>do_exec\<close> runs the program with exactly the arguments given, ended by \<open>NULL\<close>;
  the parent, once the child has ended, reports true just when the program could be executed and
  has exited with \<open>0\<close>: neither another exit code nor a death by any signal, with or without a core
  dump, counts as success.\<close>

theorem do_exec_reports_success:
  assumes "0 < pid" and "possible (run (map Some as @ [None]))"
  shows "\<exists>child. do_exec execv 0 None (length as) as = Inr child
    \<and> (execv (map Some as @ [None]) \<longrightarrow> child = Becomes (map Some as @ [None]))
    \<and> do_exec execv pid (Some (status_of (ending_death run child))) (length as) as
        = Inr (Returns (execv (map Some as @ [None]) \<and> run (map Some as @ [None]) = Exited 0))"
proof -
  have all: "collect_arguments (length as) as = Inr (map Some as @ [None])"
    using collect_arguments_all [of as "[]"] by simp
  let ?child = "do_exec_child execv (map Some as @ [None])"
  have "wait_for_child (Some (status_of (ending_death run ?child)))
      \<longleftrightarrow> execv (map Some as @ [None]) \<and> run (map Some as @ [None]) = Exited 0"
    using assms(2) wait_for_child_status [of "Exited EXIT_FAILURE"]
    by (auto simp: do_exec_child_def wait_for_child_status EXIT_FAILURE_def)
  then show ?thesis using assms(1) all
    by (intro exI [of _ ?child]) (simp add: do_exec_def do_exec_child_def)
qed

theorem do_exec_reports_success_witness:
  "\<exists>child. do_exec (\<lambda>_. True) 0 None (length [[47]]) [[47]] = Inr child
    \<and> child = Becomes (map Some [[47]] @ [None])
    \<and> do_exec (\<lambda>_. True) 12 (Some (status_of (ending_death (\<lambda>_. Killed 11 True) child))) (length [[47]]) [[47]]
        = Inr (Returns False)"
  using do_exec_reports_success [of 12 "\<lambda>_. Killed 11 True" "[[47]]" "\<lambda>_. True"] by simp

section \<open>The redirected output\<close>

lemma first_descriptor:
  assumes "fds fd = None" and "fd < 1024"
  obtains out where "List.find (\<lambda>fd. fds fd = None) [0..<1024] = Some out" and "fds out = None"
proof -
  obtain out where f: "List.find (\<lambda>fd. fds fd = None) [0..<1024] = Some out"
    using assms by (cases "List.find (\<lambda>fd. fds fd = None) [0..<1024]") (auto simp: find_None_iff)
  then have "fds out = None" by (auto simp: find_Some_iff)
  with f show thesis by (rule that)
qed

text \<open>C20. With standard output open and a descriptor free, \<open>do_exec_redirect\<close> is \<open>do_exec\<close> with the
  output in the file, where a program counts as executable only if the file can be created: parent
  and child return the same. If the file can be created the program starts with exactly the
  caller's descriptors except that standard output is the file; if it cannot, the child exits with a
  failure, runs nothing and has the caller's descriptors.\<close>

theorem redirect_equals_exec:
  assumes "fds 1 \<noteq> None" and "fds fd = None" and "fd < 1024"
  shows "do_exec_redirect creatable execv pid status outputfile count args fds
    = andThen (do_exec (\<lambda>command. creatable outputfile \<and> execv command) pid status count args) (\<lambda>e.
        Inr (e, if pid = 0 \<and> creatable outputfile then fds(1 \<mapsto> outputfile) else fds))"
proof -
  obtain out where out: "List.find (\<lambda>fd. fds fd = None) [0..<1024] = Some out" "fds out = None"
    using assms(2,3) by (rule first_descriptor)
  have "out \<noteq> 1" using out(2) assms(1) by auto
  moreover from this have "fds(out \<mapsto> outputfile, 1 := None, 1 \<mapsto> outputfile, out := None) = fds(1 \<mapsto> outputfile)"
    using out(2) by (auto simp: fun_eq_iff)
  ultimately have child: "do_exec_redirect_child creatable execv outputfile command fds
      = (do_exec_child (\<lambda>command. creatable outputfile \<and> execv command) command,
         if creatable outputfile then fds(1 \<mapsto> outputfile) else fds)" for command
    using out assms(1)
    by (auto simp: do_exec_redirect_child_def do_exec_child_def c_creat_def c_close_def c_dup2_def
        Let_def fun_eq_iff)
  show ?thesis
    by (cases "collect_arguments count args") (simp_all add: do_exec_redirect_def do_exec_def child)
qed

theorem redirect_equals_exec_witness:
  "do_exec_redirect (\<lambda>_. True) (\<lambda>_. True) 0 None [111] 1 [[47]] [0 \<mapsto> [105], 1 \<mapsto> [116]]
    = andThen (do_exec (\<lambda>command. True \<and> True) 0 None 1 [[47]]) (\<lambda>e.
        Inr (e, if (0 :: int) = 0 \<and> True then [0 \<mapsto> [105], 1 \<mapsto> [116], 1 \<mapsto> [111]] else [0 \<mapsto> [105], 1 \<mapsto> [116]]))"
  by (rule redirect_equals_exec [where fd = 2]) simp_all

text \<open>With standard output closed and standard input open the file itself gets descriptor \<open>1\<close> and
  is closed again: the program is not started.\<close>

lemma redirect_needs_stdout:
  assumes "fds 0 \<noteq> None" and "fds 1 = None"
  shows "do_exec_redirect_child creatable execv outputfile command fds = (Exits EXIT_FAILURE, fds)"
proof -
  have "[0..<1024] = 0 # [Suc 0..<1024]" "[Suc 0..<1024] = Suc 0 # [Suc (Suc 0)..<1024]"
    by (rule upt_conv_Cons, simp)+
  then have "List.find (\<lambda>fd. fds fd = None) [0..<1024] = Some 1" using assms by simp
  then show ?thesis using assms(2)
    by (auto simp: do_exec_redirect_child_def c_creat_def c_close_def c_dup2_def Let_def fun_eq_iff)
qed

end
