(* ===== verification/Example_Threading.thy ===== *)
theory Example_Threading
  imports Aesd_Prelude
begin

text \<open>
  \<open>examples/threading\<close>: a thread that sleeps, locks a mutex, sleeps and unlocks it.

  The calls are the fields of \<open>thread_calls\<close>, over an environment of any type. \<open>usleep\<close> sets
  \<open>errno\<close> when it fails and leaves it alone otherwise; the functions of pthreads return an error
  number or \<open>0\<close>. The messages are left out.
\<close>

section \<open>The thread\<close>

record thread_data =
  thread_complete_success :: bool
  wait_to_obtain_ms :: u32
  wait_to_release_ms :: u32
  mutex :: ptr

type_synonym thread_heap = "ptr \<Rightarrow> thread_data option"

record 'e thread_calls =
  tc_usleep :: "u32 \<Rightarrow> 'e \<Rightarrow> int option \<times> 'e"
  tc_lock :: "ptr \<Rightarrow> 'e \<Rightarrow> stop + (int \<times> 'e)"
  tc_unlock :: "ptr \<Rightarrow> 'e \<Rightarrow> int \<times> 'e"

text \<open>\<open>TRYE (usleep (ms * 1000))\<close>: \<open>errno\<close> is looked at whether or not the call has failed. The
  product is computed in 32 bits.\<close>

definition trye_usleep :: "'e thread_calls \<Rightarrow> int \<Rightarrow> u32 \<Rightarrow> 'e \<Rightarrow> int \<times> 'e" where
  "trye_usleep C errno ms e =
     (let (r, e') = tc_usleep C (ms * 1000) e
      in (case r of None \<Rightarrow> errno | Some errno' \<Rightarrow> errno', e'))"

text \<open>\<open>errno\<close> is that of the thread; the result is what \<open>thread_param\<close> points to at the end.\<close>

definition threadfunc ::
  "'e thread_calls \<Rightarrow> int \<Rightarrow> thread_data \<Rightarrow> 'e \<Rightarrow> stop + (thread_data \<times> 'e)" where
  "threadfunc C errno args e =
     (let args0 = args\<lparr>thread_complete_success := False\<rparr>;
          (errno1, e1) = trye_usleep C errno (wait_to_obtain_ms args0) e
      in if errno1 \<noteq> 0 then Inr (args0, e1)
         else andThen (tc_lock C (mutex args0) e1) (\<lambda>(locked, e2).
           if locked = - 1 then Inr (args0, e2)
           else let (errno2, e3) = trye_usleep C errno1 (wait_to_release_ms args0) e2
             in if errno2 \<noteq> 0 then Inr (args0, e3)
                else let (unlocked, e4) = tc_unlock C (mutex args0) e3
                  in Inr (if unlocked = - 1 then args0
                          else args0\<lparr>thread_complete_success := True\<rparr>, e4)))"

section \<open>Starting the thread\<close>

text \<open>\<open>malloc\<close> is an unused address or \<open>NULL\<close>; \<open>create\<close> is \<open>pthread_create\<close> with \<open>threadfunc\<close>, and what
  the thread has done by the time it returns.\<close>

definition start_thread_obtaining_mutex ::
  "(thread_heap \<Rightarrow> ptr) \<Rightarrow> (ptr \<Rightarrow> ptr \<Rightarrow> thread_heap \<Rightarrow> 'e \<Rightarrow> int \<times> thread_heap \<times> 'e) \<Rightarrow>
     ptr \<Rightarrow> ptr \<Rightarrow> int \<Rightarrow> int \<Rightarrow> thread_heap \<Rightarrow> 'e \<Rightarrow> bool \<times> thread_heap \<times> 'e" where
  "start_thread_obtaining_mutex malloc create thread mutex' obtain_ms release_ms h e =
     (let params = malloc h
      in if params = NULL then (False, h, e)
         else let h1 = h(params \<mapsto> \<lparr>thread_complete_success = False, wait_to_obtain_ms = word_of_int obtain_ms,
                    wait_to_release_ms = word_of_int release_ms, mutex = mutex'\<rparr>);
                  (error, h2, e') = create thread params h1 e
           in if error \<noteq> 0 then (False, h2, e') else (thread \<noteq> NULL, h2, e'))"

text \<open>A failed \<open>pthread_create\<close> leaves the block of the parameters allocated, with no pointer to it.\<close>

lemma failed_create_leaks:
  assumes "malloc h = a" and "a \<noteq> NULL" and "\<And>t p h' e'. create t p h' e' = (error, h', e')" and "error \<noteq> 0"
  shows "\<exists>args h'. start_thread_obtaining_mutex malloc create thread m x y h e = (False, h(a \<mapsto> args), e)"
  using assms by (auto simp: start_thread_obtaining_mutex_def Let_def)

section \<open>A clock and a mutex\<close>

text \<open>The microseconds since the start, whether the mutex is locked, the times at which it was
  locked and unlocked, latest first, and for the coming sleeps after how many microseconds a
  signal interrupts them.\<close>

record lab =
  clock :: nat
  locked :: bool
  history :: "(bool \<times> nat) list"
  interruptions :: "nat option list"

definition EINTR :: int where "EINTR = 4"

fun interruption :: "nat option list \<Rightarrow> nat option" where
  "interruption (Some k # is) = Some k"
| "interruption is = None"

definition lab_calls :: "ptr \<Rightarrow> lab thread_calls" where
  "lab_calls the_mutex =
     \<lparr>tc_usleep = (\<lambda>usec e.
        case interruption (interruptions e) of
          Some k \<Rightarrow> (Some EINTR, e\<lparr>clock := clock e + k, interruptions := tl (interruptions e)\<rparr>)
        | None \<Rightarrow> (None, e\<lparr>clock := clock e + unat usec, interruptions := tl (interruptions e)\<rparr>)),
      tc_lock = (\<lambda>m e. if m \<noteq> the_mutex then Inr (22, e) else if locked e then Inl No_return
         else Inr (0, e\<lparr>locked := True, history := (True, clock e) # history e\<rparr>)),
      tc_unlock = (\<lambda>m e. if m \<noteq> the_mutex then (22, e)
         else (0, e\<lparr>locked := False, history := (False, clock e) # history e\<rparr>))\<rparr>"

lemma trye_usleep_lab:
  "interruption (interruptions e) = None \<Longrightarrow> trye_usleep (lab_calls m) errno ms e
    = (errno, e\<lparr>clock := clock e + unat (ms * 1000), interruptions := tl (interruptions e)\<rparr>)"
  "interruption (interruptions e) = Some k \<Longrightarrow> trye_usleep (lab_calls m) errno ms e
    = (EINTR, e\<lparr>clock := clock e + k, interruptions := tl (interruptions e)\<rparr>)"
  by (simp_all add: trye_usleep_def lab_calls_def)

lemma lock_lab [simp]:
  "\<not> locked e \<Longrightarrow> tc_lock (lab_calls m) m e
    = Inr (0, e\<lparr>locked := True, history := (True, clock e) # history e\<rparr>)"
  "tc_unlock (lab_calls m) m e = (0, e\<lparr>locked := False, history := (False, clock e) # history e\<rparr>)"
  "m' \<noteq> m \<Longrightarrow> tc_lock (lab_calls m) m' e = Inr (22, e)"
  "m' \<noteq> m \<Longrightarrow> tc_unlock (lab_calls m) m' e = (22, e)"
  by (simp_all add: lab_calls_def)

text \<open>\<open>pthread_create\<close> with a thread that runs at once, and a thread identifier it stores.\<close>

definition lab_create :: "ptr \<Rightarrow> ptr \<Rightarrow> ptr \<Rightarrow> thread_heap \<Rightarrow> lab \<Rightarrow> int \<times> thread_heap \<times> lab" where
  "lab_create m thread params h e =
     (case threadfunc (lab_calls m) 0 (the (h params)) e of
        Inl _ \<Rightarrow> (0, h, e)
      | Inr (args, e') \<Rightarrow> (0, h(params \<mapsto> args), e'))"

lemma micros:
  assumes "0 \<le> ms" and "ms \<le> 4294967"
  shows "unat ((word_of_int ms :: u32) * 1000) = 1000 * nat ms"
proof -
  have "uint (word_of_int ms :: u32) = ms"
    using assms by (simp add: unsigned_of_int take_bit_int_eq_self_iff)
  then have "unat (word_of_int ms :: u32) = nat ms" by (simp flip: nat_uint_eq)
  then have "unat ((word_of_int ms :: u32) * 1000) = (nat ms * 1000) mod 2 ^ 32"
    by (simp add: unat_word_ariths)
  then show ?thesis using assms by simp
qed

text \<open>C30. For waiting times up to \<open>4294967\<close> milliseconds and undisturbed sleeps the started thread
  locks the mutex after exactly the first time and unlocks it after exactly the second, and the
  block that the joiner gets reports success.\<close>

theorem thread_holds_mutex:
  assumes "0 \<le> a" and "a \<le> 4294967" and "0 \<le> b" and "b \<le> 4294967"
    and "malloc h \<noteq> NULL" and "thread \<noteq> NULL" and "\<not> locked e" and "interruptions e = []"
  shows "\<exists>args. start_thread_obtaining_mutex malloc (lab_create m) thread m a b h e
      = (True, h(malloc h \<mapsto> args), e\<lparr>clock := clock e + 1000 * nat a + 1000 * nat b,
          history := (False, clock e + 1000 * nat a + 1000 * nat b) # (True, clock e + 1000 * nat a) # history e\<rparr>)
    \<and> thread_complete_success args \<and> mutex args = m"
proof -
  let ?args = "\<lparr>thread_complete_success = False, wait_to_obtain_ms = word_of_int a,
    wait_to_release_ms = word_of_int b, mutex = m\<rparr>"
  let ?e' = "e\<lparr>clock := clock e + 1000 * nat a + 1000 * nat b,
    history := (False, clock e + 1000 * nat a + 1000 * nat b) # (True, clock e + 1000 * nat a) # history e\<rparr>"
  have "unat ((word_of_int a :: u32) * 1000) = 1000 * nat a" "unat ((word_of_int b :: u32) * 1000) = 1000 * nat b"
    using micros [of a] micros [of b] assms(1-4) by simp_all
  then have "threadfunc (lab_calls m) 0 ?args e = Inr (?args\<lparr>thread_complete_success := True\<rparr>, ?e')"
    using assms(7,8) by (simp add: threadfunc_def trye_usleep_lab Let_def)
  then show ?thesis
    using assms(5,6) by (intro exI [of _ "?args\<lparr>thread_complete_success := True\<rparr>"])
      (simp add: start_thread_obtaining_mutex_def lab_create_def Let_def)
qed

definition quiet_lab :: "nat option list \<Rightarrow> lab" where
  "quiet_lab is = \<lparr>clock = 7, locked = False, history = [], interruptions = is\<rparr>"

theorem thread_holds_mutex_witness:
  "\<exists>args. start_thread_obtaining_mutex (\<lambda>_. 1) (lab_create 9) 5 9 20 30 Map.empty (quiet_lab [])
      = (True, [1 \<mapsto> args], (quiet_lab [])\<lparr>clock := 7 + 1000 * nat 20 + 1000 * nat 30,
          history := (False, 7 + 1000 * nat 20 + 1000 * nat 30) # (True, 7 + 1000 * nat 20) # []\<rparr>)
    \<and> thread_complete_success args \<and> mutex args = 9"
  using thread_holds_mutex [of 20 30 "\<lambda>_. 1" Map.empty 5 "quiet_lab []" 9] by (simp add: quiet_lab_def)

text \<open>A signal during the first sleep ends the thread with the mutex untouched; a signal during
  the second ends it with the mutex locked for good. Neither thread reports success.\<close>

lemma interrupted_thread_keeps_mutex:
  assumes "\<not> locked e" and "mutex args = m"
  shows "(interruptions e = Some k # is \<longrightarrow>
      (\<exists>e'. threadfunc (lab_calls m) 0 args e = Inr (args\<lparr>thread_complete_success := False\<rparr>, e')
        \<and> \<not> locked e' \<and> history e' = history e))
    \<and> (interruptions e = None # Some k # is \<longrightarrow>
      (\<exists>e'. threadfunc (lab_calls m) 0 args e = Inr (args\<lparr>thread_complete_success := False\<rparr>, e')
        \<and> locked e' \<and> history e' = (True, clock e + unat (wait_to_obtain_ms args * 1000)) # history e))"
  using assms by (simp add: threadfunc_def trye_usleep_lab Let_def EINTR_def)

lemma interrupted_thread_keeps_mutex_witness:
  "\<exists>e'. threadfunc (lab_calls 9) 0
      \<lparr>thread_complete_success = True, wait_to_obtain_ms = 1, wait_to_release_ms = 1, mutex = 9\<rparr> (quiet_lab [None, Some 2])
      = Inr (\<lparr>thread_complete_success = False, wait_to_obtain_ms = 1, wait_to_release_ms = 1, mutex = 9\<rparr>, e')
    \<and> locked e' \<and> history e' = [(True, 1007)]"
  using interrupted_thread_keeps_mutex [of "quiet_lab [None, Some 2]"
      "\<lparr>thread_complete_success = True, wait_to_obtain_ms = 1, wait_to_release_ms = 1, mutex = 9\<rparr>" 9 2 "[]"]
  by (simp add: quiet_lab_def)

text \<open>The functions of pthreads report errors by positive numbers, never by \<open>-1\<close>: a thread whose
  lock has failed sleeps on and reports success.\<close>

lemma failed_lock_unnoticed:
  assumes "mutex args \<noteq> m" and "interruptions e = []"
  shows "\<exists>e'. threadfunc (lab_calls m) 0 args e = Inr (args\<lparr>thread_complete_success := True\<rparr>, e')
    \<and> history e' = history e"
  using assms by (simp add: threadfunc_def trye_usleep_lab Let_def)

end
