(* ===== verification/Example_Writer.thy ===== *)
theory Example_Writer
  imports Aesd_Strdup
begin

text \<open>
  \<open>finder-app/writer.c\<close>: write a string into a new file.

  \<open>fd\<close> and \<open>written\<close> are initialised after the first jumps to \<open>done\<close>, which skip that: until then
  they hold whatever was on the stack (\<open>fd0\<close>, \<open>written0\<close>). \<open>written\<close> only selects messages, and the
  messages to the terminal and to syslog are left out.
\<close>

text \<open>The calls on files, over an environment of any type; each returns \<open>-1\<close> when it fails.\<close>

record 'e file_calls =
  fc_creat :: "byte list \<Rightarrow> 'e \<Rightarrow> int \<times> 'e"
  fc_write :: "int \<Rightarrow> byte list \<Rightarrow> 'e \<Rightarrow> int \<times> 'e"
  fc_close :: "int \<Rightarrow> 'e \<Rightarrow> int \<times> 'e"

text \<open>The label \<open>done\<close>.\<close>

definition writer_done ::
  "'e file_calls \<Rightarrow> int \<Rightarrow> ptr \<Rightarrow> ptr \<Rightarrow> int \<Rightarrow> kheap \<Rightarrow> 'e \<Rightarrow> stop + (int \<times> kheap \<times> 'e)" where
  "writer_done C error writefile writestr fd h e =
     andThen (c_free h writefile) (\<lambda>h1.
     andThen (c_free h1 writestr) (\<lambda>h2.
       Inr (error, h2, if fd \<noteq> - 2 \<and> fd \<noteq> - 1 then snd (fc_close C fd e) else e)))"

text \<open>\<open>main\<close>; \<open>argv\<close> has the arguments, each with its terminator.\<close>

definition writer_main ::
  "(kheap \<Rightarrow> ptr \<Rightarrow> u64 \<Rightarrow> ptr \<times> kheap) \<Rightarrow> 'e file_calls \<Rightarrow> int \<Rightarrow> byte list list \<Rightarrow> kheap \<Rightarrow> 'e \<Rightarrow>
     stop + (int \<times> kheap \<times> 'e)" where
  "writer_main alloc C fd0 argv h e =
     (if length argv < 3 then Inr (1, h, e)
      else andThen (c_strdup alloc h (argv ! 1)) (\<lambda>(writefile, h1).
        if writefile = NULL then writer_done C 1 NULL NULL fd0 h1 e
        else andThen (c_strdup alloc h1 (argv ! 2)) (\<lambda>(writestr, h2).
          if writestr = NULL then writer_done C 1 writefile NULL fd0 h2 e
          else andThen (deref h2 writefile) (\<lambda>name.
               let (fd, e1) = fc_creat C name e
               in if fd = - 1 then writer_done C 1 writefile writestr fd h2 e1
                  else andThen (deref h2 writestr) (\<lambda>text.
                       andThen (c_strlen text) (\<lambda>len.
                       let (written, e2) = fc_write C fd (take len text) e1
                       in writer_done C (if written = - 1 then 1 else 0) writefile writestr fd h2 e2))))))"

section \<open>A disk\<close>

text \<open>The contents of the files by name, and the files open for writing, at their end. A write
  takes as many bytes as \<open>room\<close> says, or fails when it says none.\<close>

record disk =
  named :: "byte list \<Rightarrow> byte list option"
  opened :: "int \<Rightarrow> byte list option"

definition file_name :: "byte list \<Rightarrow> byte list" where
  "file_name s = takeWhile (\<lambda>b. b \<noteq> 0) s"

definition disk_calls :: "(byte list \<Rightarrow> nat option) \<Rightarrow> int \<Rightarrow> disk file_calls" where
  "disk_calls room new =
     \<lparr>fc_creat = (\<lambda>name d. (new, d\<lparr>named := (named d)(file_name name \<mapsto> []), opened := (opened d)(new \<mapsto> file_name name)\<rparr>)),
      fc_write = (\<lambda>fd bs d.
        case (opened d fd, room bs) of
          (Some name, Some n) \<Rightarrow>
            (int (min n (length bs)), d\<lparr>named := (named d)(name \<mapsto> the (named d name) @ take n bs)\<rparr>)
        | _ \<Rightarrow> (- 1, d)),
      fc_close = (\<lambda>fd d. (if opened d fd = None then - 1 else 0, d\<lparr>opened := (opened d)(fd := None)\<rparr>))\<rparr>"

lemma file_name_text [simp]: "0 \<notin> set s \<Longrightarrow> file_name (s @ 0 # rest) = s"
  unfolding file_name_def by (subst takeWhile_append2) auto

lemma disk_calls_simps [simp]:
  "fc_creat (disk_calls room new) name d
    = (new, d\<lparr>named := (named d)(file_name name \<mapsto> []), opened := (opened d)(new \<mapsto> file_name name)\<rparr>)"
  "opened d fd = Some f \<Longrightarrow> room bs = Some n \<Longrightarrow> fc_write (disk_calls room new) fd bs d
    = (int (min n (length bs)), d\<lparr>named := (named d)(f \<mapsto> the (named d f) @ take n bs)\<rparr>)"
  "snd (fc_close (disk_calls room new) fd d) = d\<lparr>opened := (opened d)(fd := None)\<rparr>"
  by (simp_all add: disk_calls_def)

section \<open>What the program does\<close>

text \<open>With memory for the two copies the program frees them again, and what happens on the disk is
  what the three calls do.\<close>

lemma writer_with_memory:
  assumes "realloc_ok bound alloc" and "allocates 1 limit alloc"
    and "0 \<notin> set f" and "length f < 2 ^ 63" and "length f < limit"
    and "0 \<notin> set t" and "length t < 2 ^ 63" and "length t < limit"
  obtains name rest where "file_name name = f" and
    "writer_main alloc C fd0 [prog, f @ [0], t @ [0]] Map.empty e
      = (let (fd, e1) = fc_creat C name e
         in if fd = - 1 then Inr (1, Map.empty, e1)
            else let (written, e2) = fc_write C fd t e1
                 in Inr (if written = - 1 then 1 else 0, Map.empty,
                      if fd \<noteq> - 2 then snd (fc_close C fd e2) else e2))"
proof -
  obtain q rest where q: "c_strdup alloc Map.empty (f @ 0 # []) = Inr (q, [q \<mapsto> f @ 0 # rest])" "q \<noteq> NULL"
    using c_strdup_succeeds [OF assms(1,2) _ _ assms(3,4,5), of Map.empty] by auto
  let ?h = "[q \<mapsto> f @ 0 # rest]"
  have "card (dom ?h) \<le> 1" "?h NULL = None" using q(2) by simp_all
  then obtain r rest' where r: "c_strdup alloc ?h (t @ 0 # []) = Inr (r, ?h(r \<mapsto> t @ 0 # rest'))" "r \<noteq> NULL" "?h r = None"
    using c_strdup_succeeds [OF assms(1,2) _ _ assms(6,7,8), of ?h] by blast
  have qr: "q \<noteq> r" using r(3) by (auto split: if_splits)
  let ?h' = "?h(r \<mapsto> t @ 0 # rest')"
  have "writer_done C err q r fd ?h' e' = Inr (err, Map.empty, if fd \<noteq> - 2 \<and> fd \<noteq> - 1 then snd (fc_close C fd e') else e')"
    for err fd e'
    using q(2) r(2) qr by (simp add: writer_done_def c_free_def fun_upd_twist)
  moreover have "deref ?h' q = Inr (f @ 0 # rest)" "deref ?h' r = Inr (t @ 0 # rest')"
    using q(2) r(2) qr by (simp_all add: deref_def)
  moreover have "c_strlen (t @ 0 # rest') = Inr (length t)" using assms(6) by simp
  ultimately have "writer_main alloc C fd0 [prog, f @ [0], t @ [0]] Map.empty e
      = (let (fd, e1) = fc_creat C (f @ 0 # rest) e
         in if fd = - 1 then Inr (1, Map.empty, e1)
            else let (written, e2) = fc_write C fd t e1
                 in Inr (if written = - 1 then 1 else 0, Map.empty,
                      if fd \<noteq> - 2 then snd (fc_close C fd e2) else e2))"
    using q r by (simp add: writer_main_def Let_def split: prod.splits)
  with file_name_text [OF assms(3)] that show thesis by blast
qed

text \<open>C31. With memory and a disk that takes at least one byte, the program exits with \<open>0\<close>; the file is
  created or emptied and holds the bytes the disk took, all other files are as before, the
  descriptor is closed and both copies are freed. So a disk that takes only a part of the text
  goes unnoticed.\<close>

theorem writer_stores_text:
  assumes "realloc_ok bound alloc" and "allocates 1 limit alloc"
    and "0 \<notin> set f" and "length f < 2 ^ 63" and "length f < limit"
    and "0 \<notin> set t" and "length t < 2 ^ 63" and "length t < limit"
    and "0 \<le> new" and "opened d new = None" and "room t = Some n"
  shows "writer_main alloc (disk_calls room new) fd0 [prog, f @ [0], t @ [0]] Map.empty d
    = Inr (0, Map.empty, d\<lparr>named := (named d)(f \<mapsto> take n t)\<rparr>)"
proof -
  obtain name where run: "file_name name = f"
    "writer_main alloc (disk_calls room new) fd0 [prog, f @ [0], t @ [0]] Map.empty d
      = (let (fd, e1) = fc_creat (disk_calls room new) name d
         in if fd = - 1 then Inr (1, Map.empty, e1)
            else let (written, e2) = fc_write (disk_calls room new) fd t e1
                 in Inr (if written = - 1 then 1 else 0, Map.empty,
                      if fd \<noteq> - 2 then snd (fc_close (disk_calls room new) fd e2) else e2))"
    by (rule writer_with_memory [OF assms(1-8), where C = "disk_calls room new" and e = d])
  let ?d1 = "d\<lparr>named := (named d)(f \<mapsto> []), opened := (opened d)(new \<mapsto> f)\<rparr>"
  let ?d2 = "?d1\<lparr>named := (named d)(f \<mapsto> take n t)\<rparr>"
  have "fc_creat (disk_calls room new) name d = (new, ?d1)" by (simp add: run(1))
  moreover have "fc_write (disk_calls room new) new t ?d1 = (int (min n (length t)), ?d2)"
    by (subst disk_calls_simps(2) [where f = f and n = n]) (simp_all add: assms(11))
  moreover have "(opened d)(new := None) = opened d" using assms(10) by (rule fun_upd_idem)
  then have "snd (fc_close (disk_calls room new) new ?d2) = d\<lparr>named := (named d)(f \<mapsto> take n t)\<rparr>"
    by simp
  moreover have "new \<noteq> - 1" "new \<noteq> - 2" "int (min n (length t)) \<noteq> - 1" using assms(9) by simp_all
  ultimately show ?thesis unfolding run(2) by (simp only: Let_def prod.case if_False if_True refl simp_thms)
qed

theorem writer_stores_text_witness:
  "writer_main (simple_realloc 100) (disk_calls (\<lambda>_. Some 2) 3) 5 [[119, 0], [102] @ [0], [104, 105, 33] @ [0]]
      Map.empty \<lparr>named = [[102] \<mapsto> [1, 2, 3, 4]], opened = Map.empty\<rparr>
    = Inr (0, Map.empty, \<lparr>named = [[102] \<mapsto> [104, 105]], opened = Map.empty\<rparr>)"
proof -
  let ?d = "\<lparr>named = [[102] \<mapsto> [1, 2, 3, 4]], opened = Map.empty\<rparr>"
  have "allocates 1 100 (simple_realloc 100)"
    using simple_realloc_allocates [of 100] unfolding allocates_def by force
  then have "writer_main (simple_realloc 100) (disk_calls (\<lambda>_. Some 2) 3) 5 [[119, 0], [102] @ [0], [104, 105, 33] @ [0]]
      Map.empty ?d = Inr (0, Map.empty, ?d\<lparr>named := (named ?d)([102] \<mapsto> take 2 [104, 105, 33])\<rparr>)"
    by (rule writer_stores_text [OF simple_realloc_ok]) simp_all
  then show ?thesis by simp
qed

text \<open>When the first copy fails, \<open>fd\<close> has not been set, and the program closes whatever descriptor
  happens to be on the stack.\<close>

lemma failed_copy_closes_garbage:
  assumes "c_strdup alloc h (argv ! 1) = Inr (NULL, h)" and "3 \<le> length argv" and "0 \<le> fd0"
  shows "writer_main alloc C fd0 argv h e = Inr (1, h, snd (fc_close C fd0 e))"
  using assms by (simp add: writer_main_def writer_done_def)

end
