(* ===== verification/Example_Autotest.thy ===== *)
theory Example_Autotest
  imports Aesd_Prelude
begin

text \<open>
  \<open>examples/autotest-validate\<close>: the three functions of the library, what its \<open>main\<close> prints, and the
  test of \<open>student-test/assignment1\<close>. The function that reads the configuration file
  and the assertion of the test framework belong to a submodule and are parameters.
\<close>

definition this_function_returns_true :: bool where
  "this_function_returns_true = True"

definition this_function_returns_false :: bool where
  "this_function_returns_false = False"

definition my_username :: string where
  "my_username = ''dark-beep-boop''"

definition git_username :: string where
  "git_username = ''akshita-bhasin''"

text \<open>The conditional expression of both calls of \<open>printf\<close>.\<close>

definition shown :: "bool \<Rightarrow> string" where
  "shown b = (if b then ''true'' else ''false'')"

text \<open>What \<open>main\<close> prints, and its exit status: a \<open>main\<close> that reaches its end returns 0.\<close>

definition autotest_main :: "string list \<times> int" where
  "autotest_main =
     ([''this_function_returns_true returned '' @ shown this_function_returns_true,
       ''this_function_returns_false returned '' @ shown this_function_returns_false], 0)"

text \<open>A null pointer is \<open>None\<close>; the assertion says whether the test goes on.\<close>

definition test_validate_my_username ::
  "(string option \<Rightarrow> string option \<Rightarrow> bool) \<Rightarrow> string option \<Rightarrow> bool" where
  "test_validate_my_username assert_equal_string username_from_conf_file =
     assert_equal_string (Some my_username) username_from_conf_file"

text \<open>The framework documents that two strings are equal when their characters are and that a null
  pointer is equal to nothing else: then the test passes for exactly one contents of the
  file, which is not the other name the sources mention.\<close>

lemma autotest_prints:
  "autotest_main = ([''this_function_returns_true returned true'',
     ''this_function_returns_false returned false''], 0)"
  by (simp add: autotest_main_def shown_def this_function_returns_true_def this_function_returns_false_def)

lemma username_test_passes_iff:
  "test_validate_my_username (=) conf \<longleftrightarrow> conf = Some ''dark-beep-boop''"
  by (auto simp: test_validate_my_username_def my_username_def)

lemma git_username_fails_test: "\<not> test_validate_my_username (=) (Some git_username)"
  by (simp add: username_test_passes_iff git_username_def)

end
