(* ===== verification/Spec2Isabelle.thy ===== *)
theory Spec2Isabelle
  imports Aesd_Buffer_Props Aesd_Driver_Props Aesd_Driver_Calls Server_Socket_Props Server_Site_Props
    Server_Regular_Props
    Server_Main_Props Server_Release Server_List_Props Server_Monitor_Drain
    Server_Writers_Props Server_Writers_Run Server_Try Server_Daemon
    Example_Systemcalls_Props Example_Threading Example_Writer
    Example_Autotest
begin

text \<open>
  A verification library for the AESD assignments: a character device driver that remembers the
  last ten newline-terminated commands written to it, a socket server that writes each received
  line to that device and sends the whole device back, and four small example programs.

  \<^bold>\<open>The program.\<close> The driver (\<open>src/aesd-char-driver\<close>) keeps its commands in a ring of ten entries
  and an unterminated command outside of it. The server (\<open>src/server\<close>) accepts connections in
  its main loop and gives each a thread, whose identifier it keeps in a queue until it joins all
  threads at the end. A thread receives one line; a line that starts with the name of the seek
  request becomes an \<open>ioctl\<close> on the device, any other is written to it; then the file is sent from
  its position to the end. The threads share a readers-writers monitor around the calls
  on the file. The examples (\<open>src/examples\<close>, \<open>src/finder-app\<close>) run commands, hold a mutex in a
  thread, write a file, and return constants.

  \<^bold>\<open>Conventions\<close> (\<open>Aesd_Prelude\<close>). C integers are words of their width. A function that can only
  return is a plain HOL function; one that may leave the defined behaviour of C returns
  \<open>stop + 'a\<close>, where \<open>stop\<close> names what happened: a null or dangling dereference, an access out of
  bounds, a signed overflow, a failed assertion, a bad free, or no return. Errors that the code
  itself reports are ordinary results. Code that is not in the repository (the kernel, libc,
  pthreads, the peer) is a record of functions that the definitions take as an argument; what is
  relied on is stated as a predicate on the record or as a locale, and is shown to hold of a
  concrete one (\<open>Aesd_Demo_Kernel\<close>, \<open>simple_realloc\<close>, \<open>demo_os\<close>, \<open>demo_platform\<close>).

  \<^bold>\<open>The theories.\<close>

  \<^item> \<open>Aesd_Prelude\<close>, \<open>Aesd_Cstring\<close>, \<open>Aesd_Memory\<close>, \<open>Aesd_Strdup\<close>: the outcomes, generic lemmas,
    \<open>string.h\<close> on byte arrays, allocated blocks with the behaviour of \<open>realloc\<close>, and \<open>strdup\<close>.
  \<^item> \<open>Aesd_Log\<close>, \<open>Aesd_Circular_Buffer\<close>, \<open>Aesd_Buffer_Props\<close>: \<open>aesd-circular-buffer.c\<close>, every
    function under its own name. \<open>Aesd_Log\<close> holds the contracts, bounded logs and position
    searches, that the ring implements; the properties say that the ring holds the last ten
    entries, that the position search is total and correct, and that the two position
    translations are inverse to each other.
  \<^item> \<open>Aesd_Ioctl\<close>, \<open>Aesd_Char_Driver\<close>: \<open>aesd_ioctl.h\<close>, \<open>aesdchar.h\<close> and \<open>main.c\<close> of the driver: the
    file operations, the ioctl, module initialisation and cleanup, with the copies into the debug
    buffer.
  \<^item> \<open>Aesd_Driver_Inv\<close>, \<open>_Write\<close>, \<open>_Store\<close>, \<open>_Read\<close>, \<open>_Seek\<close>, \<open>_History\<close>, \<open>_Props\<close>: what the kernel
    functions promise, the invariant of the device, and each operation on the abstraction of the
    device as a sequence of segments; \<open>_History\<close> gives the abstraction its users have, the
    history of accepted bytes cut into commands. The properties: a write appends to the
    history, every sequence of writes and reads that return keeps invariant and history, reading to the
    end delivers the contents, seeking works, and unloading gives every block back. The one exception
    is an allocation that fails while a command is pending: it loses that command and its block, which
    is a property of its own.
  \<^item> \<open>Aesd_Driver_Calls\<close>: the calls a process can make on an open file, as one datatype, with the file
    operations structure: every sequence of short calls on a well-formed device ends, with
    results of the documented kinds, and leaves the device well-formed.
  \<^item> \<open>Server_Node\<close>, \<open>Server_List\<close>, \<open>Server_Queue\<close>, \<open>Server_List_Inv\<close>, \<open>Server_List_Props\<close>: \<open>node.c\<close>,
    \<open>doubly_linked_list.c\<close> and \<open>queue.c\<close> on a heap of nodes. The invariant says that the nodes of
    the heap are exactly those of the list, so that no node leaks; the queue is proved against a
    first-in first-out contract (a locale), on which the loop that joins the threads rests.
  \<^item> \<open>Server_Monitor\<close>, \<open>Server_Monitor_Props\<close>, \<open>Server_Monitor_Two\<close>, \<open>Server_Monitor_Drain\<close>:
    \<open>monitor.c\<close>. The critical sections are functions, their interleaving by any number of threads, with
    broadcasts and spurious wake-ups, is the step relation \<open>mon_step\<close>. The counters are exact and no
    wake-up is lost; without new arrivals every run ends after at most four steps per thread with all of
    them outside; mutual exclusion holds for two threads and fails for three.
  \<^item> \<open>Server_Writers\<close>, \<open>Server_Writers_Props\<close>, \<open>Server_Writers_Run\<close>: threads that append lines to one
    file under the monitor, call by call: \<open>file_step\<close> interleaves the steps of the monitor with the
    single \<open>write\<close> calls of \<open>aesdsocket_write_line\<close>. Two threads keep the lines whole, three tear
    them; and a call of the function \<open>aesdsocket_write_line\<close> is a run of the step relation.
  \<^item> \<open>Server_Os\<close>, \<open>Server_Socket\<close>, \<open>Server_Seekto\<close>, \<open>Server_Serve\<close>, \<open>Server_Main\<close>: \<open>aesdsocket.c\<close> and
    \<open>main.c\<close> of the server, from the signal handlers over the loops on lines and the parsing of
    seek requests to the main loop and the command line.
  \<^item> \<open>Server_Try\<close>: the macros of \<open>try.h\<close> under their own names, with \<open>errno\<close>, the log and the jumps, and
    the proof that the retry loop and the test of a call that the other theories use are these macros.
  \<^item> \<open>Server_Lines\<close>, \<open>Server_Streams\<close>, \<open>Server_Transfer\<close>: what the loops compute, as clients of the
    locales \<open>byte_source\<close>, \<open>line_source\<close>, \<open>byte_sink\<close> and \<open>file_transfer\<close>.
  \<^item> \<open>Server_Session\<close>, \<open>Server_Device\<close>, \<open>Server_Echo\<close>, \<open>Server_Socket_Props\<close>: the composition of
    server and driver. The environment of \<open>Server_Session\<close> has the modelled driver behind the
    file and the modelled monitor; its socket cuts the incoming bytes into arbitrary pieces,
    interrupts calls, and accepts any part of what is sent. The locales are interpreted there, and a
    served connection is followed from the bytes received to the bytes sent. \<open>Server_Requests\<close> adds the
    seek requests and defines the answer that any line has on a history of commands.
  \<^item> \<open>Server_Site\<close>, \<open>Server_Site_Props\<close>: the whole server, from the command line to the exit status: a
    list of peers connects, each gets the answer of its line on the history that the peers before
    it left, and at the end every thread is joined, every file and socket is closed and no block is
    left. The environment tracks the descriptors of files and sockets, and each thread has finished
    when the next peer connects.
  \<^item> \<open>Server_Regular\<close>, \<open>Server_Regular_Props\<close>: the server on a regular file: a connection appends its
    line and is answered with only the first line of each 1024-byte buffer of the file; the timer
    appends timestamps; a failed read frees a line twice.
  \<^item> \<open>Server_Main_Props\<close>, \<open>Server_Release\<close>, \<open>Server_Daemon\<close>: starting a connection and its failures; a
    network whose calls fail as a list of verdicts says, on which the main loop gives back every
    socket, address list and timer, but for a timer whose identifier is the null value of \<open>timer_t\<close>, which
    the code takes for none; a table of descriptors, on which the daemon detaches.
  \<^item> \<open>Example_Systemcalls\<close>, \<open>Example_Systemcalls_Props\<close>, \<open>Example_Threading\<close>, \<open>Example_Writer\<close>,
    \<open>Example_Autotest\<close>: \<open>systemcalls.c\<close>, read once for the parent and once for the child,
    \<open>threading.c\<close>, \<open>writer.c\<close>, and \<open>autotest-validate\<close> with the student test.

  \<^bold>\<open>Bounds and fuel.\<close> Loops over data (strings, list nodes, ring entries) are structural or
  carry a measure: the searches over the ring make at most ten rounds. The loops that wait for
  the outside (receiving, sending, accepting, retrying after a signal) may run forever; they take
  fuel, and running out of it is the outcome \<open>No_return\<close>. The theorems about them say which
  fuel is enough, in terms of the bytes to move and the interruptions to come; that a closed
  peer keeps the receiving loop running is proved for every fuel. The driver theorems assume
  requests of fewer than 100 bytes where the debug copies would overflow otherwise (which is a
  property of its own), file positions below \<open>2 ^ 63\<close> and allocations below a limit of the
  kernel.

  \<^bold>\<open>Not modelled.\<close> The texts of the messages to syslog, the kernel log and the terminal (only
  \<open>Server_Try\<close> has a log, and only the copies that the driver's debug messages make are modelled); the
  destruction of the pthread objects, which have no state here; the permissions of files (whether
  \<open>creat\<close> can create its file is a parameter). The driver's operations are atomic with
  respect to each other, as its mutex makes them; a signal that interrupts the wait for the mutex is
  modelled. Server threads run one after the other in \<open>Server_Session\<close> and
  \<open>Server_Site\<close>; their interleaving is \<open>mon_step\<close> at the monitor and
  \<open>file_step\<close> at the file. Scripts and build files are left out, and so are the headers
  that hold prototypes only and \<open>macro_utils.h\<close>, which pastes tokens and is not used.
  What the map leaves uncovered of the C files are comments, includes, prototypes and the message
  macros of the examples.
\<close>

end
